(* ===== verification/Cosec_Prelude.thy ===== *)
theory Cosec_Prelude
  imports Main "HOL-Library.Word"
begin

text \<open>
  Shared vocabulary of the development: the machine types of the i386 target, the error
  numbers of \<^verbatim>\<open>lib/c/include/sys/errno.h\<close>, and the generic facts on words, lists and
  option-valued searches that the component theories use.
\<close>

unbundle bit_operations_syntax

section \<open>Machine types\<close>

text \<open>
  The kernel is compiled with \<^verbatim>\<open>-m32\<close>: \<^verbatim>\<open>uint\<close>, \<^verbatim>\<open>size_t\<close>, \<^verbatim>\<open>uintptr_t\<close> and pointers are
  32 bits wide and wrap around.
\<close>

type_synonym u8 = "8 word"
type_synonym u16 = "16 word"
type_synonym u32 = "32 word"
type_synonym u64 = "64 word"

section \<open>Error numbers\<close>

datatype errno =
    EPERM | ENOENT | ESRCH | EINTR | EIO | ENXIO | E2BIG | ENOEXEC | EBADF | ECHILD
  | EAGAIN | ENOMEM | EACCES | EFAULT | ENOTBLK | EBUSY | EEXIST | EXDEV | ENODEV
  | ENOTDIR | EISDIR | EINVAL | ENFILE | EMFILE | ENOTTY | ETXTBSY | EFBIG | ENOSPC
  | ESPIPE | EROFS | EMLINK | EPIPE | EDOM | ERANGE | ENOSYS | ETODO | EKERN

fun errno_code :: "errno \<Rightarrow> int" where
  "errno_code EPERM = 1" | "errno_code ENOENT = 2" | "errno_code ESRCH = 3"
| "errno_code EINTR = 4" | "errno_code EIO = 5" | "errno_code ENXIO = 6"
| "errno_code E2BIG = 7" | "errno_code ENOEXEC = 8" | "errno_code EBADF = 9"
| "errno_code ECHILD = 10" | "errno_code EAGAIN = 11" | "errno_code ENOMEM = 12"
| "errno_code EACCES = 13" | "errno_code EFAULT = 14" | "errno_code ENOTBLK = 15"
| "errno_code EBUSY = 16" | "errno_code EEXIST = 17" | "errno_code EXDEV = 18"
| "errno_code ENODEV = 19" | "errno_code ENOTDIR = 20" | "errno_code EISDIR = 21"
| "errno_code EINVAL = 22" | "errno_code ENFILE = 23" | "errno_code EMFILE = 24"
| "errno_code ENOTTY = 25" | "errno_code ETXTBSY = 26" | "errno_code EFBIG = 27"
| "errno_code ENOSPC = 28" | "errno_code ESPIPE = 29" | "errno_code EROFS = 30"
| "errno_code EMLINK = 31" | "errno_code EPIPE = 32" | "errno_code EDOM = 33"
| "errno_code ERANGE = 34" | "errno_code ENOSYS = 35" | "errno_code ETODO = 39"
| "errno_code EKERN = 40"

section \<open>Collections\<close>

named_theorems unat_simps \<open>unsigned values of word expressions that do not wrap\<close>

section \<open>Words\<close>

lemma u32_bound: "unat (x :: u32) < 4294967296"
proof -
  have "unat x < 2 ^ LENGTH(32)" by (rule unsigned_less)
  then show ?thesis by simp
qed

lemma unat_add_nowrap [unat_simps]:
  "unat a + unat b < 2 ^ 32 \<Longrightarrow> unat (a + b :: u32) = unat a + unat b"
  using unat_add_lem [of a b] by simp

lemma unat_sub_nowrap [unat_simps]:
  "unat b \<le> unat a \<Longrightarrow> unat (a - b :: u32) = unat a - unat b"
  by (simp add: unat_sub word_le_nat_alt)

lemma unat_mult_nowrap [unat_simps]:
  "unat a * unat b < 2 ^ 32 \<Longrightarrow> unat (a * b :: u32) = unat a * unat b"
  using unat_mult_lem [of a b] by simp

lemma unat_mask_and: "unat (a AND mask n :: 'a::len word) = unat a mod 2 ^ n"
proof -
  have "unat (a AND mask n) = unat (take_bit n a)" by (simp add: take_bit_eq_mask)
  also have "\<dots> = take_bit n (unat a)" by (rule unsigned_take_bit_eq)
  finally show ?thesis by (simp add: take_bit_eq_mod)
qed

lemma u32_add_diff [simp]: "(a :: u32) + b - a = b"
  by simp

lemma word_and_not_self: "(a :: 'a::len word) AND NOT b = a - (a AND b)"
proof -
  have "a = (a AND NOT b) + (a AND b)"
    by (subst disjunctive_add) (auto intro: bit_eqI simp: bit_simps)
  then show ?thesis by (simp add: algebra_simps)
qed

lemma sint_u32: "sint (x :: u32) = (if unat x < 2 ^ 31 then int (unat x) else int (unat x) - 2 ^ 32)"
proof -
  define u where u: "u = unat x"
  have "sint x = (int u + 2 ^ 31) mod 2 ^ 32 - 2 ^ 31"
    by (simp add: u sint_uint signed_take_bit_eq_take_bit_shift take_bit_eq_mod)
  moreover have "(k + 2147483648) mod 4294967296 = (if k < 2147483648 then k + 2147483648 else k - 2147483648)"
    if "0 \<le> k" "k < 4294967296" for k :: int
    using that mod_pos_pos_trivial [of "k - 2147483648" 4294967296]
      mod_add_self2 [of "k - 2147483648" 4294967296] by (auto simp: mod_pos_pos_trivial add.commute)
  ultimately show ?thesis using u32_bound [of x] unfolding u [symmetric] by auto
qed

section \<open>Lists\<close>

lemma successively_mid:
  "successively P (xs @ y # z # ys) \<longleftrightarrow> successively P (xs @ [y]) \<and> P y z \<and> successively P (z # ys)"
  by (induction xs) (auto simp: successively_Cons hd_append)

lemma in_set_tlD: "x \<in> set (tl xs) \<Longrightarrow> x \<in> set xs"
  by (cases xs) auto

lemma butlast_not_last: "distinct xs \<Longrightarrow> x \<in> set (butlast xs) \<Longrightarrow> x \<noteq> last xs"
  by (induction xs) (auto split: if_splits)

lemma sorted_wrt_mem_between:
  "sorted_wrt P (xs @ y # ys) \<Longrightarrow> (\<forall>x \<in> set xs. P x y) \<and> (\<forall>z \<in> set ys. P y z)"
  by (simp add: sorted_wrt_append)

end
