(* ===== verification/I386.thy ===== *)
theory I386
  imports Cosec_Prelude
begin

text \<open>
  Segment descriptors and selectors of \<^verbatim>\<open>include/arch/i386.h\<close> and the descriptor tables of \<^verbatim>\<open>src/arch/i386.c\<close>.  A
  descriptor is its two 32-bit halves; the bit fields of the union are read out of them.
\<close>

section \<open>Descriptors\<close>

definition PL_KERN :: u32 where "PL_KERN = 0"
definition PL_USER :: u32 where "PL_USER = 3"

datatype gatetype = GATE_INTR | GATE_TRAP | GATE_CALL

definition SD_GRAN_4Kb :: u32 where "SD_GRAN_4Kb = 1"
definition SD_TYPE_ER_CODE :: u32 where "SD_TYPE_ER_CODE = 0x08 OR 0x02"
definition SD_TYPE_RW_DATA :: u32 where "SD_TYPE_RW_DATA = 0x02"
definition SD_TYPE_LDT :: u32 where "SD_TYPE_LDT = 0x2"

record segdescr =
  int0 :: u32
  int1 :: u32

definition sd_ll :: "segdescr \<Rightarrow> u64" where
  "sd_ll seg = ucast (int0 seg) OR push_bit 32 (ucast (int1 seg))"

definition limit_l :: "segdescr \<Rightarrow> u32" where "limit_l seg = int0 seg AND 0xFFFF"
definition base_l :: "segdescr \<Rightarrow> u32" where "base_l seg = drop_bit 16 (int0 seg)"
definition base_m :: "segdescr \<Rightarrow> u32" where "base_m seg = int1 seg AND 0xFF"
definition sd_type :: "segdescr \<Rightarrow> u32" where "sd_type seg = drop_bit 8 (int1 seg) AND 0xF"
definition sysbit :: "segdescr \<Rightarrow> u32" where "sysbit seg = drop_bit 12 (int1 seg) AND 1"
definition sd_dpl :: "segdescr \<Rightarrow> u32" where "sd_dpl seg = drop_bit 13 (int1 seg) AND 3"
definition mem_present :: "segdescr \<Rightarrow> u32" where "mem_present seg = drop_bit 15 (int1 seg) AND 1"
definition limit_h :: "segdescr \<Rightarrow> u32" where "limit_h seg = drop_bit 16 (int1 seg) AND 0xF"
definition granularity :: "segdescr \<Rightarrow> u32" where "granularity seg = drop_bit 23 (int1 seg) AND 1"
definition base_h :: "segdescr \<Rightarrow> u32" where "base_h seg = drop_bit 24 (int1 seg)"

definition segdescr_base :: "segdescr \<Rightarrow> u32" where
  "segdescr_base seg = push_bit 24 (base_h seg) OR push_bit 16 (base_m seg) OR base_l seg"

definition segdescr_limit :: "segdescr \<Rightarrow> u32" where
  "segdescr_limit seg = push_bit 16 (limit_h seg) OR limit_l seg"

definition segdescr_usual_init :: "u32 \<Rightarrow> u32 \<Rightarrow> u32 \<Rightarrow> u32 \<Rightarrow> u32 \<Rightarrow> segdescr" where
  "segdescr_usual_init type limit base dpl gran =
     \<lparr>int0 = push_bit 16 base OR (limit AND 0xFFFF),
      int1 = (drop_bit 16 base AND 0xFF) OR push_bit 8 type OR push_bit 13 dpl OR 0x9000 OR
        push_bit 16 ((drop_bit 16 limit AND 0x0F) OR (drop_bit 16 base AND 0xFF00) OR push_bit 7 gran OR 0x40)\<rparr>"

definition segdescr_gate_init :: "u16 \<Rightarrow> u32 \<Rightarrow> u32 \<Rightarrow> bool \<Rightarrow> segdescr" where
  "segdescr_gate_init slctr addr dpl trap =
     \<lparr>int0 = push_bit 16 (ucast slctr) OR (addr AND 0x0000FFFF),
      int1 = (addr AND 0xFFFF0000) OR 0x8E00 OR push_bit 13 dpl OR (if trap then 0x0100 else 0)\<rparr>"

definition segdescr_taskgate_init :: "u16 \<Rightarrow> u32 \<Rightarrow> segdescr" where
  "segdescr_taskgate_init tasksel dpl = \<lparr>int0 = push_bit 16 (ucast tasksel), int1 = 0x8500 OR push_bit 13 dpl\<rparr>"

definition segdescr_taskstate_init :: "u32 \<Rightarrow> u32 \<Rightarrow> segdescr" where
  "segdescr_taskstate_init addr dpl =
     \<lparr>int0 = 0x67 OR push_bit 16 (addr AND 0xFFFF),
      int1 = (addr AND 0xFF000000) OR (drop_bit 16 addr AND 0xFF) OR 0x00008900 OR push_bit 13 (dpl AND 3)\<rparr>"

definition segdescr_taskstate_busy :: "segdescr \<Rightarrow> bool \<Rightarrow> segdescr" where
  "segdescr_taskstate_busy seg busy =
     seg\<lparr>int1 := (if busy then int1 seg OR push_bit 9 1 else int1 seg AND NOT (push_bit 9 1))\<rparr>"

section \<open>Selectors\<close>

definition make_segment_selector :: "u32 \<Rightarrow> u32 \<Rightarrow> u32 \<Rightarrow> u16" where
  "make_segment_selector i ti pl = ucast (push_bit 3 (i AND 0xFFFF) + push_bit 2 (ti AND 1) + (pl AND 3))"

definition segsel_index :: "u16 \<Rightarrow> u16" where "segsel_index ss = drop_bit 3 ss"

definition GDT_KERN_CS :: nat where "GDT_KERN_CS = 1"
definition GDT_KERN_DS :: nat where "GDT_KERN_DS = 2"
definition GDT_USER_CS :: nat where "GDT_USER_CS = 3"
definition GDT_USER_DS :: nat where "GDT_USER_DS = 4"
definition GDT_DEF_LDT :: nat where "GDT_DEF_LDT = 5"

definition SEL_KERN_CS :: u16 where "SEL_KERN_CS = make_segment_selector (of_nat GDT_KERN_CS) 0 PL_KERN"
definition SEL_KERN_DS :: u16 where "SEL_KERN_DS = make_segment_selector (of_nat GDT_KERN_DS) 0 PL_KERN"
definition SEL_USER_CS :: u16 where "SEL_USER_CS = make_segment_selector (of_nat GDT_USER_CS) 0 PL_USER"
definition SEL_USER_DS :: u16 where "SEL_USER_DS = make_segment_selector (of_nat GDT_USER_DS) 0 PL_USER"
definition SEL_DEF_LDT :: u16 where "SEL_DEF_LDT = make_segment_selector (of_nat GDT_DEF_LDT) 0 PL_USER"

lemma selectors: "SEL_KERN_CS = 0x08" "SEL_KERN_DS = 0x10" "SEL_USER_CS = 0x1B" "SEL_USER_DS = 0x23" "SEL_DEF_LDT = 0x2B"
  by (simp_all add: SEL_KERN_CS_def SEL_KERN_DS_def SEL_USER_CS_def SEL_USER_DS_def SEL_DEF_LDT_def make_segment_selector_def
      GDT_KERN_CS_def GDT_KERN_DS_def GDT_USER_CS_def GDT_USER_DS_def GDT_DEF_LDT_def PL_KERN_def PL_USER_def)

section \<open>The global descriptor table\<close>

definition N_TASKS :: nat where "N_TASKS = 40"
definition N_GDT :: nat where "N_GDT = 5 + N_TASKS * 2"

text \<open>The table register: the limit is the offset of the last byte of the table.\<close>

record gdt_ptr =
  gdt_limit :: u16
  gdt_base :: u32

definition gdt_entry_init :: "segdescr list \<Rightarrow> nat \<Rightarrow> u32 \<Rightarrow> u32 \<Rightarrow> segdescr list" where
  "gdt_entry_init gdt i type pl = gdt[i := segdescr_usual_init type 0xFFFFF 0 pl SD_GRAN_4Kb]"

text \<open>\<open>defLDT\<close> and \<open>theGDT\<close> are the addresses of the two tables.\<close>

definition gdt_setup :: "u32 \<Rightarrow> u32 \<Rightarrow> segdescr list \<times> gdt_ptr" where
  "gdt_setup defLDT theGDT =
     (let gdt = replicate N_GDT \<lparr>int0 = 0, int1 = 0\<rparr>;
          gdt = gdt_entry_init gdt GDT_KERN_CS SD_TYPE_ER_CODE PL_KERN;
          gdt = gdt_entry_init gdt GDT_KERN_DS SD_TYPE_RW_DATA PL_KERN;
          gdt = gdt_entry_init gdt GDT_USER_CS SD_TYPE_ER_CODE PL_USER;
          gdt = gdt_entry_init gdt GDT_USER_DS SD_TYPE_RW_DATA PL_USER;
          gdt = gdt[GDT_DEF_LDT := segdescr_usual_init SD_TYPE_LDT (8 * 2) defLDT PL_USER SD_GRAN_4Kb]
      in (gdt, \<lparr>gdt_limit = of_nat N_GDT, gdt_base = theGDT\<rparr>))"

fun gdt_find_free :: "segdescr list \<Rightarrow> nat \<Rightarrow> nat option" where
  "gdt_find_free [] i = None"
| "gdt_find_free (seg # gdt) i = (if sd_ll seg = 0 then Some i else gdt_find_free gdt (Suc i))"

definition gdt_alloc_entry :: "segdescr list \<Rightarrow> segdescr \<Rightarrow> nat \<times> segdescr list" where
  "gdt_alloc_entry gdt entry =
     (case gdt_find_free (tl gdt) 1 of None \<Rightarrow> (0, gdt) | Some i \<Rightarrow> (i, gdt[i := entry]))"

section \<open>The interrupt descriptor table\<close>

definition IDT_SIZE :: nat where "IDT_SIZE = 0x100"
definition I8259A_BASE :: nat where "I8259A_BASE = 0x20"
definition SYS_INT :: nat where "SYS_INT = 0x80"

text \<open>The entry points, which are assembly labels.\<close>

record intr_entries =
  isr :: "nat \<Rightarrow> u32"
  irq_entry :: "nat \<Rightarrow> u32"
  isr14to1F :: u32
  dummyentry :: u32
  syscallentry :: u32

definition exception_types :: "gatetype list" where
  "exception_types =
     [GATE_TRAP, GATE_INTR, GATE_INTR, GATE_CALL, GATE_CALL, GATE_CALL, GATE_TRAP, GATE_TRAP, GATE_INTR, GATE_INTR,
      GATE_TRAP, GATE_TRAP, GATE_TRAP, GATE_TRAP, GATE_TRAP, GATE_TRAP, GATE_TRAP, GATE_TRAP, GATE_INTR, GATE_TRAP]"

definition idt_gate :: "gatetype \<Rightarrow> u32 \<Rightarrow> segdescr" where
  "idt_gate type addr =
     segdescr_gate_init SEL_KERN_CS addr (if type = GATE_CALL then PL_USER else PL_KERN) (type = GATE_TRAP)"

definition idt_set_gate :: "nat \<Rightarrow> gatetype \<Rightarrow> u32 \<Rightarrow> segdescr list \<Rightarrow> segdescr list" where
  "idt_set_gate i type addr idt = idt[i := idt_gate type addr]"

definition idt_set_gates :: "nat \<Rightarrow> nat \<Rightarrow> gatetype \<Rightarrow> u32 \<Rightarrow> segdescr list \<Rightarrow> segdescr list" where
  "idt_set_gates a b type addr idt = fold (\<lambda>i. idt_set_gate i type addr) [a..<b] idt"

definition idt_setup :: "intr_entries \<Rightarrow> segdescr list \<Rightarrow> segdescr list" where
  "idt_setup en idt =
     (let idt = fold (\<lambda>i. idt_set_gate i (exception_types ! i) (isr en i)) [0..<0x14] idt;
          idt = idt_set_gates 0x14 0x20 GATE_INTR (isr14to1F en) idt;
          idt = idt_set_gates 0x20 0x100 GATE_CALL (dummyentry en) idt;
          idt = fold (\<lambda>i. idt_set_gate (i + I8259A_BASE) GATE_INTR (irq_entry en i)) [0..<16] idt
      in idt_set_gate SYS_INT GATE_CALL (syscallentry en) idt)"

definition idt_deploy :: "u32 \<Rightarrow> gdt_ptr" where
  "idt_deploy theIDT = \<lparr>gdt_limit = of_nat (IDT_SIZE * 8 - 1), gdt_base = theIDT\<rparr>"

definition gate_offset :: "segdescr \<Rightarrow> u32" where
  "gate_offset seg = (int1 seg AND 0xFFFF0000) OR (int0 seg AND 0xFFFF)"

definition gate_selector :: "segdescr \<Rightarrow> u16" where
  "gate_selector seg = ucast (drop_bit 16 (int0 seg))"

section \<open>Fields\<close>

lemmas seg_fields = limit_l_def base_l_def base_m_def sd_type_def sysbit_def sd_dpl_def mem_present_def limit_h_def
  granularity_def base_h_def

lemma small_bit:
  assumes "unat (x :: u32) < 2 ^ k" "k \<le> n"
  shows "\<not> bit x n"
proof -
  have "(2 :: nat) ^ k \<le> 2 ^ n" using assms(2) by simp
  with assms(1) have "unat x < 2 ^ n" by (rule less_le_trans)
  then have "\<not> bit (unat x) n" by (simp add: bit_iff_odd)
  then show ?thesis by (simp add: bit_unsigned_iff)
qed

definition one_bit :: "nat \<Rightarrow> u32" where "one_bit n = push_bit n 1"

lemma bit_one_bit: "bit (one_bit k) n \<longleftrightarrow> n = k \<and> n < 32"
  by (auto simp: one_bit_def bit_simps bit_1_iff)

lemma seg_masks:
  "(0xFFFF :: u32) = mask 16" "(0xFF :: u32) = mask 8" "(0xF :: u32) = mask 4" "(0xFF00 :: u32) = push_bit 8 (mask 8)"
  "(0x9000 :: u32) = one_bit 12 OR one_bit 15" "(0x40 :: u32) = one_bit 6" "(3 :: u32) = mask 2" "(0xFFFFF :: u32) = mask 20"
  "(0x67 :: u32) = mask 3 OR one_bit 5 OR one_bit 6" "(0x8900 :: u32) = one_bit 8 OR one_bit 11 OR one_bit 15"
  "(0xFF000000 :: u32) = push_bit 24 (mask 8)"
  by (simp_all add: mask_eq_exp_minus_1 one_bit_def)

text \<open>What a descriptor is made of is read back from it.\<close>

lemma segdescr_usual:
  assumes "type < 16" "dpl < 4" "gran < 2"
  shows "segdescr_base (segdescr_usual_init type limit base dpl gran) = base"
    "segdescr_limit (segdescr_usual_init type limit base dpl gran) = limit AND 0xFFFFF"
    "sd_dpl (segdescr_usual_init type limit base dpl gran) = dpl"
    "sd_type (segdescr_usual_init type limit base dpl gran) = type"
proof -
  have "unat type < 2 ^ 4" "unat dpl < 2 ^ 2" "unat gran < 2 ^ 1" using assms by (simp_all add: word_less_nat_alt)
  note sm = this [THEN small_bit]
  note defs = segdescr_base_def segdescr_limit_def segdescr_usual_init_def seg_fields seg_masks
  show "segdescr_base (segdescr_usual_init type limit base dpl gran) = base"
  proof (rule bit_word_eqI)
    fix n :: nat assume n: "n < LENGTH(32)"
    consider "n < 16" | "16 \<le> n" "n < 24" | "24 \<le> n" by linarith
    then show "bit (segdescr_base (segdescr_usual_init type limit base dpl gran)) n = bit base n"
      unfolding defs using n by cases (simp_all add: bit_simps bit_one_bit sm less_diff_conv2 le_imp_diff_is_add)
  qed
  show "segdescr_limit (segdescr_usual_init type limit base dpl gran) = limit AND 0xFFFFF"
  proof (rule bit_word_eqI)
    fix n :: nat assume n: "n < LENGTH(32)"
    consider "n < 16" | "16 \<le> n" "n < 20" | "20 \<le> n" by linarith
    then show "bit (segdescr_limit (segdescr_usual_init type limit base dpl gran)) n = bit (limit AND 0xFFFFF) n"
      unfolding defs using n by cases (simp_all add: bit_simps bit_one_bit sm less_diff_conv2 le_imp_diff_is_add)
  qed
  show "sd_dpl (segdescr_usual_init type limit base dpl gran) = dpl"
  proof (rule bit_word_eqI)
    fix n :: nat assume n: "n < LENGTH(32)"
    consider "n < 2" | "2 \<le> n" by linarith
    then show "bit (sd_dpl (segdescr_usual_init type limit base dpl gran)) n = bit dpl n"
      unfolding defs using n by cases (simp_all add: bit_simps bit_one_bit sm less_diff_conv2 le_imp_diff_is_add)
  qed
  show "sd_type (segdescr_usual_init type limit base dpl gran) = type"
  proof (rule bit_word_eqI)
    fix n :: nat assume n: "n < LENGTH(32)"
    consider "n < 4" | "4 \<le> n" by linarith
    then show "bit (sd_type (segdescr_usual_init type limit base dpl gran)) n = bit type n"
      unfolding defs using n by cases (simp_all add: bit_simps bit_one_bit sm less_diff_conv2 le_imp_diff_is_add)
  qed
qed

lemma segdescr_tss_base: "segdescr_base (segdescr_taskstate_init addr dpl) = addr"
proof (rule bit_word_eqI)
  fix n :: nat assume n: "n < LENGTH(32)"
  consider "n < 16" | "16 \<le> n" "n < 24" | "24 \<le> n" by linarith
  then show "bit (segdescr_base (segdescr_taskstate_init addr dpl)) n = bit addr n"
    unfolding segdescr_base_def segdescr_taskstate_init_def seg_fields seg_masks using n
    by cases (simp_all add: bit_simps bit_one_bit less_diff_conv2 le_imp_diff_is_add)
qed

lemma and_all_ones: "x AND 4294967295 = (x :: u32)"
proof -
  have "(4294967295 :: u32) = mask LENGTH(32)" by (simp add: mask_eq_exp_minus_1)
  then show ?thesis by (simp only: take_bit_eq_mask [symmetric] take_bit_length_eq)
qed

lemma idt_gate_fields:
  "gate_offset (idt_gate type addr) = addr" "gate_selector (idt_gate type addr) = SEL_KERN_CS"
  "mem_present (idt_gate type addr) = 1" "sysbit (idt_gate type addr) = 0"
  "sd_dpl (idt_gate type addr) = (if type = GATE_CALL then PL_USER else PL_KERN)"
  "sd_type (idt_gate type addr) = (if type = GATE_TRAP then 0xF else 0xE)"
proof -
  note defs = idt_gate_def segdescr_gate_init_def gate_offset_def gate_selector_def mem_present_def sysbit_def sd_dpl_def sd_type_def
    PL_USER_def PL_KERN_def selectors
  show "gate_offset (idt_gate type addr) = addr"
    by (cases type) (simp_all add: defs bit.conj_disj_distrib2 and.assoc and_all_ones flip: bit.conj_disj_distrib)
  show "gate_selector (idt_gate type addr) = SEL_KERN_CS" "mem_present (idt_gate type addr) = 1" "sysbit (idt_gate type addr) = 0"
    "sd_dpl (idt_gate type addr) = (if type = GATE_CALL then PL_USER else PL_KERN)"
    "sd_type (idt_gate type addr) = (if type = GATE_TRAP then 0xF else 0xE)"
    by (cases type; simp add: defs drop_bit_or drop_bit_and bit.conj_disj_distrib2 and.assoc)+
qed

lemma fold_update:
  "length (fold (\<lambda>i xs. xs[i + k := g i]) [a..<b] xs) = length xs"
  "n < length xs \<Longrightarrow> fold (\<lambda>i xs. xs[i + k := g i]) [a..<b] xs ! n = (if a + k \<le> n \<and> n < b + k then g (n - k) else xs ! n)"
proof (induction b)
  case (Suc b)
  { case 1 then show ?case using Suc(1) by simp }
  { case 2 then show ?case using Suc by (cases "n = b + k") (auto simp: nth_list_update) }
qed auto

text \<open>The entry point of every interrupt vector.\<close>

definition vector_entry :: "intr_entries \<Rightarrow> nat \<Rightarrow> u32" where
  "vector_entry en n =
     (if n < 0x14 then isr en n else if n < 0x20 then isr14to1F en else if n < 0x30 then irq_entry en (n - 0x20)
      else if n = 0x80 then syscallentry en else dummyentry en)"

definition vector_gate :: "nat \<Rightarrow> gatetype" where
  "vector_gate n = (if n < 0x14 then exception_types ! n else if n < 0x30 then GATE_INTR else GATE_CALL)"

lemma idt_setup_gates:
  assumes "length idt = IDT_SIZE" "n < IDT_SIZE"
  shows "idt_setup en idt ! n = idt_gate (vector_gate n) (vector_entry en n)"
proof -
  have l: "length idt = 256" "n < 256" using assms by (simp_all add: IDT_SIZE_def)
  note f0 = fold_update [where k = 0, simplified]
  show ?thesis
    unfolding idt_setup_def idt_set_gate_def idt_set_gates_def I8259A_BASE_def SYS_INT_def Let_def
    using l by (auto simp: nth_list_update f0 fold_update vector_entry_def vector_gate_def simp del: upt_rec_numeral)
qed

section \<open>Properties\<close>



end
