(* ===== verification/Tasks.thy ===== *)
theory Tasks
  imports I386 "HOL-Library.Monad_Syntax"
begin

text \<open>
  Tasks and the scheduler of \<^verbatim>\<open>src/core/tasks.c\<close>.  Tasks are records in a map from addresses, kernel stacks are a
  memory of 32-bit words by byte address.  The assembly of \<^verbatim>\<open>src/arch/intr.S\<close> leaves the address of the saved
  registers in \<^verbatim>\<open>context_esp\<close> and restores them from \<^verbatim>\<open>switch_to_esp\<close> when it is set.  Operations give \<open>None\<close> when
  the kernel panics or the walk over the ring of tasks does not end.
\<close>

section \<open>State\<close>

datatype taskstate = TS_READY | TS_BLOCKED | TS_STOPPED | TS_EXITED

text \<open>The fields of a task state segment that the kernel uses; \<open>task_init\<close> clears the others.\<close>

record tss =
  tss_esp0 :: u32
  tss_ss0 :: u32
  tss_cr3 :: u32
  tss_eip :: u32
  tss_eflags :: u32
  tss_eax :: u32
  tss_esp :: u32
  tss_es :: u32
  tss_cs :: u32
  tss_ss :: u32
  tss_ds :: u32
  tss_fs :: u32
  tss_gs :: u32
  tss_ldt :: u32
  tss_io_map_addr :: u32
  tss_io_map1 :: u32
  tss_io_map2 :: u32

record task =
  tk_tss :: tss
  tss_index :: nat
  tk_state :: taskstate
  tk_next :: u32
  kstack :: u32
  kstack_size :: u32
  tk_entry :: u32

definition zero_tss :: tss where
  "zero_tss =
     \<lparr>tss_esp0 = 0, tss_ss0 = 0, tss_cr3 = 0, tss_eip = 0, tss_eflags = 0, tss_eax = 0, tss_esp = 0, tss_es = 0, tss_cs = 0, tss_ss = 0,
      tss_ds = 0, tss_fs = 0, tss_gs = 0, tss_ldt = 0, tss_io_map_addr = 0, tss_io_map1 = 0, tss_io_map2 = 0\<rparr>"

record sched =
  tasks :: "u32 \<Rightarrow> task"
  theCurrentTask :: u32
  task_next :: "((u32 \<Rightarrow> task) \<Rightarrow> u32 \<Rightarrow> u32 \<Rightarrow> u32 option) option"
  stk :: "u32 \<Rightarrow> u32"
  theGDT :: "segdescr list"
  task_reg :: u16
  cr3_reg :: u32
  context_esp :: u32
  switch_to_esp :: u32

definition upd_task :: "u32 \<Rightarrow> (task \<Rightarrow> task) \<Rightarrow> sched \<Rightarrow> sched" where
  "upd_task t f s = s\<lparr>tasks := (tasks s)(t := f (tasks s t))\<rparr>"

definition EFL_RSRVD :: u32 where "EFL_RSRVD = push_bit 1 1"
definition EFL_IF :: u32 where "EFL_IF = push_bit 9 1"
definition CONTEXT_SIZE :: u32 where "CONTEXT_SIZE = 0x30"

abbreviation kern_cs :: u32 where "kern_cs \<equiv> ucast SEL_KERN_CS"

definition task_sysinfo_size :: "task \<Rightarrow> u32" where
  "task_sysinfo_size t = (if tss_cs (tk_tss t) = kern_cs then 3 else 5)"

section \<open>Switching\<close>

definition task_save_context :: "u32 \<Rightarrow> sched \<Rightarrow> sched option" where
  "task_save_context t s =
     (if t = 0 then Some s
      else let context = context_esp s in
           if context = 0 then None
           else Some (upd_task t (tk_tss_update (tss_esp0_update (\<lambda>_. context + CONTEXT_SIZE + task_sysinfo_size (tasks s t) * 4))) s))"

definition task_push_context :: "u32 \<Rightarrow> sched \<Rightarrow> sched" where
  "task_push_context t s =
     (let esp0 = tss_esp0 (tk_tss (tasks s t));
          iret_stack = esp0 - task_sysinfo_size (tasks s t) * 4;
          s = s\<lparr>stk := (stk s)(iret_stack + 8 := stk s (iret_stack + 8) OR EFL_IF)\<rparr>
      in s\<lparr>switch_to_esp := iret_stack - CONTEXT_SIZE\<rparr>)"

definition task_cpu_load :: "u32 \<Rightarrow> sched \<Rightarrow> sched" where
  "task_cpu_load t s =
     (let i = tss_index (tasks s t);
          gdt = (theGDT s)[i := segdescr_taskstate_busy (theGDT s ! i) False];
          pl = (if tss_cs (tk_tss (tasks s t)) = kern_cs then PL_KERN else PL_USER)
      in s\<lparr>theGDT := gdt, task_reg := make_segment_selector (of_nat i) 0 pl, cr3_reg := tss_cr3 (tk_tss (tasks s t))\<rparr>)"

definition task_timer_handler :: "u32 \<Rightarrow> sched \<Rightarrow> sched option" where
  "task_timer_handler tick s =
     (case task_next s of
        None \<Rightarrow> Some s
      | Some f \<Rightarrow>
          do { nxt \<leftarrow> f (tasks s) (theCurrentTask s) tick;
               if nxt = 0 then Some s
               else do { s \<leftarrow> task_save_context (theCurrentTask s) s;
                         let s = task_push_context nxt (task_cpu_load nxt s);
                         Some (s\<lparr>theCurrentTask := nxt\<rparr>) } })"

definition task_set_scheduler :: "((u32 \<Rightarrow> task) \<Rightarrow> u32 \<Rightarrow> u32 \<Rightarrow> u32 option) option \<Rightarrow> sched \<Rightarrow> sched" where
  "task_set_scheduler f s = s\<lparr>task_next := f\<rparr>"

section \<open>Tasks\<close>

text \<open>The segment of a task starts at its address, so \<open>task\<close> is also the address of its state segment.\<close>

definition init_tss :: "u32 \<Rightarrow> u32 \<Rightarrow> u32 \<Rightarrow> u16 \<Rightarrow> u16 \<Rightarrow> tss" where
  "init_tss entry esp0 esp3 cs ds =
     zero_tss\<lparr>tss_esp0 := esp0, tss_ss0 := ucast SEL_KERN_DS, tss_eip := entry, tss_eflags := EFL_RSRVD OR EFL_IF,
       tss_esp := esp3, tss_es := ucast ds, tss_cs := ucast cs, tss_ss := ucast ds, tss_ds := ucast ds, tss_fs := ucast ds,
       tss_gs := ucast ds, tss_ldt := ucast SEL_DEF_LDT, tss_io_map_addr := 0x64, tss_io_map1 := 0xffffffff,
       tss_io_map2 := 0xffffffff\<rparr>"

definition task_init :: "u32 \<Rightarrow> u32 \<Rightarrow> u32 \<Rightarrow> u32 \<Rightarrow> u16 \<Rightarrow> u16 \<Rightarrow> sched \<Rightarrow> sched" where
  "task_init task entry esp0 esp3 cs ds s =
     (let tss = init_tss entry esp0 esp3 cs ds;
          s = upd_task task (tk_tss_update (\<lambda>_. tss)) s;
          stack = esp0 - task_sysinfo_size (tasks s task) * 4;
          m = (stk s)(stack := tss_eip tss, stack + 4 := tss_cs tss, stack + 8 := tss_eflags tss);
          m = (if tss_cs tss \<noteq> kern_cs then m(stack + 12 := tss_esp tss, stack + 16 := tss_ss tss) else m);
          context = stack - CONTEXT_SIZE;
          m = m(context := tss_gs tss, context + 4 := tss_fs tss, context + 8 := tss_es tss, context + 12 := tss_ds tss);
          (i, gdt) = gdt_alloc_entry (theGDT s) (segdescr_taskstate_init task PL_KERN);
          s = upd_task task (tss_index_update (\<lambda>_. i)) (s\<lparr>stk := m, theGDT := gdt\<rparr>)
      in if i = 0 then s else upd_task task (tk_state_update (\<lambda>_. TS_READY)) s)"

definition task_kthread_init :: "u32 \<Rightarrow> u32 \<Rightarrow> u32 \<Rightarrow> sched \<Rightarrow> sched" where
  "task_kthread_init ktask entry k_esp = task_init ktask entry k_esp k_esp SEL_KERN_CS SEL_KERN_DS"

section \<open>Scheduling\<close>

partial_function (option) sched_loop :: "(u32 \<Rightarrow> task) \<Rightarrow> u32 \<Rightarrow> u32 \<Rightarrow> u32 option" where
  "sched_loop ts current c =
     (if c = 0 \<or> c = current then Some 0
      else if tk_state (ts c) = TS_READY then Some c
      else sched_loop ts current (tk_next (ts c)))"

definition the_scheduler :: "(u32 \<Rightarrow> task) \<Rightarrow> u32 \<Rightarrow> u32 \<Rightarrow> u32 option" where
  "the_scheduler ts current tick = sched_loop ts current (tk_next (ts current))"

definition sched_add_task :: "u32 \<Rightarrow> sched \<Rightarrow> sched" where
  "sched_add_task task s =
     (let current = theCurrentTask s;
          was_next = tk_next (tasks s current)
      in upd_task current (tk_next_update (\<lambda>_. task)) (upd_task task (tk_next_update (\<lambda>_. was_next)) s))"

definition task_yield :: "sched \<Rightarrow> sched option" where
  "task_yield s = task_timer_handler 0 s"

text \<open>The state \<^verbatim>\<open>tasks_setup\<close> leaves when it enters the default task; registering the timer is the timer's.\<close>

definition tasks_setup :: "u32 \<Rightarrow> sched \<Rightarrow> sched" where
  "tasks_setup t s =
     (let s = (if tss_eip (tk_tss (tasks s t)) = 0
               then upd_task t (\<lambda>k. k\<lparr>tk_tss := (tk_tss k)\<lparr>tss_eip := tk_entry k\<rparr>\<rparr>) s else s);
          s = upd_task t (tk_next_update (\<lambda>_. t)) s;
          s = task_set_scheduler (Some the_scheduler) (s\<lparr>theCurrentTask := t\<rparr>)
      in task_cpu_load t s)"

section \<open>The ring of tasks\<close>

fun linked_to :: "(u32 \<Rightarrow> task) \<Rightarrow> u32 \<Rightarrow> u32 list \<Rightarrow> u32 \<Rightarrow> bool" where
  "linked_to ts c [] e \<longleftrightarrow> tk_next (ts c) = e"
| "linked_to ts c (q # qs) e \<longleftrightarrow> tk_next (ts c) = q \<and> linked_to ts q qs e"

text \<open>The tasks after \<open>c\<close> are \<open>qs\<close>, and then \<open>c\<close> again.\<close>

definition task_ring :: "(u32 \<Rightarrow> task) \<Rightarrow> u32 \<Rightarrow> u32 list \<Rightarrow> bool" where
  "task_ring ts c qs \<longleftrightarrow> distinct (c # qs) \<and> 0 \<notin> set (c # qs) \<and> linked_to ts c qs c"

lemma linked_to_append: "linked_to ts c (xs @ q # ys) e \<longleftrightarrow> linked_to ts c xs q \<and> linked_to ts q ys e"
  by (induction xs arbitrary: c) auto

lemma task_ring_rotate: "task_ring ts c (xs @ q # ys) \<Longrightarrow> task_ring ts q (ys @ c # xs)"
  by (auto simp: task_ring_def linked_to_append)

lemma linked_to_cong: "(\<And>p. tk_next (ts p) = tk_next (ts' p)) \<Longrightarrow> linked_to ts c qs e = linked_to ts' c qs e"
  by (induction qs arbitrary: c) auto

lemma task_ring_cong: "(\<And>p. tk_next (ts p) = tk_next (ts' p)) \<Longrightarrow> task_ring ts c qs = task_ring ts' c qs"
  unfolding task_ring_def using linked_to_cong [of ts ts'] by blast

text \<open>The scheduler picks the first ready task after the current one.\<close>

definition first_ready :: "(u32 \<Rightarrow> task) \<Rightarrow> u32 list \<Rightarrow> u32" where
  "first_ready ts qs = (case find (\<lambda>q. tk_state (ts q) = TS_READY) qs of None \<Rightarrow> 0 | Some q \<Rightarrow> q)"

lemma sched_loop_first:
  "linked_to ts p qs c \<Longrightarrow> c \<notin> set qs \<Longrightarrow> 0 \<notin> set qs \<Longrightarrow> sched_loop ts c (tk_next (ts p)) = Some (first_ready ts qs)"
proof (induction qs arbitrary: p)
  case Nil
  then show ?case by (simp add: sched_loop.simps first_ready_def)
next
  case (Cons q qs)
  then show ?case by (subst sched_loop.simps) (auto simp: first_ready_def)
qed

lemma scheduler_first: "task_ring ts c qs \<Longrightarrow> the_scheduler ts c tick = Some (first_ready ts qs)"
  unfolding the_scheduler_def task_ring_def by (rule sched_loop_first) auto

section \<open>Timer ticks\<close>

text \<open>A tick interrupts the current task with its registers saved at \<open>ctx\<close>.\<close>

definition timer_tick :: "u32 \<times> u32 \<Rightarrow> sched \<Rightarrow> sched option" where
  "timer_tick e s = task_timer_handler (fst e) (s\<lparr>context_esp := snd e, switch_to_esp := 0\<rparr>)"

fun run_ticks :: "(u32 \<times> u32) list \<Rightarrow> sched \<Rightarrow> sched option" where
  "run_ticks [] s = Some s"
| "run_ticks (e # es) s = do { s \<leftarrow> timer_tick e s; run_ticks es s }"

text \<open>What a tick does: the tasks keep everything but the saved stack of the interrupted one.\<close>

definition ticked :: "sched \<Rightarrow> u32 \<Rightarrow> u32 \<Rightarrow> sched \<Rightarrow> bool" where
  "ticked s ctx q s' \<longleftrightarrow>
     theCurrentTask s' = q \<and> task_next s' = task_next s \<and>
     tasks s' = (tasks s)(theCurrentTask s := (tasks s (theCurrentTask s))\<lparr>tk_tss := (tk_tss (tasks s (theCurrentTask s)))
       \<lparr>tss_esp0 := ctx + CONTEXT_SIZE + task_sysinfo_size (tasks s (theCurrentTask s)) * 4\<rparr>\<rparr>) \<and>
     switch_to_esp s' = tss_esp0 (tk_tss (tasks s' q)) - task_sysinfo_size (tasks s' q) * 4 - CONTEXT_SIZE \<and>
     task_reg s' = make_segment_selector (of_nat (tss_index (tasks s' q))) 0
       (if tss_cs (tk_tss (tasks s' q)) = kern_cs then PL_KERN else PL_USER) \<and>
     cr3_reg s' = tss_cr3 (tk_tss (tasks s' q))"

lemma tick_switches:
  assumes r: "task_ring (tasks s) (theCurrentTask s) qs" and f: "task_next s = Some the_scheduler"
    and q: "first_ready (tasks s) qs = q" "q \<noteq> 0" and c: "ctx \<noteq> 0"
  shows "\<exists>s'. timer_tick (tick, ctx) s = Some s' \<and> ticked s ctx q s'"
proof -
  have "theCurrentTask s \<noteq> 0" using r by (auto simp: task_ring_def)
  then show ?thesis
    using f q c scheduler_first [OF r]
    by (auto simp: timer_tick_def task_timer_handler_def task_save_context_def task_push_context_def task_cpu_load_def
        ticked_def upd_task_def Let_def)
qed

lemma ticked_fields:
  assumes "ticked s ctx q s'"
  shows "tk_next (tasks s' p) = tk_next (tasks s p)" "tk_state (tasks s' p) = tk_state (tasks s p)"
    "tss_cs (tk_tss (tasks s' p)) = tss_cs (tk_tss (tasks s p))" "theCurrentTask s' = q" "task_next s' = task_next s"
    "p \<noteq> theCurrentTask s \<Longrightarrow> tasks s' p = tasks s p"
  using assms by (auto simp: ticked_def)

lemma first_ready_split:
  assumes "tk_state (ts t) = TS_READY"
  obtains "first_ready ts (xs @ t # ys) = t"
  | xs1 q xs2 where "xs = xs1 @ q # xs2" "first_ready ts (xs @ t # ys) = q"
proof (cases "find (\<lambda>q. tk_state (ts q) = TS_READY) xs")
  case None
  then have "first_ready ts (xs @ t # ys) = t" using assms by (induction xs) (auto simp: first_ready_def split: if_splits)
  then show ?thesis by (rule that(1))
next
  case (Some q)
  then have "q \<in> set xs" by (auto simp: find_Some_iff)
  then obtain xs1 xs2 where "xs = xs1 @ q # xs2" by (auto simp: in_set_conv_decomp)
  moreover have "first_ready ts (xs @ t # ys) = q" using Some by (induction xs) (auto simp: first_ready_def split: if_splits)
  ultimately show ?thesis by (rule that(2))
qed

lemma ready_task_runs:
  assumes "task_ring (tasks s) (theCurrentTask s) (xs @ t # ys)" "task_next s = Some the_scheduler"
    "tk_state (tasks s t) = TS_READY" "length xs < length es" "\<forall>e\<in>set es. snd e \<noteq> 0"
  shows "\<exists>k s'. 0 < k \<and> k \<le> Suc (length xs) \<and> run_ticks (take k es) s = Some s' \<and> theCurrentTask s' = t"
  using assms
proof (induction "length xs" arbitrary: s xs ys es rule: less_induct)
  case less
  obtain tick ctx es' where es: "es = (tick, ctx) # es'" using less.prems(4) by (cases es) auto
  have nz: "t \<noteq> 0" "\<And>q. q \<in> set xs \<Longrightarrow> q \<noteq> 0" "ctx \<noteq> 0"
    using less.prems(1,5) es by (auto simp: task_ring_def)
  from less.prems(3) show ?case
  proof (cases rule: first_ready_split [of "tasks s" t xs ys])
    case 1
    then obtain s' where "timer_tick (tick, ctx) s = Some s'" "ticked s ctx t s'"
      using tick_switches [OF less.prems(1,2) 1 nz(1,3)] by blast
    then show ?thesis by (intro exI [of _ 1] exI [of _ s']) (simp add: es ticked_def)
  next
    case (2 xs1 q xs2)
    then have "q \<noteq> 0" using nz(2) by simp
    then obtain s1 where s1: "timer_tick (tick, ctx) s = Some s1" "ticked s ctx q s1"
      using tick_switches [OF less.prems(1,2) 2(2) _ nz(3)] by blast
    note f = ticked_fields [OF s1(2)]
    have "task_ring (tasks s) q (xs2 @ t # (ys @ theCurrentTask s # xs1))"
      using task_ring_rotate [of "tasks s" "theCurrentTask s" xs1 q "xs2 @ t # ys"] less.prems(1) 2(1) by simp
    then have r: "task_ring (tasks s1) (theCurrentTask s1) (xs2 @ t # (ys @ theCurrentTask s # xs1))"
      using task_ring_cong [of "tasks s" "tasks s1"] f(1,4) by simp
    obtain k s' where "0 < k" "k \<le> Suc (length xs2)" "run_ticks (take k es') s1 = Some s'" "theCurrentTask s' = t"
      using less.hyps [OF _ r, of es'] less.prems f 2(1) es by auto
    then show ?thesis using s1(1) 2(1) by (intro exI [of _ "Suc k"] exI [of _ s']) (simp add: es)
  qed
qed

lemma tick_frame:
  assumes "timer_tick e s = Some s'" "p \<noteq> theCurrentTask s"
  shows "tasks s' p = tasks s p"
  using assms by (auto simp: timer_tick_def task_timer_handler_def task_save_context_def task_push_context_def task_cpu_load_def
      upd_task_def Let_def split: option.splits bind_split_asm if_splits)

lemma run_ticks_append: "run_ticks (es @ es') s = do { s \<leftarrow> run_ticks es s; run_ticks es' s }"
  by (induction es arbitrary: s) (auto split: bind_split)

lemma tick_loads:
  assumes "timer_tick e s = Some s'" "theCurrentTask s' \<noteq> theCurrentTask s"
  shows "switch_to_esp s' = tss_esp0 (tk_tss (tasks s (theCurrentTask s'))) - task_sysinfo_size (tasks s (theCurrentTask s')) * 4 - CONTEXT_SIZE"
    "theCurrentTask s \<noteq> 0 \<Longrightarrow> tk_tss (tasks s' (theCurrentTask s)) = (tk_tss (tasks s (theCurrentTask s)))
       \<lparr>tss_esp0 := snd e + CONTEXT_SIZE + task_sysinfo_size (tasks s (theCurrentTask s)) * 4\<rparr>"
    "task_sysinfo_size (tasks s' p) = task_sysinfo_size (tasks s p)"
  using assms by (auto simp: timer_tick_def task_timer_handler_def task_save_context_def task_push_context_def task_cpu_load_def
      upd_task_def task_sysinfo_size_def Let_def split: option.splits bind_split_asm if_splits)

lemma frame_while_out:
  assumes "run_ticks es s = Some s'" "\<And>k u. k < length es \<Longrightarrow> run_ticks (take k es) s = Some u \<Longrightarrow> theCurrentTask u \<noteq> p"
  shows "tasks s' p = tasks s p"
  using assms
proof (induction es arbitrary: s)
  case (Cons e es)
  from Cons.prems(1) obtain s1 where s1: "timer_tick e s = Some s1" "run_ticks es s1 = Some s'" by (auto split: bind_split_asm)
  have "theCurrentTask s \<noteq> p" using Cons.prems(2) [of 0 s] by simp
  then have "tasks s1 p = tasks s p" using tick_frame [OF s1(1), of p] by simp
  moreover have "tasks s' p = tasks s1 p"
  proof (rule Cons.IH [OF s1(2)])
    fix k u assume "k < length es" "run_ticks (take k es) s1 = Some u"
    then show "theCurrentTask u \<noteq> p" using Cons.prems(2) [of "Suc k" u] s1(1) by simp
  qed
  ultimately show ?case by simp
qed simp

lemma find_free_index: "gdt_find_free gdt k = Some i \<Longrightarrow> k \<le> i \<and> i < k + length gdt \<and> sd_ll (gdt ! (i - k)) = 0"
proof (induction gdt arbitrary: k)
  case (Cons seg gdt)
  show ?case
  proof (cases "sd_ll seg = 0")
    case False
    then have "Suc k \<le> i \<and> i < Suc k + length gdt \<and> sd_ll (gdt ! (i - Suc k)) = 0" using Cons.prems by (intro Cons.IH) simp
    moreover from this have "i - k = Suc (i - Suc k)" by linarith
    ultimately show ?thesis by simp
  qed (use Cons.prems in simp)
qed simp

lemma gdt_alloc_entry_index:
  assumes "gdt_alloc_entry gdt seg = (i, gdt')" "i \<noteq> 0"
  shows "i < length gdt" "sd_ll (gdt ! i) = 0" "gdt' = gdt[i := seg]"
  using assms find_free_index [of "tl gdt" 1 i]
  by (cases gdt; auto simp: gdt_alloc_entry_def nth_Cons' split: option.splits)+

lemma ucast_ucast_u16: "ucast (ucast (x :: u16) :: u32) = x"
  by (rule bit_word_eqI) (simp add: bit_simps)

section \<open>Properties\<close>

text \<open>C6. Fairness: a ready task of the ring becomes the current one after at most as many timer ticks as there are
  tasks between the current one and it, and one more, whatever the states of the others.\<close>

theorem scheduler_fair:
  assumes "task_ring (tasks s) (theCurrentTask s) (xs @ t # ys)" "task_next s = Some the_scheduler"
    and "tk_state (tasks s t) = TS_READY" "length xs < length es" "\<forall>e\<in>set es. snd e \<noteq> 0"
  shows "\<exists>k s'. 0 < k \<and> k \<le> Suc (length xs) \<and> run_ticks (take k es) s = Some s' \<and> theCurrentTask s' = t"
  using ready_task_runs [OF assms] .

definition ex_task :: "taskstate \<Rightarrow> u32 \<Rightarrow> task" where
  "ex_task st nxt = \<lparr>tk_tss = zero_tss\<lparr>tss_cs := kern_cs\<rparr>, tss_index = 6, tk_state = st, tk_next = nxt, kstack = 0, kstack_size = 0,
     tk_entry = 0\<rparr>"

definition ex_sched :: sched where
  "ex_sched = \<lparr>tasks = (\<lambda>p. if p = 0x1000 then ex_task TS_READY 0x2000 else if p = 0x2000 then ex_task TS_BLOCKED 0x3000
       else ex_task TS_READY 0x1000), theCurrentTask = 0x1000, task_next = Some the_scheduler, stk = (\<lambda>_. 0),
     theGDT = replicate 10 \<lparr>int0 = 0, int1 = 0\<rparr>, task_reg = 0, cr3_reg = 0, context_esp = 0, switch_to_esp = 0\<rparr>"

lemma ex_ring: "task_ring (tasks ex_sched) (theCurrentTask ex_sched) [0x2000, 0x3000]"
  by (simp add: task_ring_def ex_sched_def ex_task_def)

lemma ex_sched_fields:
  "task_next ex_sched = Some the_scheduler" "tk_state (tasks ex_sched 0x3000) = TS_READY" "tk_state (tasks ex_sched 0x2000) = TS_BLOCKED"
  "tk_state (tasks ex_sched 0x1000) = TS_READY" "theCurrentTask ex_sched = 0x1000"
  by (simp_all add: ex_sched_def ex_task_def)

theorem scheduler_fair_witness:
  "\<exists>k s'. 0 < k \<and> k \<le> Suc 1 \<and> run_ticks (take k [(1, 0x8000), (2, 0x9000)]) ex_sched = Some s' \<and> theCurrentTask s' = 0x3000"
  using scheduler_fair [of ex_sched "[0x2000]" "0x3000" "[]" "[(1, 0x8000), (2, 0x9000)]"] ex_ring
  by (simp add: ex_sched_fields)

text \<open>C13. A task that lost the processor is resumed from the very register frame at which it was interrupted, whatever
  ran in between, and nothing of its state segment but the saved stack pointer changed.\<close>

theorem context_switch_round_trip:
  assumes "theCurrentTask s = c" "c \<noteq> 0" "timer_tick (tick, ctx) s = Some s1" "theCurrentTask s1 \<noteq> c"
    and "run_ticks es s1 = Some s2" "theCurrentTask s2 = c"
    and "\<forall>k u. k < length es \<longrightarrow> run_ticks (take k es) s1 = Some u \<longrightarrow> theCurrentTask u \<noteq> c"
  shows "switch_to_esp s2 = ctx \<and> (\<exists>esp0. tk_tss (tasks s2 c) = (tk_tss (tasks s c))\<lparr>tss_esp0 := esp0\<rparr>)"
proof -
  have "es \<noteq> []" using assms(4-6) by auto
  then obtain es0 e where es: "es = es0 @ [e]" by (cases es rule: rev_cases) auto
  obtain u where u: "run_ticks es0 s1 = Some u" "timer_tick e u = Some s2"
    using assms(5) by (auto simp: es run_ticks_append split: bind_split_asm)
  have out: "theCurrentTask u \<noteq> c" using assms(7) u(1) es by (metis append_eq_conv_conj length_append_singleton lessI)
  have "tasks u c = tasks s1 c"
  proof (rule frame_while_out [OF u(1)])
    fix k v assume "k < length es0" "run_ticks (take k es0) s1 = Some v"
    then have "k < length es" "run_ticks (take k es) s1 = Some v" by (simp_all add: es)
    then show "theCurrentTask v \<noteq> c" using assms(7) by blast
  qed
  moreover have "switch_to_esp s2 = tss_esp0 (tk_tss (tasks u c)) - task_sysinfo_size (tasks u c) * 4 - CONTEXT_SIZE"
    using tick_loads(1) [OF u(2)] out assms(6) by simp
  moreover have "tasks s2 c = tasks u c" using tick_frame [OF u(2), of c] out by simp
  moreover have "tk_tss (tasks s1 c) = (tk_tss (tasks s c))\<lparr>tss_esp0 := ctx + CONTEXT_SIZE + task_sysinfo_size (tasks s c) * 4\<rparr>"
      "task_sysinfo_size (tasks s1 c) = task_sysinfo_size (tasks s c)"
    using tick_loads(2,3) [OF assms(3)] assms(1,2,4) by simp_all
  ultimately show ?thesis by auto
qed

theorem context_switch_round_trip_witness:
  "\<exists>s1 s2. timer_tick (1, 0x8000) ex_sched = Some s1 \<and> theCurrentTask s1 = 0x3000 \<and> timer_tick (2, 0x9000) s1 = Some s2 \<and>
     theCurrentTask s2 = 0x1000 \<and> switch_to_esp s2 = 0x8000"
proof -
  have fr: "first_ready (tasks ex_sched) [0x2000, 0x3000] = 0x3000" by (simp add: first_ready_def ex_sched_fields)
  obtain s1 where s1: "timer_tick (1, 0x8000) ex_sched = Some s1" "ticked ex_sched 0x8000 0x3000 s1"
    using tick_switches [OF ex_ring ex_sched_fields(1) fr, of "0x8000" 1] by auto
  note f = ticked_fields [OF s1(2)]
  have "task_ring (tasks s1) (theCurrentTask s1) [0x1000, 0x2000]"
    using task_ring_rotate [of "tasks ex_sched" "0x1000" "[0x2000]" "0x3000" "[]"] ex_ring
      task_ring_cong [of "tasks ex_sched" "tasks s1"] f(1,4) by (simp add: ex_sched_fields)
  moreover have "first_ready (tasks s1) [0x1000, 0x2000] = 0x1000" by (simp add: first_ready_def f ex_sched_fields)
  ultimately obtain s2 where s2: "timer_tick (2, 0x9000) s1 = Some s2" "ticked s1 0x9000 0x1000 s2"
    using tick_switches [of s1 "[0x1000, 0x2000]" "0x1000" "0x9000" 2] f(5) ex_sched_fields(1) by auto
  have "switch_to_esp s2 = 0x8000"
    using context_switch_round_trip [of ex_sched "0x1000" 1 "0x8000" s1 "[(2, 0x9000)]" s2] s1 s2 f(4)
      ticked_fields(4) [OF s2(2)] by (simp add: ex_sched_fields)
  then show ?thesis using s1(1) s2(1) f(4) ticked_fields(4) [OF s2(2)] by blast
qed

text \<open>C38. A new task starts at its entry point: when the table has a free entry, \<^verbatim>\<open>task_init\<close> leaves a frame from which the
  first switch enters the task with its code segment, interrupts enabled, its stack when it is not the kernel's, and
  its data segments, and the table entry holds the address of its state segment.\<close>

theorem task_init_starts_at_entry:
  assumes "fst (gdt_alloc_entry (theGDT s) (segdescr_taskstate_init t PL_KERN)) \<noteq> 0"
  shows "let s1 = task_init t entry esp0 esp3 cs ds s; s2 = task_push_context t s1;
             ctx = switch_to_esp s2; frame = ctx + CONTEXT_SIZE; i = tss_index (tasks s1 t)
         in stk s2 frame = entry \<and> stk s2 (frame + 4) = ucast cs \<and> stk s2 (frame + 8) = EFL_RSRVD OR EFL_IF \<and>
            (cs \<noteq> SEL_KERN_CS \<longrightarrow> stk s2 (frame + 12) = esp3 \<and> stk s2 (frame + 16) = ucast ds) \<and>
            (\<forall>k\<in>{0, 4, 8, 12}. stk s2 (ctx + k) = ucast ds) \<and> tk_state (tasks s1 t) = TS_READY \<and>
            sd_ll (theGDT s ! i) = 0 \<and> i < length (theGDT s) \<and> segdescr_base (theGDT s1 ! i) = t"
proof -
  obtain i gdt where a: "gdt_alloc_entry (theGDT s) (segdescr_taskstate_init t PL_KERN) = (i, gdt)" by force
  then have i: "i \<noteq> 0" using assms by simp
  note g = gdt_alloc_entry_index [OF a i]
  have cs: "(ucast cs = (ucast SEL_KERN_CS :: u32)) = (cs = SEL_KERN_CS)" by (metis ucast_ucast_u16)
  show ?thesis
    using a i g
    by (auto simp: task_init_def task_push_context_def upd_task_def task_sysinfo_size_def init_tss_def CONTEXT_SIZE_def Let_def cs
        segdescr_tss_base)
qed

theorem task_init_starts_at_entry_witness:
  "let s1 = task_init 0x3000 0x100000 0x9000 0xBFFF0000 SEL_USER_CS SEL_USER_DS ex_sched; s2 = task_push_context 0x3000 s1
   in stk s2 (switch_to_esp s2 + 0x30) = 0x100000"
proof -
  have "theGDT ex_sched = \<lparr>int0 = 0, int1 = 0\<rparr> # \<lparr>int0 = 0, int1 = 0\<rparr> # replicate 8 \<lparr>int0 = 0, int1 = 0\<rparr>"
    by (simp add: ex_sched_def flip: replicate_Suc)
  then have "fst (gdt_alloc_entry (theGDT ex_sched) seg) \<noteq> 0" for seg by (simp add: gdt_alloc_entry_def sd_ll_def)
  from task_init_starts_at_entry [OF this, of "0x3000" "0x100000" "0x9000" "0xBFFF0000" SEL_USER_CS SEL_USER_DS]
  show ?thesis by (simp add: Let_def CONTEXT_SIZE_def)
qed

end
