(* ===== verification/Libc_Memory.thy ===== *)
theory Libc_Memory
  imports Cosec_Prelude
begin

text \<open>
  The memory operations of \<^verbatim>\<open>lib/c/src/stdlib.c\<close> (\<^verbatim>\<open>memcpy\<close>, \<^verbatim>\<open>memmove\<close>, \<^verbatim>\<open>memset\<close>, \<^verbatim>\<open>memchr\<close>,
  \<^verbatim>\<open>memcmp\<close>) over a byte-addressed memory.  Source and destination live in one memory, so a
  copy whose ranges overlap reads what it has already written: the theorems say when that
  does not matter.
\<close>

section \<open>Byte memory\<close>

type_synonym bytemem = "u32 \<Rightarrow> u8"

text \<open>The \<open>n\<close> bytes at \<open>p\<close>.\<close>

definition mem_read :: "bytemem \<Rightarrow> u32 \<Rightarrow> nat \<Rightarrow> u8 list" where
  "mem_read m p n = map (\<lambda>i. m (p + of_nat i)) [0..<n]"

section \<open>The copy loops\<close>

text \<open>The loop body \<^verbatim>\<open>dest[i] = src[i]\<close>.\<close>

definition copy_byte :: "u32 \<Rightarrow> u32 \<Rightarrow> bytemem \<Rightarrow> u32 \<Rightarrow> bytemem" where
  "copy_byte dest src m i = m(dest + i := m (src + i))"

definition memcpy_from_start :: "bytemem \<Rightarrow> u32 \<Rightarrow> u32 \<Rightarrow> u32 \<Rightarrow> bytemem" where
  "memcpy_from_start m dest src sz =
     foldl (copy_byte dest src) m (map of_nat [0..<unat sz])"

definition memcpy_from_end :: "bytemem \<Rightarrow> u32 \<Rightarrow> u32 \<Rightarrow> u32 \<Rightarrow> bytemem" where
  "memcpy_from_end m dest src sz =
     foldl (copy_byte dest src) m (map (\<lambda>i. sz - 1 - of_nat i) [0..<unat sz])"

definition memcpy :: "bytemem \<Rightarrow> u32 \<Rightarrow> u32 \<Rightarrow> u32 \<Rightarrow> bytemem" where
  "memcpy m dest src sz = (if dest = src then m else memcpy_from_start m dest src sz)"

definition memmove :: "bytemem \<Rightarrow> u32 \<Rightarrow> u32 \<Rightarrow> u32 \<Rightarrow> bytemem" where
  "memmove m dst src len =
     (if dst = src then m
      else if src < dst \<and> dst < src + len then memcpy_from_end m dst src len
      else memcpy_from_start m dst src len)"

text \<open>The \<^verbatim>\<open>int\<close> argument is truncated to a byte.\<close>

definition memset :: "bytemem \<Rightarrow> u32 \<Rightarrow> int \<Rightarrow> u32 \<Rightarrow> bytemem" where
  "memset m s c n = foldl (\<lambda>m i. m(s + of_nat i := word_of_int c)) m [0..<unat n]"

text \<open>\<^verbatim>\<open>memchr\<close> returns the address of the first match, or the null pointer.  It compares a signed
  \<^verbatim>\<open>char\<close> with an \<^verbatim>\<open>int\<close>.\<close>

definition memchr :: "bytemem \<Rightarrow> u32 \<Rightarrow> int \<Rightarrow> u32 \<Rightarrow> u32" where
  "memchr m s c n =
     (case find (\<lambda>i. sint (m (s + of_nat i)) = c) [0..<unat n] of None \<Rightarrow> 0 | Some i \<Rightarrow> s + of_nat i)"

text \<open>\<^verbatim>\<open>memcmp\<close> returns the first difference, computed in \<^verbatim>\<open>char\<close> (so it wraps at eight bits) and
  then widened to \<^verbatim>\<open>int\<close>.\<close>

definition memcmp :: "bytemem \<Rightarrow> u32 \<Rightarrow> u32 \<Rightarrow> u32 \<Rightarrow> int" where
  "memcmp m s1 s2 n =
     (case find (\<lambda>i. m (s1 + of_nat i) - m (s2 + of_nat i) \<noteq> 0) [0..<unat n] of
        None \<Rightarrow> 0
      | Some i \<Rightarrow> sint (m (s1 + of_nat i) - m (s2 + of_nat i)))"

section \<open>Correctness of the copies\<close>

text \<open>
  Bytes \<open>lo\<close> to \<open>hi - 1\<close> of the original source appear at the destination, nothing else
  changes.
\<close>

definition copied_range :: "bytemem \<Rightarrow> u32 \<Rightarrow> u32 \<Rightarrow> nat \<Rightarrow> nat \<Rightarrow> bytemem" where
  "copied_range m dst src lo hi =
     (\<lambda>a. if lo \<le> unat (a - dst) \<and> unat (a - dst) < hi then m (src + (a - dst)) else m a)"

abbreviation copied :: "bytemem \<Rightarrow> u32 \<Rightarrow> u32 \<Rightarrow> nat \<Rightarrow> bytemem" where
  "copied m dst src n \<equiv> copied_range m dst src 0 n"

lemma copied_range_empty [simp]: "hi \<le> lo \<Longrightarrow> copied_range m d s lo hi = m"
  by (rule ext) (auto simp: copied_range_def)

lemma copied_range_self [simp]: "copied_range m p p lo hi = m"
  by (auto simp: copied_range_def)

lemma unat_of_nat_u32 [unat_simps]: "n < 2 ^ 32 \<Longrightarrow> unat (of_nat n :: u32) = n"
  by (simp add: unat_of_nat take_bit_eq_mod)

lemma copied_at: "i < n \<Longrightarrow> n \<le> 2 ^ 32 \<Longrightarrow> copied m dst src n (dst + of_nat i) = m (src + of_nat i)"
  by (simp add: copied_range_def unat_of_nat_u32)

lemma mem_read_copied: "n \<le> 2 ^ 32 \<Longrightarrow> mem_read (copied m dst src n) dst n = mem_read m src n"
  by (simp add: mem_read_def copied_at)

lemma unat_diff_eq_iff:
  assumes "n < 2 ^ 32"
  shows "unat (a - dst :: u32) = n \<longleftrightarrow> a = dst + of_nat n"
proof -
  have "unat (a - dst) = n \<longleftrightarrow> a - dst = of_nat n"
    by (simp only: word_unat_eq_iff unat_of_nat_u32 [OF assms])
  then show ?thesis by (auto simp: algebra_simps)
qed

text \<open>
  One step of either loop: byte \<open>k\<close> of the source is still the original one when its address
  is outside the destination bytes already written.
\<close>

lemma copied_step_up:
  assumes "k < 2 ^ 32" and "k \<le> unat (src + of_nat k - dst)"
  shows "copy_byte dst src (copied m dst src k) (of_nat k) = copied m dst src (Suc k)"
proof
  fix a :: u32
  show "copy_byte dst src (copied m dst src k) (of_nat k) a = copied m dst src (Suc k) a"
    using assms unat_diff_eq_iff [OF assms(1), of a dst]
    by (auto simp: copied_range_def copy_byte_def less_Suc_eq)
qed

lemma copied_step_down:
  assumes "k < n" "n \<le> 2 ^ 32" and "unat (src + of_nat k - dst) \<le> k \<or> n \<le> unat (src + of_nat k - dst)"
  shows "copy_byte dst src (copied_range m dst src (Suc k) n) (of_nat k) = copied_range m dst src k n"
proof
  fix a :: u32
  from assms have "k < 2 ^ 32" by simp
  then show "copy_byte dst src (copied_range m dst src (Suc k) n) (of_nat k) a = copied_range m dst src k n a"
    using assms unat_diff_eq_iff [of k a dst]
    by (auto simp: copied_range_def copy_byte_def less_Suc_eq le_Suc_eq)
qed

lemma memcpy_from_start_eq:
  assumes "\<And>i. i < unat sz \<Longrightarrow> i \<le> unat (src + of_nat i - dst)"
  shows "memcpy_from_start m dst src sz = copied m dst src (unat sz)"
proof -
  have "foldl (copy_byte dst src) m (map of_nat [0..<n]) = copied m dst src n"
    if "n \<le> unat sz" for n
    using that
  proof (induction n)
    case (Suc n)
    then have "n < 2 ^ 32" using u32_bound [of sz] by simp
    with Suc assms [of n] show ?case by (simp add: copied_step_up)
  qed simp
  then show ?thesis by (simp add: memcpy_from_start_def)
qed

lemma memcpy_from_end_eq:
  assumes "\<And>i. i < unat sz \<Longrightarrow> unat (src + of_nat i - dst) \<le> i \<or> unat sz \<le> unat (src + of_nat i - dst)"
  shows "memcpy_from_end m dst src sz = copied m dst src (unat sz)"
proof -
  let ?n = "unat sz"
  have *: "foldl (copy_byte dst src) m (map (\<lambda>i. sz - 1 - of_nat i) [0..<j])
      = copied_range m dst src (?n - j) ?n" if "j \<le> ?n" for j
    using that
  proof (induction j)
    case (Suc j)
    then have k: "sz - 1 - of_nat j = of_nat (?n - Suc j)" by (simp add: of_nat_diff)
    from Suc have s: "?n - j = Suc (?n - Suc j)" by simp
    have "?n \<le> 2 ^ 32" using u32_bound [of sz] by simp
    then have "copy_byte dst src (copied_range m dst src (Suc (?n - Suc j)) ?n) (of_nat (?n - Suc j))
        = copied_range m dst src (?n - Suc j) ?n"
      using Suc.prems assms [of "?n - Suc j"] by (intro copied_step_down) (simp_all del: of_nat_diff)
    with Suc show ?case unfolding k [symmetric] by (simp add: s)
  qed simp
  show ?thesis using * [of ?n] by (simp add: memcpy_from_end_def)
qed

text \<open>How far the source byte \<open>i\<close> lies past the destination, for ranges that do not wrap.\<close>

lemma unat_distance:
  fixes src dst :: u32
  assumes "unat src + n \<le> 2 ^ 32" "i < n"
  shows "unat (src + of_nat i - dst) =
    (if unat dst \<le> unat src + i then unat src + i - unat dst else 2 ^ 32 + unat src + i - unat dst)"
proof -
  have "unat (src + of_nat i) = unat src + i"
    using assms by (simp add: unat_simps)
  then show ?thesis
    using u32_bound [of dst] by (auto simp: unat_sub_if_size word_size word_le_nat_alt)
qed

lemma memmove_eq_copied:
  assumes "unat src + unat len \<le> 2 ^ 32" "unat dst + unat len \<le> 2 ^ 32"
  shows "memmove m dst src len = copied m dst src (unat len)"
proof (cases "src < dst \<and> dst < src + len")
  case True
  then have lt: "unat src < unat dst" by (simp add: word_less_nat_alt)
  have "memcpy_from_end m dst src len = copied m dst src (unat len)"
    by (rule memcpy_from_end_eq)
      (use lt assms u32_bound [of dst] in \<open>auto simp: unat_distance [OF assms(1)]\<close>)
  with True show ?thesis by (simp add: memmove_def)
next
  case False
  have far: "unat dst \<le> unat src \<or> unat src + unat len \<le> unat dst"
  proof (cases "unat src + unat len = 2 ^ 32")
    case True
    with False show ?thesis
      using assms(2) by (metis add_le_imp_le_right)
  next
    case no: False
    with assms have "unat (src + len) = unat src + unat len" by (simp add: unat_simps)
    with False show ?thesis by (auto simp: word_less_nat_alt)
  qed
  have "memcpy_from_start m dst src len = copied m dst src (unat len)"
    by (rule memcpy_from_start_eq)
      (use far u32_bound [of dst] in \<open>auto simp: unat_distance [OF assms(1)]\<close>)
  with False show ?thesis by (auto simp: memmove_def)
qed

lemma memcpy_eq_copied:
  assumes "unat src + unat sz \<le> 2 ^ 32"
    and "unat dst \<le> unat src \<or> unat src + unat sz \<le> unat dst"
  shows "memcpy m dst src sz = copied m dst src (unat sz)"
  unfolding memcpy_def
  by (simp, intro impI memcpy_from_start_eq)
    (use assms u32_bound [of dst] in \<open>auto simp: unat_distance [OF assms(1)]\<close>)

lemma memset_eq: "memset m s c n = (\<lambda>a. if unat (a - s) < unat n then word_of_int c else m a)"
proof -
  have "foldl (\<lambda>m i. m(s + of_nat i := word_of_int c)) m [0..<k]
      = (\<lambda>a. if unat (a - s) < k then word_of_int c else m a)"
    if "k \<le> unat n" for k
    using that
  proof (induction k)
    case (Suc k)
    then have "k < 2 ^ 32" using u32_bound [of n] by simp
    with Suc show ?case by (auto simp: fun_eq_iff less_Suc_eq unat_diff_eq_iff)
  qed simp
  then show ?thesis by (simp add: memset_def)
qed

section \<open>Properties\<close>

text \<open>C20. \<^verbatim>\<open>memmove\<close> between ranges that do not run over the end of the address space, however they
  overlap: the destination holds what the source held before, and no other byte changes.\<close>

theorem memmove_correct:
  assumes "unat src + unat len \<le> 2 ^ 32" "unat dst + unat len \<le> 2 ^ 32"
  shows "mem_read (memmove m dst src len) dst (unat len) = mem_read m src (unat len) \<and>
    (\<forall>a. unat len \<le> unat (a - dst) \<longrightarrow> memmove m dst src len a = m a)"
proof -
  have "unat len \<le> 2 ^ 32" using u32_bound [of len] by simp
  then show ?thesis
    unfolding memmove_eq_copied [OF assms] by (simp add: mem_read_copied) (simp add: copied_range_def)
qed

theorem memmove_correct_witness:
  "mem_read (memmove (\<lambda>a. ucast a) 0x102 0x100 4) 0x102 4 = [0, 1, 2, 3]"
proof -
  have "mem_read (\<lambda>a. ucast a) 0x100 4 = [0, 1, 2, 3]" by code_simp
  then show ?thesis using memmove_correct [of "0x100" 4 "0x102" "\<lambda>a. ucast a"] by simp
qed

text \<open>\<^verbatim>\<open>memcmp\<close> returns 0 exactly when the two ranges hold the same bytes.\<close>

theorem memcmp_zero_iff: "memcmp m s1 s2 n = 0 \<longleftrightarrow> mem_read m s1 (unat n) = mem_read m s2 (unat n)"
proof -
  have nz: "sint (x :: u8) = 0 \<longleftrightarrow> x = 0" for x by (rule signed_eq_0_iff)
  show ?thesis
  proof (cases "find (\<lambda>i. m (s1 + of_nat i) - m (s2 + of_nat i) \<noteq> 0) [0..<unat n]")
    case None
    then have "\<forall>i < unat n. m (s1 + of_nat i) = m (s2 + of_nat i)" by (auto simp: find_None_iff)
    with None show ?thesis by (simp add: memcmp_def mem_read_def)
  next
    case (Some i)
    then have "i < unat n" "m (s1 + of_nat i) \<noteq> m (s2 + of_nat i)" by (auto simp: find_Some_iff)
    with Some show ?thesis by (auto simp: memcmp_def mem_read_def nz)
  qed
qed

end
