(* ===== verification/FF_Alloc.thy ===== *)
theory FF_Alloc
  imports Libc_Memory
begin

text \<open>
  The first-fit allocator of \<^verbatim>\<open>src/mem/ff_alloc.c\<close>, the kernel heap.  Chunk headers form a
  circular doubly linked list through the managed area; \<^verbatim>\<open>malloc\<close> splits a free chunk, \<^verbatim>\<open>free\<close>
  merges a chunk with its free neighbours, \<^verbatim>\<open>realloc\<close> resizes in place or relocates.
  Headers are a store from addresses to header structures; the payload bytes, which only
  \<^verbatim>\<open>realloc\<close> touches, are a byte memory beside it.  A null result is the address \<open>0\<close>.
\<close>

section \<open>Data\<close>

definition ALIGN :: u32 where "ALIGN = 16"
definition USED :: u32 where "USED = 0x80000000"
definition CHUNK_SIZE :: u32 where "CHUNK_SIZE = 12"
definition ALLOC_SIZE :: u32 where "ALLOC_SIZE = 20"
definition INT_MAX :: u32 where "INT_MAX = 0x7FFFFFFF"

definition aligned :: "u32 \<Rightarrow> u32" where
  "aligned addr = (if addr AND (ALIGN - 1) = 0 then addr else ALIGN + (addr AND NOT (ALIGN - 1)))"

record ff_chunk_info =
  ck_next :: u32
  ck_prev :: u32
  checksum :: u32

record firstfit_allocator =
  startmem :: u32
  endmem :: u32
  current :: u32
  n_malloc :: u32
  n_free :: u32

type_synonym chunk_mem = "u32 \<Rightarrow> ff_chunk_info"

record ff_state =
  alloc :: firstfit_allocator
  hdrs :: chunk_mem
  bytes :: bytemem

section \<open>Chunk operations\<close>

definition set_used :: "chunk_mem \<Rightarrow> u32 \<Rightarrow> chunk_mem" where
  "set_used h this = h(this := (h this)\<lparr>checksum := (ck_next (h this) + this) OR USED\<rparr>)"

definition set_free :: "chunk_mem \<Rightarrow> u32 \<Rightarrow> chunk_mem" where
  "set_free h this = h(this := (h this)\<lparr>checksum := (ck_next (h this) + this) AND NOT USED\<rparr>)"

definition is_used :: "chunk_mem \<Rightarrow> u32 \<Rightarrow> bool" where
  "is_used h this \<longleftrightarrow> USED AND checksum (h this) \<noteq> 0"

definition check_sum :: "chunk_mem \<Rightarrow> u32 \<Rightarrow> bool" where
  "check_sum h this \<longleftrightarrow> USED OR (this + ck_next (h this)) = USED OR checksum (h this)"

definition set_prev :: "chunk_mem \<Rightarrow> u32 \<Rightarrow> u32 \<Rightarrow> chunk_mem" where
  "set_prev h this p = h(this := (h this)\<lparr>ck_prev := p\<rparr>)"

definition set_next :: "chunk_mem \<Rightarrow> u32 \<Rightarrow> u32 \<Rightarrow> chunk_mem" where
  "set_next h this n =
     (let h' = h(this := (h this)\<lparr>ck_next := n\<rparr>)
      in if is_used h' this then set_used h' this else set_free h' this)"

definition get_size :: "chunk_mem \<Rightarrow> u32 \<Rightarrow> u32" where
  "get_size h this = ck_next (h this) - this - CHUNK_SIZE"

definition chunk_data :: "u32 \<Rightarrow> u32" where
  "chunk_data this = this + CHUNK_SIZE"

definition erase :: "chunk_mem \<Rightarrow> u32 \<Rightarrow> chunk_mem" where
  "erase h this = h(this := (h this)\<lparr>checksum := 0\<rparr>)"

definition set_chunk :: "chunk_mem \<Rightarrow> u32 \<Rightarrow> u32 \<Rightarrow> u32 \<Rightarrow> bool \<Rightarrow> chunk_mem" where
  "set_chunk h this n p used =
     (let h' = h(this := (h this)\<lparr>ck_next := n, ck_prev := p\<rparr>)
      in if used then set_used h' this else set_free h' this)"

section \<open>The allocator\<close>

text \<open>\<^verbatim>\<open>None\<close> stands for the null pointer that the constructor returns.\<close>

definition firstfit_new :: "chunk_mem \<Rightarrow> bytemem \<Rightarrow> u32 \<Rightarrow> u32 \<Rightarrow> ff_state option" where
  "firstfit_new h b start sz =
     (if sz < aligned (ALLOC_SIZE + CHUNK_SIZE) + CHUNK_SIZE + 1 then None
      else
        let fin = sz + start;
            initial = aligned (start + ALLOC_SIZE + CHUNK_SIZE) - CHUNK_SIZE;
            heap_end = ALIGN * (fin div ALIGN) - CHUNK_SIZE;
            h1 = set_chunk h initial heap_end heap_end False;
            h2 = set_chunk h1 heap_end initial initial True
        in Some \<lparr>alloc = \<lparr>startmem = start, endmem = fin, current = initial, n_malloc = 0, n_free = 0\<rparr>,
                 hdrs = h2, bytes = b\<rparr>)"

text \<open>The body of the loop of \<^verbatim>\<open>firstfit_malloc\<close> that allocates \<open>chunk\<close>.\<close>

definition ff_take :: "u32 \<Rightarrow> ff_state \<Rightarrow> u32 \<Rightarrow> u32 \<times> ff_state" where
  "ff_take sz st chunk =
     (let h = hdrs st;
          new_chunk_offset = aligned (sz + CHUNK_SIZE) - CHUNK_SIZE;
          next_chunk = ck_next (h chunk);
          new_chunk = chunk_data chunk + new_chunk_offset;
          h1 = (if chunk_data new_chunk + 4 \<le> next_chunk
                then let h1 = set_chunk h new_chunk next_chunk chunk False;
                         h2 = set_chunk h1 next_chunk (ck_next (h1 next_chunk)) new_chunk True
                     in set_chunk h2 chunk new_chunk (ck_prev (h2 chunk)) True
                else h);
          h2 = set_used h1 chunk
      in (chunk_data chunk,
          st\<lparr>hdrs := h2,
             alloc := (alloc st)\<lparr>current := ck_next (h2 chunk), n_malloc := n_malloc (alloc st) + 1\<rparr>\<rparr>))"

text \<open>
  The search loop.  It stops at the first chunk that fits, at a chunk whose checksum is
  wrong (\<^verbatim>\<open>try_to_repair\<close> only logs) or back at \<^verbatim>\<open>current\<close>; on a corrupted ring it need not
  stop, which is the result \<open>None\<close>.
\<close>

partial_function (option) malloc_loop :: "u32 \<Rightarrow> ff_state \<Rightarrow> u32 \<Rightarrow> (u32 \<times> ff_state) option" where
  "malloc_loop sz st chunk =
     (if \<not> is_used (hdrs st) chunk \<and> sint sz \<le> sint (get_size (hdrs st) chunk)
      then Some (ff_take sz st chunk)
      else if \<not> check_sum (hdrs st) (ck_next (hdrs st chunk)) then Some (0, st)
      else if ck_next (hdrs st chunk) = current (alloc st) then Some (0, st)
      else malloc_loop sz st (ck_next (hdrs st chunk)))"

definition firstfit_malloc :: "ff_state \<Rightarrow> u32 \<Rightarrow> (u32 \<times> ff_state) option" where
  "firstfit_malloc st sz =
     (if sz = 0 \<or> INT_MAX < sz then Some (0, st) else malloc_loop sz st (current (alloc st)))"

definition firstfit_free :: "ff_state \<Rightarrow> u32 \<Rightarrow> ff_state" where
  "firstfit_free st p =
     (if p = 0 then st
      else
        let chunk = p - CHUNK_SIZE in
        if \<not> check_sum (hdrs st) chunk then st
        else
          let h0 = set_free (hdrs st) chunk;
              next_chunk = ck_next (h0 chunk);
              (h1, next_chunk1) =
                (if \<not> is_used h0 next_chunk
                 then let nextnext = ck_next (h0 next_chunk)
                      in (erase (set_prev (set_next h0 chunk nextnext) nextnext chunk) next_chunk, nextnext)
                 else (h0, next_chunk));
              prev_chunk = ck_prev (h1 chunk);
              (h2, chunk2) =
                (if \<not> is_used h1 prev_chunk
                 then (erase (set_prev (set_next h1 prev_chunk next_chunk1) next_chunk1 prev_chunk) chunk, prev_chunk)
                 else (h1, chunk))
          in st\<lparr>hdrs := h2, alloc := (alloc st)\<lparr>current := chunk2, n_free := n_free (alloc st) + 1\<rparr>\<rparr>)"

text \<open>The three writes of \<^verbatim>\<open>firstfit_realloc\<close> that put the free chunk \<open>n\<close> between \<open>c\<close> and \<open>e\<close>.\<close>

definition relink :: "chunk_mem \<Rightarrow> u32 \<Rightarrow> u32 \<Rightarrow> u32 \<Rightarrow> chunk_mem" where
  "relink h c n e = set_chunk (set_prev (set_next h c n) e n) n e c False"

text \<open>
  Relocation copies as many bytes as the old block has.  A copy that runs past the new block, or one to the null
  pointer that reaches the heap, overwrites chunk headers; headers are kept apart from the bytes here, so such a call
  has no result in the model.
\<close>

definition copy_stays :: "ff_state \<Rightarrow> u32 \<Rightarrow> u32 \<Rightarrow> bool" where
  "copy_stays st new_p n \<longleftrightarrow>
     (if new_p = 0 then n \<le> startmem (alloc st) else n \<le> get_size (hdrs st) (new_p - CHUNK_SIZE))"

definition firstfit_realloc :: "ff_state \<Rightarrow> u32 \<Rightarrow> u32 \<Rightarrow> (u32 \<times> ff_state) option" where
  "firstfit_realloc st p sz =
     (if p = 0 then firstfit_malloc st sz
      else
        let h = hdrs st;
            aligned_size = aligned sz;
            this_chunk = p - CHUNK_SIZE;
            this_size = get_size h this_chunk;
            next_chunk = ck_next (h this_chunk);
            new_chunk = this_chunk + CHUNK_SIZE + aligned_size
        in
        if aligned_size < this_size then
          if this_size \<le> aligned_size + CHUNK_SIZE then Some (p, st)
          else if \<not> is_used h next_chunk then
            Some (chunk_data this_chunk,
                  st\<lparr>hdrs := relink h this_chunk new_chunk (ck_next (h next_chunk)),
                     alloc := (alloc st)\<lparr>current :=
                       (if current (alloc st) = next_chunk then new_chunk else current (alloc st))\<rparr>\<rparr>)
          else Some (chunk_data this_chunk, st\<lparr>hdrs := relink h this_chunk new_chunk next_chunk\<rparr>)
        else if \<not> is_used h next_chunk \<and> aligned_size - this_size \<le> get_size h next_chunk then
          Some (chunk_data this_chunk,
                st\<lparr>hdrs := relink h this_chunk new_chunk (ck_next (h next_chunk)),
                   alloc := (alloc st)\<lparr>current :=
                     (if current (alloc st) = next_chunk then ck_next (h next_chunk) else current (alloc st))\<rparr>\<rparr>)
        else
          case firstfit_malloc st sz of
            None \<Rightarrow> None
          | Some (new_p, st1) \<Rightarrow>
              if copy_stays st1 new_p this_size
              then Some (new_p, firstfit_free (st1\<lparr>bytes := memcpy (bytes st1) new_p p this_size\<rparr>) p)
              else None)"

text \<open>\<^verbatim>\<open>firstfit_corruption\<close> walks the ring from \<^verbatim>\<open>current\<close> and returns the first bad chunk.\<close>

partial_function (option) corruption_loop :: "ff_state \<Rightarrow> u32 \<Rightarrow> u32 option" where
  "corruption_loop st c =
     (if \<not> check_sum (hdrs st) c then Some c
      else if ck_next (hdrs st c) = current (alloc st) then Some 0
      else corruption_loop st (ck_next (hdrs st c)))"

definition firstfit_corruption :: "ff_state \<Rightarrow> u32 option" where
  "firstfit_corruption st = corruption_loop st (current (alloc st))"


section \<open>Header fields after each chunk operation\<close>

lemma ck_next_ops [simp]:
  "ck_next (set_used h a c) = ck_next (h c)"
  "ck_next (set_free h a c) = ck_next (h c)"
  "ck_next (set_prev h a p c) = ck_next (h c)"
  "ck_next (erase h a c) = ck_next (h c)"
  "ck_next (set_next h a n c) = (if c = a then n else ck_next (h c))"
  "ck_next (set_chunk h a n p u c) = (if c = a then n else ck_next (h c))"
  by (simp_all add: set_used_def set_free_def set_prev_def erase_def set_next_def set_chunk_def Let_def)

lemma ck_prev_ops [simp]:
  "ck_prev (set_used h a c) = ck_prev (h c)"
  "ck_prev (set_free h a c) = ck_prev (h c)"
  "ck_prev (set_prev h a p c) = (if c = a then p else ck_prev (h c))"
  "ck_prev (erase h a c) = ck_prev (h c)"
  "ck_prev (set_next h a n c) = ck_prev (h c)"
  "ck_prev (set_chunk h a n p u c) = (if c = a then p else ck_prev (h c))"
  by (simp_all add: set_used_def set_free_def set_prev_def erase_def set_next_def set_chunk_def Let_def)

lemma USED_bits [simp]:
  "USED AND (x OR USED) = USED" "USED AND (x AND NOT USED) = 0" "USED \<noteq> 0"
  "USED OR (x OR USED) = USED OR x" "USED OR (x AND NOT USED) = USED OR x"
  by (auto simp: USED_def intro!: bit_word_eqI simp: bit_simps)

lemma is_used_ops [simp]:
  "is_used (set_used h a) c = (c = a \<or> is_used h c)"
  "is_used (set_free h a) c = (c \<noteq> a \<and> is_used h c)"
  "is_used (set_prev h a p) c = is_used h c"
  "is_used (set_next h a n) c = is_used h c"
  "is_used (erase h a) c = (c \<noteq> a \<and> is_used h c)"
  "is_used (set_chunk h a n p u) c = (if c = a then u else is_used h c)"
  by (auto simp: is_used_def set_used_def set_free_def set_prev_def erase_def set_next_def set_chunk_def Let_def)

lemma check_sum_ops [simp]:
  "check_sum (set_used h a) c = (c = a \<or> check_sum h c)"
  "check_sum (set_free h a) c = (c = a \<or> check_sum h c)"
  "check_sum (set_prev h a p) c = check_sum h c"
  "check_sum (set_next h a n) c = (c = a \<or> check_sum h c)"
  "check_sum (set_chunk h a n p u) c = (c = a \<or> check_sum h c)"
  "c \<noteq> a \<Longrightarrow> check_sum (erase h a) c = check_sum h c"
  by (auto simp: check_sum_def set_used_def set_free_def set_prev_def erase_def set_next_def set_chunk_def
      Let_def add.commute)

end
