(* ===== verification/Ring_List.thy ===== *)
theory Ring_List
  imports Cosec_Prelude
begin

text \<open>
  Circular doubly linked lists, which the kernel uses for heap chunks, received frames and tasks.
  A ring is given by its successor and predecessor functions; \<open>dring nx pv cs\<close> says that \<open>cs\<close> lists
  its nodes in order.
\<close>

definition links :: "('a \<Rightarrow> 'a) \<Rightarrow> ('a \<Rightarrow> 'a) \<Rightarrow> 'a \<Rightarrow> 'a \<Rightarrow> bool" where
  "links nx pv a b \<longleftrightarrow> nx a = b \<and> pv b = a"

definition dring :: "('a \<Rightarrow> 'a) \<Rightarrow> ('a \<Rightarrow> 'a) \<Rightarrow> 'a list \<Rightarrow> bool" where
  "dring nx pv cs \<longleftrightarrow> cs \<noteq> [] \<and> successively (links nx pv) (cs @ [hd cs])"

lemma successively_links_cong:
  assumes "\<And>a. a \<in> set (butlast L) \<Longrightarrow> nx' a = nx a"
    and "\<And>b. b \<in> set (tl L) \<Longrightarrow> pv' b = pv b"
  shows "successively (links nx' pv') L = successively (links nx pv) L"
  using assms
proof (induction L rule: induct_list012)
  case (3 x y zs)
  then show ?case by (auto simp: links_def split: if_splits)
qed simp_all

lemma dring_rotate:
  assumes "dring nx pv (xs @ ys)" "ys \<noteq> []"
  shows "dring nx pv (ys @ xs)"
proof (cases xs)
  case (Cons x xs')
  from assms(2) obtain y ys' where y: "ys = y # ys'" by (cases ys) auto
  have "successively (links nx pv) (x # xs' @ y # ys' @ [x])"
    using assms(1) Cons y by (simp add: dring_def)
  then have "successively (links nx pv) (x # xs')" "links nx pv (last (x # xs')) y"
      "successively (links nx pv) (y # ys')" "links nx pv (last (y # ys')) x"
    using successively_append_iff [of "links nx pv" "x # xs'" "y # ys' @ [x]"]
      successively_append_iff [of "links nx pv" "y # ys'" "[x]"] by auto
  then have "successively (links nx pv) ((y # ys') @ ((x # xs') @ [y]))"
    by (subst successively_append_iff, subst successively_append_iff) auto
  then show ?thesis using Cons y by (simp add: dring_def)
qed (use assms in \<open>auto simp: dring_def\<close>)

lemma dring_next: "dring nx pv (xs @ c # d # ys) \<Longrightarrow> nx c = d \<and> pv d = c"
  by (auto simp: dring_def successively_mid links_def)

lemma dring_split:
  "dring nx pv (xs @ c # d # ys) \<longleftrightarrow>
     successively (links nx pv) (xs @ [c]) \<and> links nx pv c d \<and>
     successively (links nx pv) (d # ys @ [hd (xs @ [c])])"
  by (cases xs) (auto simp: dring_def successively_mid [of "links nx pv" "x # xs" for x xs, simplified])

lemma dring_last:
  assumes "dring nx pv (us @ [c])"
  shows "nx c = hd (us @ [c])" "pv (hd (us @ [c])) = c"
  using assms successively_mid [of "links nx pv" us c "hd (us @ [c])" "[]"] by (auto simp: dring_def links_def)

lemma dring_prev_hd: "dring nx pv (c # ys) \<Longrightarrow> pv c = last (c # ys)"
  unfolding dring_def using successively_append_iff [of "links nx pv" "c # ys" "[c]"] by (simp add: links_def)

text \<open>Relinking around one place leaves the rest of the ring as it is.\<close>

lemma dring_parts_cong:
  assumes dist: "distinct (xs @ c # d # ys)"
    and nx: "\<And>a. a \<in> set xs \<union> {d} \<union> set ys \<Longrightarrow> nx' a = nx a"
    and pv: "\<And>a. a \<in> set xs \<union> {c} \<union> set ys \<Longrightarrow> pv' a = pv a"
  shows "successively (links nx' pv') (xs @ [c]) = successively (links nx pv) (xs @ [c])"
    and "successively (links nx' pv') (d # ys @ [hd (xs @ [c])]) =
      successively (links nx pv) (d # ys @ [hd (xs @ [c])])"
proof -
  have hd: "hd (xs @ [c]) \<in> set xs \<union> {c}" by (cases xs) auto
  show "successively (links nx' pv') (xs @ [c]) = successively (links nx pv) (xs @ [c])"
    by (rule successively_links_cong) (use nx pv in \<open>fastforce dest: in_set_tlD\<close>)+
  show "successively (links nx' pv') (d # ys @ [hd (xs @ [c])]) =
      successively (links nx pv) (d # ys @ [hd (xs @ [c])])"
    by (rule successively_links_cong) (use nx pv hd in \<open>auto simp: butlast_append\<close>)
qed

lemma dring_insert:
  assumes r: "dring nx pv (xs @ c # d # ys)" and dist: "distinct (xs @ c # n # d # ys)"
    and nx: "\<And>a. a \<in> set xs \<union> {d} \<union> set ys \<Longrightarrow> nx' a = nx a"
    and pv: "\<And>a. a \<in> set xs \<union> {c} \<union> set ys \<Longrightarrow> pv' a = pv a"
    and new: "links nx' pv' c n" "links nx' pv' n d"
  shows "dring nx' pv' (xs @ c # n # d # ys)"
  using r new dring_parts_cong [of xs c d ys nx' nx pv' pv, OF _ nx pv] dist
  by (auto simp: dring_split)

lemma dring_remove:
  assumes r: "dring nx pv (xs @ c # n # d # ys)" and dist: "distinct (xs @ c # n # d # ys)"
    and nx: "\<And>a. a \<in> set xs \<union> {d} \<union> set ys \<Longrightarrow> nx' a = nx a"
    and pv: "\<And>a. a \<in> set xs \<union> {c} \<union> set ys \<Longrightarrow> pv' a = pv a"
    and new: "links nx' pv' c d"
  shows "dring nx' pv' (xs @ c # d # ys)"
  using r new dring_parts_cong [of xs c d ys nx' nx pv' pv, OF _ nx pv] dist
  by (auto simp: dring_split)

lemma dring_cong:
  assumes "\<And>a. a \<in> set cs \<Longrightarrow> nx' a = nx a \<and> pv' a = pv a"
  shows "dring nx' pv' cs = dring nx pv cs"
proof (cases "cs = []")
  case False
  have "successively (links nx' pv') (cs @ [hd cs]) = successively (links nx pv) (cs @ [hd cs])"
    by (rule successively_links_cong) (use assms False in \<open>auto dest: in_set_tlD in_set_butlastD\<close>)
  then show ?thesis by (simp add: dring_def)
qed (simp add: dring_def)

text \<open>The nodes are reached one after the other from the first, so the list is unique.\<close>

lemma dring_nth:
  assumes "dring nx pv cs" "i < length cs"
  shows "cs ! i = (nx ^^ i) (hd cs)"
  using assms(2)
proof (induction i)
  case 0
  then show ?case by (simp add: hd_conv_nth)
next
  case (Suc i)
  from Suc.prems have "cs = take i cs @ cs ! i # cs ! Suc i # drop (Suc (Suc i)) cs"
    using id_take_nth_drop [of i cs] Cons_nth_drop_Suc [of "Suc i" cs] by simp
  then have "nx (cs ! i) = cs ! Suc i" using assms(1) dring_next by metis
  with Suc show ?case by simp
qed

lemma dring_length:
  assumes "dring nx pv cs"
  shows "(nx ^^ length cs) (hd cs) = hd cs"
proof -
  have "cs \<noteq> []" using assms by (simp add: dring_def)
  then obtain us c where cs: "cs = us @ [c]" by (cases cs rule: rev_cases) auto
  then have "nx c = hd cs" using dring_last(1) assms by metis
  moreover have "length cs = Suc (length us)" "cs ! length us = c" by (simp_all add: cs)
  ultimately show ?thesis using dring_nth [OF assms, of "length us"] by simp
qed

lemma dring_unique:
  assumes "dring nx pv cs" "dring nx pv ds" "distinct cs" "distinct ds" "hd cs = hd ds"
  shows "cs = ds"
proof -
  have len: "length ds \<le> length cs" if r: "dring nx pv cs" "dring nx pv ds" "distinct ds" "hd cs = hd ds" for cs ds
  proof (rule ccontr)
    assume "\<not> length ds \<le> length cs"
    then have "ds ! length cs = ds ! 0"
      using dring_nth [OF r(2), of "length cs"] dring_nth [OF r(2), of 0] dring_length [OF r(1)] r(4)
      by (cases ds) auto
    moreover have "0 < length cs" using r(1) by (simp add: dring_def)
    ultimately show False using \<open>\<not> _\<close> r(3) nth_eq_iff_index_eq [of ds "length cs" 0] by (cases ds) auto
  qed
  show ?thesis
    by (rule nth_equalityI)
      (use len [of cs ds] len [of ds cs] assms dring_nth [OF assms(1)] dring_nth [OF assms(2)] in auto)
qed

text \<open>Appending before the first node and unlinking a node, the two updates the kernel makes.\<close>

lemma dring_iff:
  "qs \<noteq> [] \<Longrightarrow> dring nx pv qs \<longleftrightarrow> successively (links nx pv) qs \<and> links nx pv (last qs) (hd qs)"
  by (auto simp: dring_def successively_append_iff)

lemma dring_snoc:
  assumes r: "dring nx pv qs" and d: "distinct qs" "q \<notin> set qs"
    and nx: "\<And>a. nx' a = (if a = last qs then q else if a = q then hd qs else nx a)"
    and pv: "\<And>a. pv' a = (if a = q then last qs else if a = hd qs then q else pv a)"
  shows "dring nx' pv' (qs @ [q])"
proof -
  have ne: "qs \<noteq> []" using r by (simp add: dring_def)
  then have "last qs \<noteq> q" "hd qs \<noteq> q" using d(2) by auto
  moreover have "successively (links nx' pv') qs = successively (links nx pv) qs"
  proof (rule successively_links_cong)
    show "nx' a = nx a" if "a \<in> set (butlast qs)" for a
      using that d butlast_not_last [OF d(1)] by (auto simp: nx dest: in_set_butlastD)
    show "pv' b = pv b" if "b \<in> set (tl qs)" for b
      using that d ne by (cases qs) (auto simp: pv)
  qed
  ultimately show ?thesis
    using r ne by (simp add: dring_iff successively_append_iff links_def nx pv)
qed

lemma dring_unlink:
  assumes r: "dring nx pv (xs @ c # ys)" and d: "distinct (xs @ c # ys)" and ne: "xs @ ys \<noteq> []"
    and nx: "\<And>a. nx' a = (if a = pv c then nx c else nx a)"
    and pv: "\<And>a. pv' a = (if a = nx c then pv c else pv a)"
  shows "dring nx' pv' (xs @ ys)"
proof -
  let ?zs = "ys @ xs"
  have z: "?zs \<noteq> []" using ne by auto
  have dz: "distinct ?zs" using d by auto
  have "dring nx pv (c # ?zs)" using dring_rotate [OF r] by simp
  then have "successively (links nx pv) (c # ?zs)" "links nx pv (last (c # ?zs)) c" 
    using dring_iff [of "c # ?zs"] by auto
  then have s: "successively (links nx pv) ?zs" "nx c = hd ?zs" "pv c = last ?zs"
    using z successively_append_iff [of "links nx pv" "[c]" ?zs] by (auto simp: links_def)
  have "successively (links nx' pv') ?zs = successively (links nx pv) ?zs"
  proof (rule successively_links_cong)
    show "nx' a = nx a" if "a \<in> set (butlast ?zs)" for a
      using that butlast_not_last [OF dz] s by (auto simp: nx)
    show "pv' b = pv b" if "b \<in> set (tl ?zs)" for b
      using that dz z s by (cases ?zs) (auto simp: pv)
  qed
  then have "dring nx' pv' ?zs" using s z by (simp add: dring_iff links_def nx pv)
  then show ?thesis using dring_rotate [of nx' pv' ys xs] by (cases xs) auto
qed

end
