(* ===== verification/FF_Heap.thy ===== *)
theory FF_Heap
  imports FF_Alloc Ring_List
begin

text \<open>
  The invariant of the first-fit heap and what each operation does to it: the chunks form a
  ring in address order, checksums are right, no two free chunks are neighbours, and the last
  chunk is the used sentinel.  The proofs work on the list of chunk addresses; the results for
  clients are in \<^verbatim>\<open>FF_Spec\<close>.
\<close>

section \<open>The ring of chunks\<close>

definition lnk :: "chunk_mem \<Rightarrow> u32 \<Rightarrow> u32 \<Rightarrow> bool" where
  "lnk h a b \<longleftrightarrow> ck_next (h a) = b \<and> ck_prev (h b) = a"

definition ring :: "chunk_mem \<Rightarrow> u32 list \<Rightarrow> bool" where
  "ring h cs \<longleftrightarrow> cs \<noteq> [] \<and> successively (lnk h) (cs @ [hd cs])"

lemma lnk_links: "lnk h = links (\<lambda>a. ck_next (h a)) (\<lambda>a. ck_prev (h a))"
  by (auto simp: lnk_def links_def fun_eq_iff)

lemma ring_dring: "ring h = dring (\<lambda>a. ck_next (h a)) (\<lambda>a. ck_prev (h a))"
  by (auto simp: ring_def dring_def lnk_links fun_eq_iff)

lemma ring_rotate: "ring h (xs @ ys) \<Longrightarrow> ys \<noteq> [] \<Longrightarrow> ring h (ys @ xs)"
  unfolding ring_dring by (rule dring_rotate)

lemma ring_next:
  "ring h (xs @ c # d # ys) \<Longrightarrow> ck_next (h c) = d \<and> ck_prev (h d) = c"
  unfolding ring_dring by (rule dring_next)

lemma ring_split:
  "ring h (xs @ c # d # ys) \<longleftrightarrow>
     successively (lnk h) (xs @ [c]) \<and> lnk h c d \<and> successively (lnk h) (d # ys @ [hd (xs @ [c])])"
  unfolding ring_dring lnk_links by (rule dring_split)

lemma ring_insert:
  assumes r: "ring h (xs @ c # d # ys)" and dist: "distinct (xs @ c # n # d # ys)"
    and nx: "\<And>a. a \<in> set xs \<union> {d} \<union> set ys \<Longrightarrow> ck_next (h' a) = ck_next (h a)"
    and pv: "\<And>a. a \<in> set xs \<union> {c} \<union> set ys \<Longrightarrow> ck_prev (h' a) = ck_prev (h a)"
    and new: "lnk h' c n" "lnk h' n d"
  shows "ring h' (xs @ c # n # d # ys)"
  using dring_insert [OF r [unfolded ring_dring] dist nx pv new [unfolded lnk_links]]
  by (simp add: ring_dring)

lemma ring_remove:
  assumes r: "ring h (xs @ c # n # d # ys)" and dist: "distinct (xs @ c # n # d # ys)"
    and nx: "\<And>a. a \<in> set xs \<union> {d} \<union> set ys \<Longrightarrow> ck_next (h' a) = ck_next (h a)"
    and pv: "\<And>a. a \<in> set xs \<union> {c} \<union> set ys \<Longrightarrow> ck_prev (h' a) = ck_prev (h a)"
    and new: "lnk h' c d"
  shows "ring h' (xs @ c # d # ys)"
  using dring_remove [OF r [unfolded ring_dring] dist nx pv new [unfolded lnk_links]]
  by (simp add: ring_dring)

lemma ring_cong:
  assumes "\<And>a. a \<in> set cs \<Longrightarrow> ck_next (h' a) = ck_next (h a) \<and> ck_prev (h' a) = ck_prev (h a)"
  shows "ring h' cs = ring h cs"
  unfolding ring_dring by (rule dring_cong) (rule assms)


section \<open>The heap invariant\<close>

text \<open>
  The chunks in address order: linked into a ring, at least a header apart, every checksum
  right, no two neighbours free, and the last one the used sentinel that
  \<^verbatim>\<open>firstfit_new\<close> puts at the end.
\<close>

definition spaced :: "u32 list \<Rightarrow> bool" where
  "spaced cs \<longleftrightarrow> sorted_wrt (\<lambda>a b. unat a + 12 \<le> unat b) cs"

definition coalesced :: "chunk_mem \<Rightarrow> u32 list \<Rightarrow> bool" where
  "coalesced h cs \<longleftrightarrow> successively (\<lambda>a b. is_used h a \<or> is_used h b) cs"

definition heap_ok :: "chunk_mem \<Rightarrow> u32 list \<Rightarrow> bool" where
  "heap_ok h cs \<longleftrightarrow> ring h cs \<and> spaced cs \<and> (\<forall>c \<in> set cs. check_sum h c) \<and> coalesced h cs \<and> is_used h (last cs)"

definition first_chunk :: "firstfit_allocator \<Rightarrow> u32" where
  "first_chunk a = aligned (startmem a + ALLOC_SIZE + CHUNK_SIZE) - CHUNK_SIZE"

definition ff_wf :: "ff_state \<Rightarrow> u32 list \<Rightarrow> bool" where
  "ff_wf st cs \<longleftrightarrow>
     heap_ok (hdrs st) cs \<and> current (alloc st) \<in> set cs \<and> hd cs = first_chunk (alloc st) \<and>
     unat (startmem (alloc st)) + 20 \<le> unat (hd cs) \<and>
     unat (last cs) + 12 \<le> unat (endmem (alloc st)) \<and> unat (endmem (alloc st)) + 32 \<le> 2 ^ 32"

text \<open>The allocated blocks: address and capacity of every used chunk but the sentinel.\<close>

definition ff_live :: "chunk_mem \<Rightarrow> u32 list \<Rightarrow> (u32 \<times> u32) set" where
  "ff_live h cs = {(chunk_data c, get_size h c) |c. c \<in> set (butlast cs) \<and> is_used h c}"

lemma spaced_distinct: "spaced cs \<Longrightarrow> distinct cs"
  by (induction cs) (auto simp: spaced_def)

lemma spaced_split:
  "spaced (xs @ c # d # ys) \<longleftrightarrow>
     spaced (xs @ [c]) \<and> unat c + 12 \<le> unat d \<and> spaced (d # ys)"
  unfolding spaced_def by (auto simp: sorted_wrt_append intro: order_trans add_le_mono1)
    (meson add_leD1 order_trans)+

lemma spaced_between:
  assumes "spaced (xs @ c # d # ys)" "unat c < unat n" "unat n < unat d"
  shows "n \<notin> set (xs @ c # d # ys)"
  using assms by (fastforce simp: spaced_def sorted_wrt_append)

lemma spaced_le_last: "spaced cs \<Longrightarrow> c \<in> set cs \<Longrightarrow> unat c \<le> unat (last cs)"
  by (induction cs) (auto simp: spaced_def split: if_splits dest: bspec [OF _ last_in_set])

lemma spaced_hd_le: "spaced cs \<Longrightarrow> c \<in> set cs \<Longrightarrow> unat (hd cs) \<le> unat c"
  by (cases cs) (auto simp: spaced_def)

lemma heap_okD:
  assumes "heap_ok h cs"
  shows "ring h cs" "spaced cs" "distinct cs" "cs \<noteq> []" "coalesced h cs" "is_used h (last cs)"
    "\<And>c. c \<in> set cs \<Longrightarrow> check_sum h c"
  using assms spaced_distinct by (auto simp: heap_ok_def ring_def)

lemma ff_wf_bound:
  assumes "ff_wf st cs" "c \<in> set cs"
  shows "unat c + 44 \<le> 2 ^ 32" and "unat (chunk_data c) = unat c + 12"
proof -
  show "unat c + 44 \<le> 2 ^ 32"
    using assms spaced_le_last [of cs c] by (auto simp: ff_wf_def heap_ok_def)
  then show "unat (chunk_data c) = unat c + 12"
    by (simp add: chunk_data_def CHUNK_SIZE_def unat_simps)
qed

lemma ff_wf_keep:
  assumes "ff_wf st cs" "heap_ok (hdrs st') cs'" "current (alloc st') \<in> set cs'"
    and "hd cs' = hd cs" "last cs' = last cs"
    and "startmem (alloc st') = startmem (alloc st)" "endmem (alloc st') = endmem (alloc st)"
  shows "ff_wf st' cs'"
  using assms by (auto simp: ff_wf_def first_chunk_def)

text \<open>The neighbours of a chunk that is not the sentinel.\<close>

lemma chunk_split:
  assumes "c \<in> set cs" "c \<noteq> last cs"
  obtains xs d ys where "cs = xs @ c # d # ys"
proof -
  from split_list [OF assms(1)] obtain xs zs where cs: "cs = xs @ c # zs" by blast
  with assms(2) obtain d ys where "zs = d # ys" by (cases zs) auto
  with cs have "cs = xs @ c # d # ys" by simp
  then show ?thesis by (rule that)
qed

lemma unat_get_size:
  assumes "heap_ok h (xs @ c # d # ys)"
  shows "unat (get_size h c) = unat d - unat c - 12" and "unat c + 12 \<le> unat d"
proof -
  from assms show le: "unat c + 12 \<le> unat d" by (simp add: heap_ok_def spaced_split)
  from assms have "ck_next (h c) = d" using ring_next by (auto simp: heap_ok_def)
  moreover have "unat (d - c) = unat d - unat c" using le by (simp add: unat_simps)
  ultimately show "unat (get_size h c) = unat d - unat c - 12"
    using le by (simp add: get_size_def CHUNK_SIZE_def unat_simps)
qed

lemma unat_aligned:
  assumes "unat a + 15 < 2 ^ 32"
  shows "unat (aligned a) = 16 * ((unat a + 15) div 16)"
proof -
  have m: "(15 :: u32) = mask 4" by (simp add: mask_eq_exp_minus_1)
  have low: "unat (a AND 15) = unat a mod 16" unfolding m by (simp add: unat_mask_and)
  have z: "a AND 15 = 0 \<longleftrightarrow> unat a mod 16 = 0"
    by (simp add: low flip: unat_eq_0)
  have "unat (a AND NOT 15) = unat a - unat a mod 16"
    unfolding word_and_not_self by (simp add: low unat_simps)
  moreover obtain q r where "unat a = 16 * q + r" "r < 16"
    by (metis mod_less_divisor mult_div_mod_eq zero_less_numeral)
  moreover from this have "(unat a + 15) div 16 = (if r = 0 then q else Suc q)" by auto
  ultimately show ?thesis
    using assms z by (auto simp: aligned_def ALIGN_def unat_add_nowrap)
qed

text \<open>The signed comparison of the search never accepts a chunk that is too small.\<close>

lemma sint_le_unat:
  fixes a b :: u32
  assumes "a \<le> INT_MAX" "sint a \<le> sint b"
  shows "unat a \<le> unat b"
proof -
  define m n where mn: "m = unat a" "n = unat b"
  then show ?thesis
    using assms unfolding INT_MAX_def sint_u32 word_le_nat_alt mn [symmetric] by (auto split: if_splits)
qed

section \<open>Allocating a chunk\<close>

lemma coalesced_split:
  "coalesced h (xs @ c # d # ys) \<longleftrightarrow>
     coalesced h (xs @ [c]) \<and> (is_used h c \<or> is_used h d) \<and> coalesced h (d # ys)"
  by (simp add: coalesced_def successively_mid)

lemma coalesced_mono:
  "coalesced h cs \<Longrightarrow> (\<And>a. a \<in> set cs \<Longrightarrow> is_used h a \<Longrightarrow> is_used h' a) \<Longrightarrow> coalesced h' cs"
  unfolding coalesced_def by (induction cs rule: induct_list012) auto

text \<open>A used chunk may stand next to anything.\<close>

lemma coalesced_snoc_used:
  "coalesced h (xs @ [c]) \<Longrightarrow> (\<And>a. a \<in> set xs \<Longrightarrow> is_used h a \<Longrightarrow> is_used h' a) \<Longrightarrow>
   is_used h' c \<Longrightarrow> coalesced h' (xs @ [c])"
  by (erule coalesced_mono) auto

lemma heap_ok_take:
  assumes ok: "heap_ok h (xs @ c # d # ys)"
  shows "heap_ok (set_used h c) (xs @ c # d # ys)"
  using ok unfolding heap_ok_def
  by (auto simp: ring_cong [of _ "set_used h c" h] elim!: coalesced_mono)

definition split_hdrs :: "chunk_mem \<Rightarrow> u32 \<Rightarrow> u32 \<Rightarrow> u32 \<Rightarrow> chunk_mem" where
  "split_hdrs h c n d =
     set_used (set_chunk (set_chunk (set_chunk h n d c False) d (ck_next (h d)) n True) c n (ck_prev (h c)) True) c"

lemma split_hdrs_ops [simp]:
  "ck_next (split_hdrs h c n d a) =
     (if a = c then n else if a = d then ck_next (h d) else if a = n then d else ck_next (h a))"
  "ck_prev (split_hdrs h c n d a) =
     (if a = c then ck_prev (h c) else if a = d then n else if a = n then c else ck_prev (h a))"
  "is_used (split_hdrs h c n d) a = (a = c \<or> a = d \<or> a \<noteq> n \<and> is_used h a)"
  "check_sum (split_hdrs h c n d) a = (a = c \<or> a = d \<or> a = n \<or> check_sum h a)"
  by (auto simp: split_hdrs_def)

lemma heap_ok_split:
  assumes ok: "heap_ok h (xs @ c # d # ys)" and free: "\<not> is_used h c"
    and n: "unat c + 12 \<le> unat n" "unat n + 12 \<le> unat d"
    and h': "h' = split_hdrs h c n d"
  shows "heap_ok h' (xs @ c # n # d # ys)"
proof -
  note okD = heap_okD [OF ok]
  have new: "n \<notin> set (xs @ c # d # ys)" using spaced_between [OF okD(2)] n by simp
  have ud: "is_used h d" using okD(5) free by (simp add: coalesced_split)
  have ne: "n \<noteq> c" "n \<noteq> d" "c \<noteq> d" using new okD(3) by auto
  have "ring h' (xs @ c # n # d # ys)"
    by (rule ring_insert [OF okD(1)]) (use okD(3) new ne in \<open>auto simp: h' lnk_def\<close>)
  moreover have "spaced (xs @ c # n # d # ys)"
    using okD(2) n spaced_split [of xs c n "d # ys"] spaced_split [of xs c d ys] spaced_split [of "[]" n d ys]
    by (simp add: spaced_def)
  moreover have "check_sum h' a" if "a \<in> set (xs @ c # n # d # ys)" for a
    using that okD(7) [of a] by (auto simp: h')
  moreover have "coalesced h' (xs @ c # n # d # ys)"
  proof -
    have "coalesced h' (xs @ [c])" "coalesced h' (d # ys)"
      using okD(5) new by (auto simp: coalesced_split h' ud elim!: coalesced_mono)
    moreover have "is_used h' c" "is_used h' d" by (simp_all add: h')
    ultimately show ?thesis
      using coalesced_split [of h' xs c n "d # ys"] coalesced_split [of h' "[]" n d ys]
      by (simp add: coalesced_def [of h' "[n]"])
  qed
  moreover have "is_used h' (last (xs @ c # n # d # ys))"
    using okD(6) ne new by (auto simp: h' split: if_splits)
  ultimately show ?thesis by (simp add: heap_ok_def)
qed

lemma ff_live_split:
  assumes "distinct (xs @ c # n # d # ys)" "\<not> is_used h c" "is_used h d"
    and h': "h' = split_hdrs h c n d"
  shows "ff_live h' (xs @ c # n # d # ys) =
    insert (chunk_data c, get_size h' c) (ff_live h (xs @ c # d # ys))"
proof -
  have same: "get_size h' a = get_size h a" "is_used h' a = is_used h a"
    if "a \<in> set (xs @ butlast (d # ys))" for a
    using that assms by (auto simp: get_size_def h' dest: in_set_butlastD split: if_splits)
  have "is_used h' c" "\<not> is_used h' n" using assms by (auto simp: h')
  then show ?thesis
    using same assms(2) unfolding ff_live_def by (auto simp: butlast_append)
qed

text \<open>Where \<^const>\<open>ff_take\<close> puts the rest of a chunk, and when there is room for it.\<close>

definition rest_chunk :: "u32 \<Rightarrow> u32 \<Rightarrow> u32" where
  "rest_chunk sz c = c + aligned (sz + 12)"

lemma rest_chunk:
  assumes "unat c + 12 + unat sz + 44 \<le> 2 ^ 32"
  shows "unat c + 12 + unat sz \<le> unat (rest_chunk sz c)"
    and "unat (rest_chunk sz c) < unat c + unat sz + 28"
    and "unat (chunk_data (rest_chunk sz c) + 4) = unat (rest_chunk sz c) + 16"
    and "chunk_data c + (aligned (sz + CHUNK_SIZE) - CHUNK_SIZE) = rest_chunk sz c"
    and "unat (rest_chunk sz c) mod 16 = unat c mod 16"
proof -
  have s: "unat (sz + 12) = unat sz + 12" using assms by (simp add: unat_add_nowrap)
  define A where "A = unat (aligned (sz + 12))"
  have A: "unat sz + 12 \<le> A" "A < unat sz + 28"
    using unat_aligned [of "sz + 12"] assms by (simp_all add: A_def s)
  then have n: "unat (rest_chunk sz c) = unat c + A"
    using assms by (simp add: rest_chunk_def A_def unat_add_nowrap)
  show "unat c + 12 + unat sz \<le> unat (rest_chunk sz c)" "unat (rest_chunk sz c) < unat c + unat sz + 28"
    using A by (simp_all add: n)
  show "unat (chunk_data (rest_chunk sz c) + 4) = unat (rest_chunk sz c) + 16"
    using A assms by (simp add: n chunk_data_def CHUNK_SIZE_def unat_add_nowrap)
  show "chunk_data c + (aligned (sz + CHUNK_SIZE) - CHUNK_SIZE) = rest_chunk sz c"
    by (simp add: chunk_data_def rest_chunk_def CHUNK_SIZE_def)
  have "A mod 16 = 0" using unat_aligned [of "sz + 12"] assms by (simp add: A_def s)
  then show "unat (rest_chunk sz c) mod 16 = unat c mod 16"
    unfolding n using mod_add_right_eq [of "unat c" A 16] by simp
qed

lemma ff_take_eq:
  assumes "ck_next (hdrs st c) = d" "d \<noteq> n" "n \<noteq> c" "c \<noteq> d"
    and n: "chunk_data c + (aligned (sz + CHUNK_SIZE) - CHUNK_SIZE) = n"
  shows "ff_take sz st c =
    (chunk_data c,
     st\<lparr>hdrs := (if chunk_data n + 4 \<le> d then split_hdrs (hdrs st) c n d else set_used (hdrs st) c),
        alloc := (alloc st)\<lparr>current := (if chunk_data n + 4 \<le> d then n else d),
                            n_malloc := n_malloc (alloc st) + 1\<rparr>\<rparr>)"
  using assms(1-4) unfolding ff_take_def Let_def n split_hdrs_def by (simp only: assms(1)) (simp add: assms(1))

text \<open>\<^const>\<open>ff_take\<close> on a free chunk that is large enough.\<close>

lemma ff_take_fits:
  assumes wf: "ff_wf st (xs @ c # d # ys)" and free: "\<not> is_used (hdrs st) c"
    and sz: "unat sz \<le> unat (get_size (hdrs st) c)"
    and take: "ff_take sz st c = (p, st')"
  obtains cs' where "ff_wf st' cs'" "p = chunk_data c" "unat sz \<le> unat (get_size (hdrs st') c)"
    "c \<in> set (butlast cs')" "is_used (hdrs st') c"
    "ff_live (hdrs st') cs' = insert (p, get_size (hdrs st') c) (ff_live (hdrs st) (xs @ c # d # ys))"
    "startmem (alloc st') = startmem (alloc st)" "endmem (alloc st') = endmem (alloc st)"
    "set cs' \<subseteq> insert (rest_chunk sz c) (set (xs @ c # d # ys))" "bytes st' = bytes st"
proof -
  let ?h = "hdrs st" and ?n = "rest_chunk sz c"
  have ok: "heap_ok ?h (xs @ c # d # ys)" using wf by (simp add: ff_wf_def)
  note okD = heap_okD [OF ok] and gs = unat_get_size [OF ok]
  have ud: "is_used ?h d" using okD(5) free by (simp add: coalesced_split)
  have "unat c + 12 + unat sz + 44 \<le> 2 ^ 32" using ff_wf_bound(1) [OF wf, of d] sz gs by simp
  note n = rest_chunk [OF this]
  have le: "chunk_data ?n + 4 \<le> d \<longleftrightarrow> unat ?n + 16 \<le> unat d" by (simp only: word_le_nat_alt n(3))
  show ?thesis
  proof (cases "unat ?n + 16 \<le> unat d")
    case True
    have new: "?n \<notin> set (xs @ c # d # ys)" using spaced_between [OF okD(2)] n(1) True by simp
    then have ne: "d \<noteq> ?n" "?n \<noteq> c" "c \<noteq> d" using okD(3) by auto
    have eq: "ff_take sz st c = (chunk_data c, st\<lparr>hdrs := split_hdrs ?h c ?n d,
        alloc := (alloc st)\<lparr>current := ?n, n_malloc := n_malloc (alloc st) + 1\<rparr>\<rparr>)"
      using ff_take_eq [OF _ ne n(4)] ring_next [OF okD(1)] le True by simp
    have ok': "heap_ok (split_hdrs ?h c ?n d) (xs @ c # ?n # d # ys)"
      by (rule heap_ok_split [OF ok free]) (use n True in auto)
    have live: "ff_live (split_hdrs ?h c ?n d) (xs @ c # ?n # d # ys) =
        insert (chunk_data c, get_size (split_hdrs ?h c ?n d) c) (ff_live ?h (xs @ c # d # ys))"
      by (rule ff_live_split [OF _ free ud refl]) (use okD(3) new in auto)
    have st': "p = chunk_data c" "st' = st\<lparr>hdrs := split_hdrs ?h c ?n d,
        alloc := (alloc st)\<lparr>current := ?n, n_malloc := n_malloc (alloc st) + 1\<rparr>\<rparr>"
      using take eq by simp_all
    have wf': "ff_wf st' (xs @ c # ?n # d # ys)"
      by (rule ff_wf_keep [OF wf]) (use ok' in \<open>simp_all add: st' hd_append\<close>)
    show ?thesis
      by (rule that [OF wf' st'(1)])
        (use live n(1) unat_get_size(1) [OF ok'] in \<open>auto simp: st' butlast_append\<close>)
  next
    case False
    have eq: "ff_take sz st c = (chunk_data c, st\<lparr>hdrs := set_used ?h c,
        alloc := (alloc st)\<lparr>current := d, n_malloc := n_malloc (alloc st) + 1\<rparr>\<rparr>)"
      using ring_next [OF okD(1)] le False n(4) by (simp add: ff_take_def Let_def)
    have live: "ff_live (set_used ?h c) (xs @ c # d # ys) =
        insert (chunk_data c, get_size ?h c) (ff_live ?h (xs @ c # d # ys))"
      using okD(3) by (auto simp: ff_live_def get_size_def butlast_append)
    have st': "p = chunk_data c" "st' = st\<lparr>hdrs := set_used ?h c,
        alloc := (alloc st)\<lparr>current := d, n_malloc := n_malloc (alloc st) + 1\<rparr>\<rparr>"
      using take eq by simp_all
    have wf': "ff_wf st' (xs @ c # d # ys)"
      by (rule ff_wf_keep [OF wf]) (use heap_ok_take [OF ok] in \<open>simp_all add: st'\<close>)
    show ?thesis
      by (rule that [OF wf' st'(1)])
        (use live sz in \<open>auto simp: st' butlast_append get_size_def\<close>)
  qed
qed

section \<open>The search\<close>

definition fits :: "u32 \<Rightarrow> chunk_mem \<Rightarrow> u32 \<Rightarrow> bool" where
  "fits sz h c \<longleftrightarrow> \<not> is_used h c \<and> sint sz \<le> sint (get_size h c)"

text \<open>
  On a good ring the search loop returns, and it takes the first chunk that fits, in ring order
  from the chunk it starts with.
\<close>

lemma malloc_loop_find:
  assumes "ring (hdrs st) (us @ c # ds)" "distinct (us @ c # ds)" "hd (us @ [c]) = current (alloc st)"
    and "\<forall>a \<in> set (us @ c # ds). check_sum (hdrs st) a"
  shows "malloc_loop sz st c =
    Some (case find (fits sz (hdrs st)) (c # ds) of None \<Rightarrow> (0, st) | Some k \<Rightarrow> ff_take sz st k)"
  using assms
proof (induction ds arbitrary: us c)
  case Nil
  have hd: "hd (us @ [c]) \<in> set (us @ [c])" by (cases us) auto
  have "ck_next (hdrs st c) = hd (us @ [c])"
    using Nil.prems(1) successively_mid [of "lnk (hdrs st)" us c "hd (us @ [c])" "[]"]
    by (simp add: ring_def lnk_def)
  then show ?case
    using Nil.prems hd by (subst malloc_loop.simps) (auto simp: fits_def)
next
  case (Cons d ds)
  have nx: "ck_next (hdrs st c) = d" using ring_next Cons.prems(1) by blast
  have "d \<noteq> current (alloc st)" using Cons.prems(2,3) by (cases us) auto
  moreover have "malloc_loop sz st d =
      Some (case find (fits sz (hdrs st)) (d # ds) of None \<Rightarrow> (0, st) | Some k \<Rightarrow> ff_take sz st k)"
    by (rule Cons.IH [of "us @ [c]"]) (use Cons.prems in \<open>auto simp: hd_append\<close>)
  ultimately show ?case
    using Cons.prems(4) nx by (subst malloc_loop.simps) (auto simp: fits_def)
qed

definition ring_from :: "u32 \<Rightarrow> u32 list \<Rightarrow> u32 list" where
  "ring_from c cs = dropWhile (\<lambda>a. a \<noteq> c) cs @ takeWhile (\<lambda>a. a \<noteq> c) cs"

lemma ring_from_eq: "c \<notin> set us \<Longrightarrow> ring_from c (us @ c # vs) = c # vs @ us"
  unfolding ring_from_def by (subst dropWhile_append2, auto, subst takeWhile_append2, auto)

lemma set_ring_from [simp]: "set (ring_from c cs) = set cs"
  unfolding ring_from_def set_append by (subst Un_commute) (simp flip: set_append)

lemma malloc_search:
  assumes ok: "heap_ok (hdrs st) cs" and cur: "current (alloc st) \<in> set cs"
  shows "malloc_loop sz st (current (alloc st)) =
    Some (case find (fits sz (hdrs st)) (ring_from (current (alloc st)) cs) of
            None \<Rightarrow> (0, st) | Some k \<Rightarrow> ff_take sz st k)"
proof -
  let ?c = "current (alloc st)"
  note okD = heap_okD [OF ok]
  obtain us vs where cs: "cs = us @ ?c # vs" "?c \<notin> set us" using split_list_first [OF cur] by blast
  have "ring (hdrs st) (?c # vs @ us)" using ring_rotate [of "hdrs st" us "?c # vs"] okD(1) cs by simp
  moreover have "distinct (?c # vs @ us)" using okD(3) cs by auto
  moreover have "\<forall>a \<in> set (?c # vs @ us). check_sum (hdrs st) a" using okD(7) cs by auto
  ultimately show ?thesis
    using malloc_loop_find [of st "[]" ?c "vs @ us"] ring_from_eq [OF cs(2), of vs] cs(1) by simp
qed

lemma chunk_data_inject [simp]: "chunk_data a = chunk_data b \<longleftrightarrow> a = b"
  by (simp add: chunk_data_def)

lemma chunk_data_pos: "ff_wf st cs \<Longrightarrow> c \<in> set cs \<Longrightarrow> chunk_data c \<noteq> 0"
  using ff_wf_bound(2) [of st cs c] by (metis add_is_0 unat_0 zero_neq_numeral)

lemma firstfit_malloc_cases:
  assumes wf: "ff_wf st cs"
  obtains (none) "firstfit_malloc st sz = Some (0, st)"
      "sz = 0 \<or> INT_MAX < sz \<or> (\<forall>c \<in> set cs. \<not> fits sz (hdrs st) c)"
  | (some) c st' cs' where "firstfit_malloc st sz = Some (chunk_data c, st')" "ff_wf st' cs'"
      "c \<in> set (butlast cs)" "\<not> is_used (hdrs st) c" "c \<in> set (butlast cs')" "is_used (hdrs st') c"
      "unat sz \<le> unat (get_size (hdrs st') c)"
      "ff_live (hdrs st') cs' = insert (chunk_data c, get_size (hdrs st') c) (ff_live (hdrs st) cs)"
      "set cs' \<subseteq> insert (rest_chunk sz c) (set cs)" "bytes st' = bytes st"
proof (cases "sz = 0 \<or> INT_MAX < sz")
  case True
  then show ?thesis by (intro none) (auto simp: firstfit_malloc_def)
next
  case False
  from wf have ok: "heap_ok (hdrs st) cs" and cur: "current (alloc st) \<in> set cs" by (auto simp: ff_wf_def)
  note search = malloc_search [OF ok cur, of sz]
  show ?thesis
  proof (cases "find (fits sz (hdrs st)) (ring_from (current (alloc st)) cs)")
    case None
    then have "\<forall>c \<in> set cs. \<not> fits sz (hdrs st) c" by (simp add: find_None_iff)
    with None show ?thesis
      using False search by (intro none) (simp_all add: firstfit_malloc_def)
  next
    case (Some k)
    then have k: "k \<in> set cs" "fits sz (hdrs st) k"
      by (auto simp: find_Some_iff) (metis nth_mem set_ring_from)
    then have "k \<noteq> last cs" using heap_okD(6) [OF ok] by (auto simp: fits_def)
    then obtain xs d ys where cs: "cs = xs @ k # d # ys" using chunk_split k(1) by metis
    have fit: "\<not> is_used (hdrs st) k" "unat sz \<le> unat (get_size (hdrs st) k)"
      using k(2) False sint_le_unat by (auto simp: fits_def not_less)
    obtain p st' where take: "ff_take sz st k = (p, st')" by fastforce
    have m: "firstfit_malloc st sz = Some (p, st')"
      using False search Some take by (simp add: firstfit_malloc_def)
    obtain cs' where cs': "ff_wf st' cs'" "p = chunk_data k" "unat sz \<le> unat (get_size (hdrs st') k)"
      "k \<in> set (butlast cs')" "is_used (hdrs st') k"
      "ff_live (hdrs st') cs' = insert (p, get_size (hdrs st') k) (ff_live (hdrs st) (xs @ k # d # ys))"
      "set cs' \<subseteq> insert (rest_chunk sz k) (set (xs @ k # d # ys))" "bytes st' = bytes st"
      by (rule ff_take_fits [OF wf [unfolded cs] fit take])
    then show ?thesis using m fit by (intro some [of k st' cs']) (auto simp: cs butlast_append)
  qed
qed

lemma ff_liveE:
  assumes "heap_ok (hdrs st) cs" "(p, n) \<in> ff_live (hdrs st) cs"
  obtains xs c d ys where "cs = xs @ c # d # ys" "p = chunk_data c" "n = get_size (hdrs st) c"
    "is_used (hdrs st) c"
proof -
  from assms(2) obtain c where c: "c \<in> set (butlast cs)" "p = chunk_data c" "n = get_size (hdrs st) c"
      "is_used (hdrs st) c"
    by (auto simp: ff_live_def)
  moreover have "c \<in> set cs" "c \<noteq> last cs"
    using c(1) heap_okD(3) [OF assms(1)] by (auto simp: in_set_butlastD dest: butlast_not_last)
  ultimately show ?thesis using that by (metis chunk_split)
qed

text \<open>The blocks in use lie inside the managed area and do not overlap.\<close>

lemma ff_live_bounds:
  assumes wf: "ff_wf st cs" and l: "(p, n) \<in> ff_live (hdrs st) cs"
  shows "unat (startmem (alloc st)) + 32 \<le> unat p" "unat p + unat n + 12 \<le> unat (endmem (alloc st))"
    "p \<noteq> 0"
proof -
  have ok: "heap_ok (hdrs st) cs" using wf by (simp add: ff_wf_def)
  obtain xs c d ys where c: "cs = xs @ c # d # ys" "p = chunk_data c" "n = get_size (hdrs st) c"
    by (rule ff_liveE [OF ok l])
  then have mem: "c \<in> set cs" by simp
  have "unat (hd cs) \<le> unat c" "unat d \<le> unat (last cs)"
    using spaced_hd_le [of cs c] spaced_le_last [of cs d] heap_okD(2) [OF ok] c(1) by simp_all
  then show "unat (startmem (alloc st)) + 32 \<le> unat p" "unat p + unat n + 12 \<le> unat (endmem (alloc st))"
    using wf unat_get_size [OF ok [unfolded c(1)]] ff_wf_bound(2) [OF wf mem] c(2,3)
    by (auto simp: ff_wf_def)
  show "p \<noteq> 0" using chunk_data_pos [OF wf] c(2) mem by simp
qed

lemma ff_live_disjoint:
  assumes wf: "ff_wf st cs" and l: "(p, n) \<in> ff_live (hdrs st) cs" "(q, m) \<in> ff_live (hdrs st) cs"
    and ne: "(p, n) \<noteq> (q, m)"
  shows "unat p + unat n \<le> unat q \<or> unat q + unat m \<le> unat p"
proof -
  have ok: "heap_ok (hdrs st) cs" using wf by (simp add: ff_wf_def)
  have before: "unat p + unat n \<le> unat q"
    if c: "cs = xs @ c # d # ys" "p = chunk_data c" "n = get_size (hdrs st) c"
      and e: "q = chunk_data e" "e \<in> set cs" "unat c < unat e" for p n q c d e xs ys
  proof -
    have "unat d \<le> unat e" using heap_okD(2) [OF ok] c(1) e(2,3) by (auto simp: spaced_def sorted_wrt_append)
    then show ?thesis
      using unat_get_size [OF ok [unfolded c(1)]] ff_wf_bound(2) [OF wf] c e by auto
  qed
  obtain xs c d ys where c: "cs = xs @ c # d # ys" "p = chunk_data c" "n = get_size (hdrs st) c"
    by (rule ff_liveE [OF ok l(1)])
  obtain us e f vs where e: "cs = us @ e # f # vs" "q = chunk_data e" "m = get_size (hdrs st) e"
    by (rule ff_liveE [OF ok l(2)])
  have "c \<noteq> e" using ne c e by auto
  then have "unat c < unat e \<or> unat e < unat c" by (simp add: nat_neq_iff word_unat_eq_iff)
  moreover have "c \<in> set cs" using c(1) by simp
  moreover have "e \<in> set cs" using e(1) by simp
  ultimately show ?thesis using before [OF c e(2)] before [OF e c(2)] by blast
qed

section \<open>Freeing a chunk\<close>

text \<open>The invariant without coalescing, which holds between the two merges of \<^verbatim>\<open>firstfit_free\<close>.\<close>

definition heap_links :: "chunk_mem \<Rightarrow> u32 list \<Rightarrow> bool" where
  "heap_links h cs \<longleftrightarrow> ring h cs \<and> spaced cs \<and> (\<forall>c \<in> set cs. check_sum h c) \<and> is_used h (last cs)"

lemma heap_ok_links: "heap_ok h cs \<longleftrightarrow> heap_links h cs \<and> coalesced h cs"
  by (auto simp: heap_ok_def heap_links_def)

definition merge_hdrs :: "chunk_mem \<Rightarrow> u32 \<Rightarrow> u32 \<Rightarrow> u32 \<Rightarrow> chunk_mem" where
  "merge_hdrs h c n d = erase (set_prev (set_next h c d) d c) n"

lemma merge_hdrs_ops [simp]:
  "ck_next (merge_hdrs h c n d a) = (if a = c then d else ck_next (h a))"
  "ck_prev (merge_hdrs h c n d a) = (if a = d then c else ck_prev (h a))"
  "is_used (merge_hdrs h c n d) a = (a \<noteq> n \<and> is_used h a)"
  "a \<noteq> n \<Longrightarrow> check_sum (merge_hdrs h c n d) a = (a = c \<or> check_sum h a)"
  by (auto simp: merge_hdrs_def)

lemma heap_links_merge:
  assumes l: "heap_links h (xs @ c # n # d # ys)"
  shows "heap_links (merge_hdrs h c n d) (xs @ c # d # ys)"
proof -
  have sp: "spaced (xs @ c # n # d # ys)" and r: "ring h (xs @ c # n # d # ys)"
    using l by (auto simp: heap_links_def)
  note dist = spaced_distinct [OF sp]
  have "ring (merge_hdrs h c n d) (xs @ c # d # ys)"
    by (rule ring_remove [OF r dist]) (use dist in \<open>auto simp: lnk_def\<close>)
  moreover have "spaced (xs @ c # d # ys)"
    using sp by (auto simp: spaced_def sorted_wrt_append)
  moreover have "check_sum (merge_hdrs h c n d) a" if "a \<in> set (xs @ c # d # ys)" for a
    using that l dist by (subst merge_hdrs_ops) (auto simp: heap_links_def)
  moreover have "is_used (merge_hdrs h c n d) (last (xs @ c # d # ys))"
    using l dist by (auto simp: heap_links_def)
  ultimately show ?thesis by (simp add: heap_links_def)
qed

lemma coalesced_join:
  assumes "coalesced h us" "us \<noteq> [] \<Longrightarrow> is_used h (last us)" "coalesced h (d # ys)" "is_used h d"
  shows "coalesced h (us @ x # d # ys)"
  using assms by (auto simp: coalesced_def successively_append_iff)

lemma coalesced_parts:
  assumes "coalesced h (xs @ c # d # ys)"
  shows "coalesced h xs" "coalesced h (d # ys)"
  using assms by (auto simp: coalesced_def successively_append_iff)

lemma ff_live_remove:
  assumes "{a \<in> set (butlast cs'). is_used h' a} = {a \<in> set (butlast cs). is_used h a} - {c}"
    and "\<And>a. a \<in> set (butlast cs') \<Longrightarrow> is_used h' a \<Longrightarrow> ck_next (h' a) = ck_next (h a)"
    and "n = get_size h c"
  shows "ff_live h' cs' = ff_live h cs - {(chunk_data c, n)}"
proof -
  let ?f = "\<lambda>h a. (chunk_data a, get_size h a)"
  have live: "ff_live g ds = ?f g ` {a \<in> set (butlast ds). is_used g a}" for g ds
    by (auto simp: ff_live_def)
  have "ff_live h' cs' = ?f h ` {a \<in> set (butlast cs'). is_used h' a}"
    unfolding live by (rule image_cong) (use assms(2) in \<open>auto simp: get_size_def\<close>)
  also have "\<dots> = ff_live h cs - {?f h c}"
    unfolding live assms(1) by auto
  finally show ?thesis using assms(3) by simp
qed

text \<open>The first merge: with a free successor, which is never the sentinel.\<close>

definition merge_next :: "chunk_mem \<Rightarrow> u32 \<Rightarrow> chunk_mem \<times> u32" where
  "merge_next h c =
     (let d = ck_next (h c) in
      if is_used h d then (h, d) else (merge_hdrs h c d (ck_next (h d)), ck_next (h d)))"

lemma merge_next:
  assumes l: "heap_links h (xs @ c # d # ys)" and co: "coalesced h (d # ys)"
    and m: "merge_next h c = (h', d')"
  obtains ys' where "heap_links h' (xs @ c # d' # ys')" "coalesced h' (d' # ys')" "is_used h' d'"
    "\<forall>a \<in> set (xs @ c # d' # ys'). is_used h' a = is_used h a"
    "\<forall>a. a \<noteq> c \<longrightarrow> ck_next (h' a) = ck_next (h a)"
    "{a \<in> set (butlast (xs @ c # d' # ys')). is_used h a} = {a \<in> set (butlast (xs @ c # d # ys)). is_used h a}"
    "last (xs @ c # d' # ys') = last (xs @ c # d # ys)" "set (d' # ys') \<subseteq> set (d # ys)"
proof (cases "is_used h d")
  case True
  have "ck_next (h c) = d" using l ring_next by (auto simp: heap_links_def)
  with m True have "h' = h" "d' = d" by (auto simp: merge_next_def)
  with True l co show ?thesis by (intro that [of ys]) auto
next
  case False
  then obtain e zs where ys: "ys = e # zs" using l by (cases ys) (auto simp: heap_links_def)
  have sp: "spaced (xs @ c # d # e # zs)" and r: "ring h (xs @ c # d # e # zs)"
    using l by (auto simp: heap_links_def ys)
  have nx: "ck_next (h c) = d" "ck_next (h d) = e"
    using ring_next [OF r] ring_next [of h "xs @ [c]" d e zs] r by auto
  with m False have h': "h' = merge_hdrs h c d e" "d' = e" by (auto simp: merge_next_def)
  have e: "is_used h e" "coalesced h (e # zs)" using co False by (auto simp: ys coalesced_def)
  have dist: "distinct (xs @ c # d # e # zs)" using spaced_distinct [OF sp] .
  have "coalesced h' (e # zs)" using e(2) by (rule coalesced_mono) (use dist h' in auto)
  moreover have "heap_links h' (xs @ c # e # zs)"
    using heap_links_merge [of h xs c d e zs] l by (simp add: ys h')
  ultimately show ?thesis
    using e dist False by (intro that [of zs]) (auto simp: h' ys butlast_append split: if_splits)
qed

text \<open>The second merge: into a free predecessor.  The predecessor of the first chunk is the
  sentinel, which is used.\<close>

definition merge_prev :: "chunk_mem \<Rightarrow> u32 \<Rightarrow> u32 \<Rightarrow> chunk_mem \<times> u32" where
  "merge_prev h c d =
     (let b = ck_prev (h c) in if is_used h b then (h, c) else (merge_hdrs h b c d, b))"

lemma ring_prev_hd: "ring h (c # ys) \<Longrightarrow> ck_prev (h c) = last (c # ys)"
  unfolding ring_dring by (rule dring_prev_hd)

lemma merge_prev:
  assumes l: "heap_links h (xs @ c # d # ys)" and free: "\<not> is_used h c" and d: "is_used h d"
    and co: "coalesced h xs" "coalesced h (d # ys)"
    and m: "merge_prev h c d = (h', c')"
  obtains cs' where "heap_ok h' cs'" "c' \<in> set cs'" "hd cs' = hd (xs @ [c])"
    "last cs' = last (d # ys)"
    "{a \<in> set (butlast cs'). is_used h' a} = {a \<in> set (butlast (xs @ c # d # ys)). is_used h a}"
    "\<forall>a. is_used h a \<longrightarrow> ck_next (h' a) = ck_next (h a)" "set cs' \<subseteq> set (xs @ c # d # ys)"
proof (cases xs rule: rev_cases)
  case Nil
  have "ck_prev (h c) = last (d # ys)" using ring_prev_hd [of h c "d # ys"] l Nil by (simp add: heap_links_def)
  with m l Nil have "h' = h" "c' = c" by (auto simp: merge_prev_def heap_links_def)
  moreover have "heap_ok h (c # d # ys)" using l co d Nil by (auto simp: heap_ok_links coalesced_def)
  ultimately show ?thesis using Nil by (intro that [of "c # d # ys"]) auto
next
  case (snoc ws b)
  have r: "ring h (ws @ b # c # d # ys)" and sp: "spaced (ws @ b # c # d # ys)"
    using l snoc by (auto simp: heap_links_def)
  have b: "ck_prev (h c) = b" using ring_next [OF r] by simp
  have hd: "hd (xs @ [c]) = hd (ws @ [b])" by (simp add: snoc hd_append)
  show ?thesis
  proof (cases "is_used h b")
    case True
    with m b have h': "h' = h" "c' = c" by (auto simp: merge_prev_def)
    have "heap_ok h (xs @ c # d # ys)"
      using coalesced_join [OF co(1) _ co(2) d] l True snoc by (simp add: heap_ok_links)
    with h' show ?thesis by (intro that [of "xs @ c # d # ys"]) (auto simp: hd_append)
  next
    case False
    with m b have h': "h' = merge_hdrs h b c d" "c' = b" by (auto simp: merge_prev_def)
    note dist = spaced_distinct [OF sp]
    have lk: "heap_links h' (ws @ b # d # ys)" using heap_links_merge [of h ws b c d ys] l snoc h' by simp
    have "coalesced h ws" "ws \<noteq> [] \<Longrightarrow> is_used h (last ws)"
      using co(1) snoc False by (auto simp: coalesced_def successively_append_iff)
    moreover from this(1) have "coalesced h' ws" by (rule coalesced_mono) (use dist h' in auto)
    moreover have "coalesced h' (d # ys)" using co(2) by (rule coalesced_mono) (use dist h' in auto)
    ultimately have "coalesced h' (ws @ b # d # ys)"
      using dist d h' by (intro coalesced_join) auto
    with lk have "heap_ok h' (ws @ b # d # ys)" by (simp add: heap_ok_links)
    then show ?thesis
      using dist False free hd snoc
      by (intro that [of "ws @ b # d # ys"]) (auto simp: h' hd_append butlast_append split: if_splits)
  qed
qed

lemma firstfit_free_eq:
  assumes "p \<noteq> 0" "check_sum (hdrs st) (p - CHUNK_SIZE)"
    and "merge_next (set_free (hdrs st) (p - CHUNK_SIZE)) (p - CHUNK_SIZE) = (h1, d)"
    and "merge_prev h1 (p - CHUNK_SIZE) d = (h2, c)"
  shows "firstfit_free st p =
    st\<lparr>hdrs := h2, alloc := (alloc st)\<lparr>current := c, n_free := n_free (alloc st) + 1\<rparr>\<rparr>"
proof -
  let ?c = "p - CHUNK_SIZE"
  let ?h0 = "set_free (hdrs st) ?c"
  have 1: "(if \<not> is_used ?h0 (ck_next (?h0 ?c))
            then (merge_hdrs ?h0 ?c (ck_next (?h0 ?c)) (ck_next (?h0 (ck_next (?h0 ?c)))),
                  ck_next (?h0 (ck_next (?h0 ?c))))
            else (?h0, ck_next (?h0 ?c))) = (h1, d)"
    using assms(3) unfolding merge_next_def Let_def by (auto simp only: split: if_splits)
  have 2: "(if \<not> is_used h1 (ck_prev (h1 ?c)) then (merge_hdrs h1 (ck_prev (h1 ?c)) ?c d, ck_prev (h1 ?c))
            else (h1, ?c)) = (h2, c)"
    using assms(4) unfolding merge_prev_def Let_def by (auto simp only: split: if_splits)
  show ?thesis
    unfolding firstfit_free_def Let_def merge_hdrs_def [symmetric] 1
    unfolding prod.case 2 using assms(1,2) by simp
qed

lemma firstfit_free_live:
  assumes wf: "ff_wf st cs" and l: "(p, n) \<in> ff_live (hdrs st) cs"
  obtains cs' where "ff_wf (firstfit_free st p) cs'" "set cs' \<subseteq> set cs"
    "ff_live (hdrs (firstfit_free st p)) cs' = ff_live (hdrs st) cs - {(p, n)}"
    "bytes (firstfit_free st p) = bytes st"
proof -
  let ?h = "hdrs st"
  have ok: "heap_ok ?h cs" using wf by (simp add: ff_wf_def)
  obtain xs c d ys where c: "cs = xs @ c # d # ys" "p = chunk_data c" "n = get_size ?h c" "is_used ?h c"
    by (rule ff_liveE [OF ok l])
  note okD = heap_okD [OF ok]
  note dist = okD(3) [unfolded c(1)]
  have p: "p - CHUNK_SIZE = c" using c(2) by (simp add: chunk_data_def)
  have h0: "heap_links (set_free ?h c) (xs @ c # d # ys)"
    using ok dist unfolding c(1) heap_ok_def heap_links_def
    by (auto simp: ring_cong [of _ "set_free ?h c" ?h] split: if_splits)
  have co: "coalesced (set_free ?h c) (d # ys)" "coalesced (set_free ?h c) xs"
    using coalesced_mono [OF coalesced_parts(2), of ?h xs c d ys "set_free ?h c"]
      coalesced_mono [OF coalesced_parts(1), of ?h xs c d ys "set_free ?h c"] okD(5) dist
    unfolding c(1) by auto
  obtain h1 d' where m1: "merge_next (set_free ?h c) c = (h1, d')" by fastforce
  obtain h2 c' where m2: "merge_prev h1 c d' = (h2, c')" by fastforce
  obtain ys' where 1: "heap_links h1 (xs @ c # d' # ys')" "coalesced h1 (d' # ys')" "is_used h1 d'"
    "\<forall>a \<in> set (xs @ c # d' # ys'). is_used h1 a = is_used (set_free ?h c) a"
    "\<forall>a. a \<noteq> c \<longrightarrow> ck_next (h1 a) = ck_next (set_free ?h c a)"
    "{a \<in> set (butlast (xs @ c # d' # ys')). is_used (set_free ?h c) a}
       = {a \<in> set (butlast (xs @ c # d # ys)). is_used (set_free ?h c) a}"
    "last (xs @ c # d' # ys') = last (xs @ c # d # ys)" "set (d' # ys') \<subseteq> set (d # ys)"
    by (rule merge_next [OF h0 co(1) m1])
  have nc: "\<not> is_used h1 c" using 1(4) by simp
  have "coalesced h1 xs" using co(2) by (rule coalesced_mono) (use 1(4) in auto)
  then obtain cs' where 2: "heap_ok h2 cs'" "c' \<in> set cs'" "hd cs' = hd (xs @ [c])" "last cs' = last (d' # ys')"
    "{a \<in> set (butlast cs'). is_used h2 a} = {a \<in> set (butlast (xs @ c # d' # ys')). is_used h1 a}"
    "\<forall>a. is_used h1 a \<longrightarrow> ck_next (h2 a) = ck_next (h1 a)" "set cs' \<subseteq> set (xs @ c # d' # ys')"
    by (rule merge_prev [OF 1(1) nc 1(3) _ 1(2) m2])
  have eq: "firstfit_free st p =
      st\<lparr>hdrs := h2, alloc := (alloc st)\<lparr>current := c', n_free := n_free (alloc st) + 1\<rparr>\<rparr>"
    by (rule firstfit_free_eq) (use ff_live_bounds(3) [OF wf l] okD(7) [of c] c(1) m1 m2 p in auto)
  have used: "{a \<in> set (butlast cs'). is_used h2 a} = {a \<in> set (butlast cs). is_used ?h a} - {c}"
  proof -
    have "{a \<in> set (butlast (xs @ c # d' # ys')). is_used h1 a}
        = {a \<in> set (butlast (xs @ c # d' # ys')). is_used (set_free ?h c) a}"
      using 1(4) by (blast dest: in_set_butlastD)
    then show ?thesis unfolding 2(5) 1(6) c(1) by auto
  qed
  have "ck_next (h2 a) = ck_next (?h a)" if "a \<in> set (butlast cs')" "is_used h2 a" for a
  proof -
    have "is_used h1 a" using 2(5) that by blast
    with nc 1(5) 2(6) show ?thesis by auto
  qed
  then have "ff_live h2 cs' = ff_live ?h cs - {(p, n)}"
    unfolding c(2) by (intro ff_live_remove [OF used]) (use c(3) in auto)
  moreover have "ff_wf (firstfit_free st p) cs'"
    by (rule ff_wf_keep [OF wf]) (use 2 1(7) in \<open>auto simp: eq c(1) hd_append\<close>)
  moreover have "set cs' \<subseteq> set cs" using 2(7) 1(8) c(1) by auto
  ultimately show ?thesis by (intro that [of cs']) (simp_all add: eq)
qed

section \<open>Resizing a chunk\<close>

lemma relink_ops [simp]:
  "ck_next (relink h c n e a) = (if a = n then e else if a = c then n else ck_next (h a))"
  "ck_prev (relink h c n e a) = (if a = n then c else if a = e then n else ck_prev (h a))"
  "is_used (relink h c n e) a = (a \<noteq> n \<and> is_used h a)"
  "check_sum (relink h c n e) a = (a = n \<or> a = c \<or> check_sum h a)"
  by (auto simp: relink_def)

text \<open>
  A new free chunk \<open>n\<close> between the used chunks \<open>c\<close> and \<open>e\<close>; \<open>ds\<close> is the free chunk it takes the
  place of, if there is one.
\<close>

lemma heap_ok_relink:
  assumes ok: "heap_ok h (xs @ c # ds @ e # ys)" and ds: "ds = [] \<or> (\<exists>d. ds = [d] \<and> \<not> is_used h d)"
    and c: "is_used h c" and e: "is_used h e"
    and n: "unat c + 12 \<le> unat n" "unat n + 12 \<le> unat e"
  shows "heap_ok (relink h c n e) (xs @ c # n # e # ys)"
proof -
  note okD = heap_okD [OF ok]
  define g where "g = (case ds of [] \<Rightarrow> h | d # _ \<Rightarrow> merge_hdrs h c d e)"
  have l: "heap_links g (xs @ c # e # ys)"
    using ds ok heap_links_merge [of h xs c "hd ds" e ys] by (auto simp: g_def heap_ok_links)
  have sp: "spaced (xs @ c # e # ys)" and r: "ring g (xs @ c # e # ys)"
    using l by (auto simp: heap_links_def)
  have new: "n \<notin> set (xs @ c # e # ys)" using spaced_between [OF sp] n by simp
  note dist = spaced_distinct [OF sp]
  have "ring (relink h c n e) (xs @ c # n # e # ys)"
    by (rule ring_insert [OF r])
      (use dist new ds in \<open>auto simp: lnk_def g_def\<close>)
  moreover have "spaced (xs @ c # n # e # ys)"
    using sp n spaced_split [of xs c n "e # ys"] spaced_split [of xs c e ys] spaced_split [of "[]" n e ys]
    by (simp add: spaced_def)
  moreover have "check_sum (relink h c n e) a" if "a \<in> set (xs @ c # n # e # ys)" for a
    using that okD(7) by auto
  moreover have "is_used (relink h c n e) (last (xs @ c # n # e # ys))"
    using okD(6) new by (auto split: if_splits)
  moreover have "coalesced (relink h c n e) (xs @ c # n # e # ys)"
  proof -
    have "coalesced h (xs @ [c])" "coalesced h (e # ys)"
      using okD(5) ds by (auto simp: coalesced_split coalesced_def successively_append_iff)
    then have "coalesced (relink h c n e) (xs @ [c])" "coalesced (relink h c n e) (e # ys)"
      using new by (auto elim!: coalesced_mono)
    then show ?thesis
      using coalesced_join [of "relink h c n e" "xs @ [c]" e ys n] c e new by auto
  qed
  ultimately show ?thesis by (simp add: heap_ok_def)
qed

lemma ff_live_relink:
  assumes ok: "heap_ok h (xs @ c # ds @ e # ys)" and ds: "ds = [] \<or> (\<exists>d. ds = [d] \<and> \<not> is_used h d)"
    and c: "is_used h c" and new: "n \<notin> set (xs @ c # e # ys)"
  shows "ff_live (relink h c n e) (xs @ c # n # e # ys) =
    insert (chunk_data c, get_size (relink h c n e) c) (ff_live h (xs @ c # ds @ e # ys) - {(chunk_data c, get_size h c)})"
proof -
  let ?f = "\<lambda>h a. (chunk_data a, get_size h a)" and ?R = "{a \<in> set xs \<union> set (butlast (e # ys)). is_used h a}"
  note dist = heap_okD(3) [OF ok]
  have live: "ff_live g ds = ?f g ` {a \<in> set (butlast ds). is_used g a}" for g ds
    by (auto simp: ff_live_def)
  have bl: "set (butlast (e # ys)) \<subseteq> set (e # ys)" by (blast dest: in_set_butlastD)
  have nR: "c \<notin> ?R" "n \<notin> ?R" using dist new bl by auto
  have "{a \<in> set (butlast (xs @ c # n # e # ys)). is_used (relink h c n e) a} = insert c ?R"
    using c new bl by (auto simp: butlast_append)
  moreover have "{a \<in> set (butlast (xs @ c # ds @ e # ys)). is_used h a} = insert c ?R"
    using c ds by (auto simp: butlast_append)
  moreover have "?f (relink h c n e) ` ?R = ?f h ` ?R"
    by (rule image_cong) (use nR in \<open>auto simp: get_size_def\<close>)
  moreover have "?f h c \<notin> ?f h ` ?R" using nR by auto
  ultimately show ?thesis by (simp add: live)
qed

lemma ff_wf_relink:
  assumes wf: "ff_wf st (xs @ c # ds @ e # ys)"
    and ds: "ds = [] \<or> (\<exists>d. ds = [d] \<and> \<not> is_used (hdrs st) d)"
    and c: "is_used (hdrs st) c" and e: "is_used (hdrs st) e"
    and n: "unat n = unat c + 12 + k" "unat n + 12 \<le> unat e"
    and st': "hdrs st' = relink (hdrs st) c n e" "startmem (alloc st') = startmem (alloc st)"
      "endmem (alloc st') = endmem (alloc st)" "current (alloc st') \<in> set (xs @ c # n # e # ys)"
  shows "ff_wf st' (xs @ c # n # e # ys)" and "unat (get_size (hdrs st') c) = k"
    and "ff_live (hdrs st') (xs @ c # n # e # ys) =
      insert (chunk_data c, get_size (hdrs st') c)
        (ff_live (hdrs st) (xs @ c # ds @ e # ys) - {(chunk_data c, get_size (hdrs st) c)})"
proof -
  have ok: "heap_ok (hdrs st) (xs @ c # ds @ e # ys)" using wf by (simp add: ff_wf_def)
  note okD = heap_okD [OF ok]
  have sp: "spaced (xs @ c # e # ys)" using okD(2) by (auto simp: spaced_def sorted_wrt_append)
  have new: "n \<notin> set (xs @ c # e # ys)" using spaced_between [OF sp] n by simp
  show "ff_live (hdrs st') (xs @ c # n # e # ys) =
      insert (chunk_data c, get_size (hdrs st') c)
        (ff_live (hdrs st) (xs @ c # ds @ e # ys) - {(chunk_data c, get_size (hdrs st) c)})"
    unfolding st'(1) by (rule ff_live_relink [OF ok ds c new])
  have ok': "heap_ok (hdrs st') (xs @ c # n # e # ys)"
    unfolding st'(1) by (rule heap_ok_relink [OF ok ds c e]) (use n in auto)
  show "ff_wf st' (xs @ c # n # e # ys)"
    by (rule ff_wf_keep [OF wf ok' st'(4)]) (simp_all add: st' hd_append)
  show "unat (get_size (hdrs st') c) = k" using unat_get_size(1) [OF ok'] n by simp
qed

definition resized :: "ff_state \<Rightarrow> u32 list \<Rightarrow> u32 \<Rightarrow> u32 \<Rightarrow> (u32 \<times> ff_state) option \<Rightarrow> bool" where
  "resized st cs c sz r \<longleftrightarrow>
     (\<exists>st' cs' m. r = Some (chunk_data c, st') \<and> ff_wf st' cs' \<and> unat sz \<le> unat m \<and>
        ff_live (hdrs st') cs' =
          insert (chunk_data c, m) (ff_live (hdrs st) cs - {(chunk_data c, get_size (hdrs st) c)}) \<and>
        bytes st' = bytes st)"

lemma resizedI:
  assumes wf: "ff_wf st (xs @ c # ds @ e # ys)"
    and ds: "ds = [] \<or> (\<exists>d. ds = [d] \<and> \<not> is_used (hdrs st) d)"
    and u: "is_used (hdrs st) c" "is_used (hdrs st) e"
    and sz: "unat sz \<le> unat a" "unat c + 12 + unat a + 12 \<le> unat e"
    and r: "r = Some (chunk_data c, st')"
    and st': "hdrs st' = relink (hdrs st) c (c + CHUNK_SIZE + a) e" "startmem (alloc st') = startmem (alloc st)"
      "endmem (alloc st') = endmem (alloc st)"
      "current (alloc st') \<in> set (xs @ c # (c + CHUNK_SIZE + a) # e # ys)" "bytes st' = bytes st"
  shows "resized st (xs @ c # ds @ e # ys) c sz r"
proof -
  have n: "unat (c + CHUNK_SIZE + a) = unat c + 12 + unat a"
    using sz(2) u32_bound [of e] by (simp add: CHUNK_SIZE_def unat_add_nowrap)
  then have le: "unat (c + CHUNK_SIZE + a) + 12 \<le> unat e" using sz(2) by simp
  note rl = ff_wf_relink [OF wf ds u n le st'(1-4)]
  have "unat sz \<le> unat (get_size (hdrs st') c)" using rl(2) sz(1) by simp
  then show ?thesis unfolding resized_def using r rl(1,3) st'(5) by blast
qed

lemma realloc_inplace:
  assumes wf: "ff_wf st (xs @ c # d # ys)" and c: "is_used (hdrs st) c" and sz: "unat sz + 15 < 2 ^ 32"
    and fit: "aligned sz < get_size (hdrs st) c \<or>
      \<not> is_used (hdrs st) d \<and> aligned sz - get_size (hdrs st) c \<le> get_size (hdrs st) d"
  shows "resized st (xs @ c # d # ys) c sz (firstfit_realloc st (chunk_data c) sz)"
proof -
  let ?h = "hdrs st" and ?a = "aligned sz"
  have ok: "heap_ok ?h (xs @ c # d # ys)" using wf by (simp add: ff_wf_def)
  note okD = heap_okD [OF ok]
  have nx: "ck_next (?h c) = d" using ring_next okD(1) by blast
  have p: "chunk_data c - CHUNK_SIZE = c" "chunk_data c \<noteq> 0"
    using chunk_data_pos [OF wf, of c] by (simp_all add: chunk_data_def)
  have un: "unat (get_size ?h c) = unat d - unat c - 12" "unat c + 12 \<le> unat d"
    using unat_get_size [OF ok] by auto
  have bd: "unat d + 44 \<le> 2 ^ 32" using ff_wf_bound(1) [OF wf, of d] by simp
  have ua: "unat sz \<le> unat ?a" using unat_aligned [OF sz] by linarith
  have cur: "current (alloc st) \<in> set (xs @ c # d # ys)" using wf by (simp add: ff_wf_def)
  have room: "get_size ?h c \<le> ?a + CHUNK_SIZE \<longleftrightarrow> unat (get_size ?h c) \<le> unat ?a + 12" if "?a < get_size ?h c"
    using that un bd by (simp add: CHUNK_SIZE_def word_le_nat_alt word_less_nat_alt unat_add_nowrap)
  have live: "(chunk_data c, get_size ?h c) \<in> ff_live ?h (xs @ c # d # ys)"
    using c by (auto simp: ff_live_def butlast_append)
  note eqs = firstfit_realloc_def Let_def p nx
  consider (keep) "?a < get_size ?h c" "get_size ?h c \<le> ?a + CHUNK_SIZE"
    | (shrink) "?a < get_size ?h c" "\<not> get_size ?h c \<le> ?a + CHUNK_SIZE" "is_used ?h d"
    | (take) "\<not> is_used ?h d" "?a < get_size ?h c \<longrightarrow> \<not> get_size ?h c \<le> ?a + CHUNK_SIZE"
        "\<not> ?a < get_size ?h c \<longrightarrow> ?a - get_size ?h c \<le> get_size ?h d"
    using fit by blast
  then show ?thesis
  proof cases
    case keep
    then have "firstfit_realloc st (chunk_data c) sz = Some (chunk_data c, st)"
      by (simp add: eqs)
    moreover have "unat sz \<le> unat (get_size ?h c)" using ua keep(1) by (simp add: word_less_nat_alt)
    ultimately show ?thesis unfolding resized_def using wf insert_Diff [OF live] by metis
  next
    case shrink
    then have eq: "firstfit_realloc st (chunk_data c) sz =
        Some (chunk_data c, st\<lparr>hdrs := relink ?h c (c + CHUNK_SIZE + ?a) d\<rparr>)"
      by (simp add: eqs)
    show ?thesis
      by (rule resizedI [of st xs c "[]" d ys sz ?a, simplified, OF wf c shrink(3) ua _ eq])
        (use shrink room un cur in auto)
  next
    case take
    obtain e zs where ys: "ys = e # zs" using okD(6) take(1) by (cases ys) auto
    have e: "is_used ?h e" using okD(5) take(1) by (auto simp: ys coalesced_def successively_append_iff)
    have nd: "ck_next (?h d) = e" using ring_next [of ?h "xs @ [c]" d e zs] okD(1) ys by simp
    have ud: "unat (get_size ?h d) = unat e - unat d - 12" "unat d + 12 \<le> unat e"
      using unat_get_size [of ?h "xs @ [c]" d e zs] ok ys by auto
    have "unat c + 12 + unat ?a + 12 \<le> unat e"
    proof (cases "?a < get_size ?h c")
      case False
      then have "unat (?a - get_size ?h c) = unat ?a - unat (get_size ?h c)"
        by (simp add: unat_sub_nowrap word_le_nat_alt not_less)
      then show ?thesis using take(3) False un ud by (simp add: word_le_nat_alt)
    qed (use take(2) room un ud in auto)
    moreover have eq: "firstfit_realloc st (chunk_data c) sz =
        Some (chunk_data c, st\<lparr>hdrs := relink ?h c (c + CHUNK_SIZE + ?a) e, alloc := (alloc st)\<lparr>current :=
          (if current (alloc st) = d then if ?a < get_size ?h c then c + CHUNK_SIZE + ?a else e
           else current (alloc st))\<rparr>\<rparr>)"
      using take by (simp add: eqs nd)
    ultimately show ?thesis unfolding ys
      by (intro resizedI [of st xs c "[d]" e zs sz ?a, simplified, OF wf [unfolded ys] take(1) c e ua _ eq])
        (use cur in \<open>auto simp: ys\<close>)
  qed
qed

end
