(* ===== verification/FF_Spec.thy ===== *)
theory FF_Spec
  imports FF_Heap
begin

text \<open>
  What the kernel heap promises its clients, as an interface over the set of blocks in use,
  and the proof that \<^verbatim>\<open>firstfit_malloc\<close>, \<^verbatim>\<open>firstfit_realloc\<close> and \<^verbatim>\<open>firstfit_free\<close> keep it.
\<close>

section \<open>The chunks of a heap are determined by its state\<close>

lemma ring_unique:
  "ring h cs \<Longrightarrow> ring h ds \<Longrightarrow> distinct cs \<Longrightarrow> distinct ds \<Longrightarrow> hd cs = hd ds \<Longrightarrow> cs = ds"
  unfolding ring_dring by (rule dring_unique)

lemma ff_wf_unique: "ff_wf st cs \<Longrightarrow> ff_wf st ds \<Longrightarrow> cs = ds"
  by (rule ring_unique [of "hdrs st"]) (auto simp: ff_wf_def dest: heap_okD(1,3))

section \<open>Blocks in use\<close>

definition ff_inv :: "ff_state \<Rightarrow> bool" where
  "ff_inv st \<longleftrightarrow> (\<exists>cs. ff_wf st cs)"

definition ff_blocks :: "ff_state \<Rightarrow> (u32 \<times> u32) set" where
  "ff_blocks st = {b. \<exists>cs. ff_wf st cs \<and> b \<in> ff_live (hdrs st) cs}"

lemma ff_blocks_eq: "ff_wf st cs \<Longrightarrow> ff_blocks st = ff_live (hdrs st) cs"
  by (auto simp: ff_blocks_def dest: ff_wf_unique)

lemma ff_invI: "ff_wf st cs \<Longrightarrow> ff_inv st"
  by (auto simp: ff_inv_def)

lemma malloc_returns: "ff_inv st \<Longrightarrow> \<exists>p st'. firstfit_malloc st sz = Some (p, st')"
  unfolding ff_inv_def by (elim exE, erule firstfit_malloc_cases [of _ _ sz]) auto

lemma malloc_null:
  assumes "ff_inv st" "firstfit_malloc st sz = Some (0, st')"
  shows "st' = st"
proof -
  from assms(1) obtain cs where wf: "ff_wf st cs" by (auto simp: ff_inv_def)
  show ?thesis
  proof (rule firstfit_malloc_cases [OF wf, of sz])
    fix c st1 cs'
    assume "firstfit_malloc st sz = Some (chunk_data c, st1)" "c \<in> set (butlast cs)"
    then show ?thesis using assms(2) chunk_data_pos [OF wf, of c] by (auto dest: in_set_butlastD)
  qed (use assms(2) in auto)
qed

lemma malloc_block:
  assumes "ff_inv st" "firstfit_malloc st sz = Some (p, st')" "p \<noteq> 0"
  shows "ff_inv st' \<and> (\<forall>m. (p, m) \<notin> ff_blocks st) \<and>
    (\<exists>m. unat sz \<le> unat m \<and> ff_blocks st' = insert (p, m) (ff_blocks st)) \<and> bytes st' = bytes st"
proof -
  from assms(1) obtain cs where wf: "ff_wf st cs" by (auto simp: ff_inv_def)
  show ?thesis
  proof (rule firstfit_malloc_cases [OF wf, of sz])
    fix c st1 cs'
    assume m: "firstfit_malloc st sz = Some (chunk_data c, st1)" "ff_wf st1 cs'" "\<not> is_used (hdrs st) c"
      "unat sz \<le> unat (get_size (hdrs st1) c)" "bytes st1 = bytes st"
      "ff_live (hdrs st1) cs' = insert (chunk_data c, get_size (hdrs st1) c) (ff_live (hdrs st) cs)"
    then have p: "p = chunk_data c" "st' = st1" using assms(2) by auto
    moreover have "(chunk_data c, m) \<notin> ff_live (hdrs st) cs" for m using m(3) by (auto simp: ff_live_def)
    ultimately show ?thesis
      using m ff_blocks_eq [OF wf] ff_blocks_eq [OF m(2)] by (auto intro: ff_invI)
  qed (use assms(2,3) in auto)
qed

lemma free_null: "firstfit_free st 0 = st"
  by (simp add: firstfit_free_def)

lemma free_block:
  assumes "ff_inv st" "(p, m) \<in> ff_blocks st"
  shows "ff_inv (firstfit_free st p) \<and> ff_blocks (firstfit_free st p) = ff_blocks st - {(p, m)} \<and>
    bytes (firstfit_free st p) = bytes st"
proof -
  from assms obtain cs where wf: "ff_wf st cs" and l: "(p, m) \<in> ff_live (hdrs st) cs"
    by (auto simp: ff_blocks_def)
  obtain cs' where "ff_wf (firstfit_free st p) cs'" "bytes (firstfit_free st p) = bytes st"
      "ff_live (hdrs (firstfit_free st p)) cs' = ff_live (hdrs st) cs - {(p, m)}"
    by (rule firstfit_free_live [OF wf l])
  then show ?thesis by (simp add: ff_invI ff_blocks_eq [OF wf] ff_blocks_eq)
qed

definition disjoint_blocks :: "(u32 \<times> u32) set \<Rightarrow> bool" where
  "disjoint_blocks B \<longleftrightarrow>
     (\<forall>(p, n) \<in> B. \<forall>(q, m) \<in> B. (p, n) \<noteq> (q, m) \<longrightarrow> unat p + unat n \<le> unat q \<or> unat q + unat m \<le> unat p)"

lemma blocks_disjoint:
  assumes "ff_inv st"
  shows "disjoint_blocks (ff_blocks st)"
proof -
  from assms obtain cs where wf: "ff_wf st cs" by (auto simp: ff_inv_def)
  show ?thesis unfolding disjoint_blocks_def ff_blocks_eq [OF wf] using ff_live_disjoint [OF wf] by auto
qed

lemma blocks_bounds:
  assumes "(p, n) \<in> ff_blocks st"
  shows "unat (startmem (alloc st)) + 32 \<le> unat p \<and> unat p + unat n + 12 \<le> unat (endmem (alloc st)) \<and> p \<noteq> 0"
  using assms unfolding ff_blocks_def by (blast dest: ff_live_bounds)

section \<open>Reallocation\<close>

lemma realloc_cases:
  assumes "ff_inv st" and "(p, n) \<in> ff_blocks st" and "unat sz + 15 < 2 ^ 32"
  obtains (inplace) st' m where "firstfit_realloc st p sz = Some (p, st')" "ff_inv st'" "unat sz \<le> unat m"
      "ff_blocks st' = insert (p, m) (ff_blocks st - {(p, n)})" "bytes st' = bytes st"
  | (move) q st1 where "\<not> aligned sz < n" "firstfit_malloc st sz = Some (q, st1)"
      "firstfit_realloc st p sz =
        (if copy_stays st1 q n then Some (q, firstfit_free (st1\<lparr>bytes := memcpy (bytes st1) q p n\<rparr>) p) else None)"
proof -
  from assms obtain cs where wf: "ff_wf st cs" and l: "(p, n) \<in> ff_live (hdrs st) cs"
    by (auto simp: ff_blocks_def)
  have ok: "heap_ok (hdrs st) cs" using wf by (simp add: ff_wf_def)
  obtain xs c d ys where c: "cs = xs @ c # d # ys" "p = chunk_data c" "n = get_size (hdrs st) c"
      "is_used (hdrs st) c"
    by (rule ff_liveE [OF ok l])
  show ?thesis
  proof (cases "aligned sz < n \<or> \<not> is_used (hdrs st) d \<and> aligned sz - n \<le> get_size (hdrs st) d")
    case True
    then have "resized st cs c sz (firstfit_realloc st p sz)"
      unfolding c by (intro realloc_inplace [OF wf [unfolded c(1)] c(4) assms(3)]) (simp add: c(3))
    then obtain st' cs' m where r: "firstfit_realloc st p sz = Some (p, st')" "ff_wf st' cs'"
        "unat sz \<le> unat m" "ff_live (hdrs st') cs' = insert (p, m) (ff_live (hdrs st) cs - {(p, n)})"
        "bytes st' = bytes st"
      unfolding resized_def c(2,3) by blast
    show ?thesis
      by (rule inplace [OF r(1) ff_invI [OF r(2)] r(3) _ r(5)])
        (simp add: r(4) ff_blocks_eq [OF r(2)] ff_blocks_eq [OF wf])
  next
    case False
    obtain q st1 where m: "firstfit_malloc st sz = Some (q, st1)" using malloc_returns [OF assms(1)] by blast
    have "p - CHUNK_SIZE = c" "p \<noteq> 0" using c(2) ff_live_bounds(3) [OF wf l] by (auto simp: chunk_data_def)
    moreover have "ck_next (hdrs st c) = d" using ring_next heap_okD(1) [OF ok] c(1) by blast
    ultimately have "firstfit_realloc st p sz =
        (if copy_stays st1 q n then Some (q, firstfit_free (st1\<lparr>bytes := memcpy (bytes st1) q p n\<rparr>) p) else None)"
      using False m c(3) by (auto simp: firstfit_realloc_def Let_def)
    with False m show ?thesis by (intro move) auto
  qed
qed

lemma ff_inv_bytes [simp]: "ff_inv (st\<lparr>bytes := b\<rparr>) = ff_inv st" "ff_blocks (st\<lparr>bytes := b\<rparr>) = ff_blocks st"
  by (simp_all add: ff_inv_def ff_blocks_def ff_wf_def)

lemma realloc_block:
  assumes inv: "ff_inv st" and b: "(p, n) \<in> ff_blocks st" and sz: "unat sz + 15 < 2 ^ 32"
    and r: "firstfit_realloc st p sz = Some (q, st')"
  shows "ff_inv st'" and "q = 0 \<Longrightarrow> ff_blocks st' = ff_blocks st - {(p, n)}"
    and "q \<noteq> 0 \<Longrightarrow> \<exists>m. unat sz \<le> unat m \<and> ff_blocks st' = insert (q, m) (ff_blocks st - {(p, n)})"
proof -
  have p: "p \<noteq> 0" using blocks_bounds [OF b] by simp
  have "ff_inv st' \<and> (q = 0 \<longrightarrow> ff_blocks st' = ff_blocks st - {(p, n)}) \<and>
    (q \<noteq> 0 \<longrightarrow> (\<exists>m. unat sz \<le> unat m \<and> ff_blocks st' = insert (q, m) (ff_blocks st - {(p, n)})))"
    using inv b sz
  proof (cases rule: realloc_cases)
    case (inplace st2 m)
    then show ?thesis using r p by auto
  next
    case (move q2 st1)
    then have q: "q2 = q" and st': "st' = firstfit_free (st1\<lparr>bytes := memcpy (bytes st1) q p n\<rparr>) p" using r by (auto split: if_splits)
    show ?thesis
    proof (cases "q = 0")
      case True
      with move(2) q have "st1 = st" using malloc_null [OF inv] by auto
      then show ?thesis using free_block [of "st\<lparr>bytes := memcpy (bytes st) q p n\<rparr>" p n] inv b True st' by simp
    next
      case False
      with move(2) q obtain m where m: "ff_inv st1" "\<forall>k. (q, k) \<notin> ff_blocks st" "unat sz \<le> unat m"
          "ff_blocks st1 = insert (q, m) (ff_blocks st)"
        using malloc_block [OF inv] by metis
      then have "ff_inv st'" "ff_blocks st' = insert (q, m) (ff_blocks st) - {(p, n)}"
        using free_block [of "st1\<lparr>bytes := memcpy (bytes st1) q p n\<rparr>" p n] b st' by auto
      moreover have "(q, m) \<noteq> (p, n)" using m(2) b by auto
      ultimately show ?thesis using m(3) False by auto
    qed
  qed
  then show "ff_inv st'" and "q = 0 \<Longrightarrow> ff_blocks st' = ff_blocks st - {(p, n)}"
    and "q \<noteq> 0 \<Longrightarrow> \<exists>m. unat sz \<le> unat m \<and> ff_blocks st' = insert (q, m) (ff_blocks st - {(p, n)})" by auto
qed

text \<open>A request of at least the old size, or one that is met in place, never copies over a header.\<close>

lemma block_size: "ff_inv st \<Longrightarrow> (p, n) \<in> ff_blocks st \<Longrightarrow> get_size (hdrs st) (p - CHUNK_SIZE) = n"
  by (auto simp: ff_blocks_def ff_live_def chunk_data_def)

lemma realloc_returns:
  assumes inv: "ff_inv st" and b: "(p, n) \<in> ff_blocks st" and sz: "unat sz + 15 < 2 ^ 32"
    and safe: "unat n \<le> unat sz \<or> unat (aligned sz) < unat n" "unat n \<le> unat (startmem (alloc st))"
  shows "\<exists>q st'. firstfit_realloc st p sz = Some (q, st')"
  using inv b sz
proof (cases rule: realloc_cases)
  case (move q st1)
  then have n: "unat n \<le> unat sz" using safe(1) by (simp add: word_less_nat_alt)
  have "copy_stays st1 q n"
  proof (cases "q = 0")
    case True
    then show ?thesis using malloc_null [OF inv] move(2) safe(2) by (auto simp: copy_stays_def word_le_nat_alt)
  next
    case False
    with move(2) obtain m where "ff_inv st1" "unat sz \<le> unat m" "ff_blocks st1 = insert (q, m) (ff_blocks st)"
      using malloc_block [OF inv] by metis
    then show ?thesis using False n block_size [of st1 q m] by (simp add: copy_stays_def word_le_nat_alt)
  qed
  then show ?thesis using move(3) by simp
qed auto

text \<open>A block that grows keeps its contents, wherever it ends up.\<close>

lemma realloc_contents:
  assumes inv: "ff_inv st" and b: "(p, n) \<in> ff_blocks st" and sz: "unat sz + 15 < 2 ^ 32" "unat n \<le> unat sz"
    and r: "firstfit_realloc st p sz = Some (q, st')" "q \<noteq> 0"
  shows "mem_read (bytes st') q (unat n) = mem_read (bytes st) p (unat n)"
  using inv b sz(1)
proof (cases rule: realloc_cases)
  case (inplace st2 m)
  then show ?thesis using r by auto
next
  case (move q2 st1)
  then have q: "firstfit_malloc st sz = Some (q, st1)"
    and st': "st' = firstfit_free (st1\<lparr>bytes := memcpy (bytes st1) q p n\<rparr>) p" using r by (auto split: if_splits)
  obtain m where m: "ff_inv st1" "\<forall>k. (q, k) \<notin> ff_blocks st" "unat sz \<le> unat m"
      "ff_blocks st1 = insert (q, m) (ff_blocks st)" "bytes st1 = bytes st"
    using malloc_block [OF inv q r(2)] by metis
  have eq: "bytes st' = memcpy (bytes st) q p n"
    using free_block [of "st1\<lparr>bytes := memcpy (bytes st1) q p n\<rparr>" p n] m b st' by auto
  have "unat p + unat n \<le> unat q \<or> unat q + unat m \<le> unat p"
    using blocks_disjoint [OF m(1)] m(2,4) b unfolding disjoint_blocks_def by auto
  moreover have "unat p + unat n + 12 \<le> 2 ^ 32"
    using blocks_bounds [OF b] u32_bound [of "endmem (alloc st)"] by simp
  ultimately have "memcpy (bytes st) q p n = copied (bytes st) q p (unat n)"
    using m(3) sz(2) by (intro memcpy_eq_copied) auto
  then show ?thesis using eq mem_read_copied [of "unat n"] u32_bound [of n] by simp
qed

section \<open>A new heap, and the corruption check\<close>

text \<open>The two chunks of a new heap: the free one, and the sentinel at the end.\<close>

lemma new_chunks:
  assumes new: "firstfit_new h b start sz = Some st" and sz: "63 \<le> unat sz" "unat start + unat sz + 32 \<le> 2 ^ 32"
  obtains i e a k where "unat i = 16 * a - 12" "unat e = 16 * k - 12" "a < k" "2 \<le> a" "i \<noteq> e" "i = aligned (start + ALLOC_SIZE + CHUNK_SIZE) - CHUNK_SIZE"
    "unat start + 32 \<le> 16 * a" "16 * a \<le> unat start + 47" "16 * k \<le> unat start + unat sz" "unat start + unat sz < 16 * k + 16"
    "st = \<lparr>alloc = \<lparr>startmem = start, endmem = sz + start, current = i, n_malloc = 0, n_free = 0\<rparr>,
      hdrs = set_chunk (set_chunk h i e e False) e i i True, bytes = b\<rparr>"
proof -
  let ?i = "aligned (start + ALLOC_SIZE + CHUNK_SIZE) - CHUNK_SIZE"
  let ?e = "ALIGN * ((sz + start) div ALIGN) - CHUNK_SIZE"
  let ?h = "set_chunk (set_chunk h ?i ?e ?e False) ?e ?i ?i True"
  have st: "st = \<lparr>alloc = \<lparr>startmem = start, endmem = sz + start, current = ?i, n_malloc = 0, n_free = 0\<rparr>,
      hdrs = ?h, bytes = b\<rparr>"
    using new by (simp add: firstfit_new_def Let_def split: if_splits)
  have f: "unat (sz + start) = unat start + unat sz" using sz by (simp add: unat_add_nowrap)
  have s32: "unat (32 + start) = unat start + 32" using sz by (simp add: unat_add_nowrap)
  define a where "a = (unat start + 32 + 15) div 16"
  define e where "e = (unat start + unat sz) div 16"
  have ae: "a < e" "2 \<le> a" "unat start + 32 \<le> 16 * a" "16 * e \<le> unat start + unat sz" "16 * e < 2 ^ 32"
      "16 * a \<le> unat start + 47" "unat start + unat sz < 16 * e + 16"
    using sz unfolding a_def e_def by linarith+
  have "unat (aligned (32 + start)) = 16 * a"
    using unat_aligned [of "32 + start"] sz by (simp add: s32 a_def)
  then have ui: "unat ?i = 16 * a - 12"
    using ae by (simp add: ALLOC_SIZE_def CHUNK_SIZE_def unat_sub_nowrap)
  have "unat (ALIGN * ((sz + start) div ALIGN)) = 16 * e"
    using ae(5) by (simp add: ALIGN_def unat_mult_nowrap unat_div f e_def)
  then have ue: "unat ?e = 16 * e - 12" using ae by (simp add: CHUNK_SIZE_def unat_sub_nowrap)
  have ne: "?i \<noteq> ?e"
  proof
    assume "?i = ?e"
    then have "unat ?i = unat ?e" by (rule arg_cong)
    then show False unfolding ui ue using ae by linarith
  qed
  show ?thesis using that [OF ui ue ae(1,2) ne refl ae(3,6,4,7) st] .
qed

lemma new_block:
  assumes new: "firstfit_new h b start sz = Some st" and sz: "63 \<le> unat sz" "unat start + unat sz + 32 \<le> 2 ^ 32"
  shows "ff_inv st" "ff_blocks st = {}"
proof -
  have f: "unat (sz + start) = unat start + unat sz" using sz by (simp add: unat_add_nowrap)
  from new_chunks [OF assms] obtain i e a k where
    c: "unat i = 16 * a - 12" "unat e = 16 * k - 12" "a < k" "2 \<le> a" "unat start + 32 \<le> 16 * a" "16 * k \<le> unat start + unat sz"
    and ne: "i \<noteq> e" and i: "i = aligned (start + ALLOC_SIZE + CHUNK_SIZE) - CHUNK_SIZE"
    and st: "st = \<lparr>alloc = \<lparr>startmem = start, endmem = sz + start, current = i, n_malloc = 0, n_free = 0\<rparr>,
      hdrs = set_chunk (set_chunk h i e e False) e i i True, bytes = b\<rparr>" by metis
  have "heap_ok (set_chunk (set_chunk h i e e False) e i i True) [i, e]"
    using ne c by (auto simp: heap_ok_def ring_def lnk_def spaced_def coalesced_def)
  then have wf: "ff_wf st [i, e]"
    using c sz f i by (auto simp: ff_wf_def st first_chunk_def)
  then show "ff_inv st" by (rule ff_invI)
  show "ff_blocks st = {}" unfolding ff_blocks_eq [OF wf] using ne by (simp add: ff_live_def st)
qed

lemma corruption_loop_ring:
  assumes "ring (hdrs st) (us @ c # ds)" "distinct (us @ c # ds)" "hd (us @ [c]) = current (alloc st)"
    and "\<forall>a \<in> set (us @ c # ds). check_sum (hdrs st) a"
  shows "corruption_loop st c = Some 0"
  using assms
proof (induction ds arbitrary: us c)
  case Nil
  have "ck_next (hdrs st c) = hd (us @ [c])"
    using Nil.prems(1) successively_mid [of "lnk (hdrs st)" us c "hd (us @ [c])" "[]"]
    by (simp add: ring_def lnk_def)
  then show ?case using Nil.prems by (subst corruption_loop.simps) auto
next
  case (Cons d ds)
  have nx: "ck_next (hdrs st c) = d" using ring_next Cons.prems(1) by blast
  have "d \<noteq> current (alloc st)" using Cons.prems(2,3) by (cases us) auto
  moreover have "corruption_loop st d = Some 0"
    by (rule Cons.IH [of "us @ [c]"]) (use Cons.prems in \<open>auto simp: hd_append\<close>)
  ultimately show ?case using Cons.prems(4) nx by (subst corruption_loop.simps) auto
qed

lemma no_corruption:
  assumes "ff_inv st"
  shows "firstfit_corruption st = Some 0"
proof -
  from assms obtain cs where wf: "ff_wf st cs" by (auto simp: ff_inv_def)
  let ?c = "current (alloc st)"
  have ok: "heap_ok (hdrs st) cs" and cur: "?c \<in> set cs" using wf by (auto simp: ff_wf_def)
  note okD = heap_okD [OF ok]
  obtain us vs where cs: "cs = us @ ?c # vs" using split_list [OF cur] by blast
  have "ring (hdrs st) (?c # vs @ us)" using ring_rotate [of "hdrs st" us "?c # vs"] okD(1) cs by simp
  moreover have "distinct (?c # vs @ us)" using okD(3) cs by auto
  moreover have "\<forall>a \<in> set (?c # vs @ us). check_sum (hdrs st) a" using okD(7) cs by auto
  ultimately show ?thesis
    using corruption_loop_ring [of st "[]" ?c "vs @ us"] by (simp add: firstfit_corruption_def)
qed

section \<open>The interface\<close>

text \<open>
  The allocator as its clients see it: an invariant and the set of blocks in use.  A client is
  given a fresh block of at least the size it asked for or the null pointer and an unchanged
  heap; giving a block back removes exactly that block.
\<close>

locale heap_interface =
  fixes inv :: "'s \<Rightarrow> bool"
    and blocks :: "'s \<Rightarrow> (u32 \<times> u32) set"
    and malloc :: "'s \<Rightarrow> u32 \<Rightarrow> (u32 \<times> 's) option"
    and free :: "'s \<Rightarrow> u32 \<Rightarrow> 's"
  assumes returns: "inv s \<Longrightarrow> \<exists>p s'. malloc s n = Some (p, s')"
    and null: "inv s \<Longrightarrow> malloc s n = Some (0, s') \<Longrightarrow> s' = s"
    and fresh: "inv s \<Longrightarrow> malloc s n = Some (p, s') \<Longrightarrow> p \<noteq> 0 \<Longrightarrow>
      inv s' \<and> (\<forall>m. (p, m) \<notin> blocks s) \<and> (\<exists>m. unat n \<le> unat m \<and> blocks s' = insert (p, m) (blocks s))"
    and free0: "free s 0 = s"
    and removes: "inv s \<Longrightarrow> (p, m) \<in> blocks s \<Longrightarrow> inv (free s p) \<and> blocks (free s p) = blocks s - {(p, m)}"
    and unique: "inv s \<Longrightarrow> (p, m) \<in> blocks s \<Longrightarrow> (p, n) \<in> blocks s \<Longrightarrow> m = n"

text \<open>A client that asks for a list of sizes, in order, and remembers every answer.\<close>

fun malloc_all :: "('s \<Rightarrow> u32 \<Rightarrow> (u32 \<times> 's) option) \<Rightarrow> u32 list \<Rightarrow> 's \<Rightarrow> (u32 list \<times> 's) option" where
  "malloc_all m [] s = Some ([], s)"
| "malloc_all m (n # ns) s =
     (case m s n of None \<Rightarrow> None
      | Some (p, s1) \<Rightarrow> (case malloc_all m ns s1 of None \<Rightarrow> None | Some (ps, s2) \<Rightarrow> Some (p # ps, s2)))"

definition free_all :: "('s \<Rightarrow> u32 \<Rightarrow> 's) \<Rightarrow> u32 list \<Rightarrow> 's \<Rightarrow> 's" where
  "free_all f ps s = foldl f s ps"

context heap_interface
begin

lemma malloc_all_blocks:
  "inv s \<Longrightarrow> \<exists>ps s'. malloc_all malloc ns s = Some (ps, s') \<and> inv s' \<and> length ps = length ns \<and>
     distinct (filter (\<lambda>p. p \<noteq> 0) ps) \<and>
     (\<exists>B. blocks s' = blocks s \<union> B \<and> fst ` B = set ps - {0} \<and> fst ` B \<inter> fst ` blocks s = {})"
proof (induction ns arbitrary: s)
  case (Cons n ns)
  obtain p s1 where m: "malloc s n = Some (p, s1)" using returns [OF Cons.prems] by blast
  show ?case
  proof (cases "p = 0")
    case True
    then have s1: "s1 = s" using null Cons.prems m by blast
    obtain ps s' B where "malloc_all malloc ns s1 = Some (ps, s')" "inv s'" "length ps = length ns"
        "distinct (filter (\<lambda>p. p \<noteq> 0) ps)" "blocks s' = blocks s1 \<union> B" "fst ` B = set ps - {0}"
        "fst ` B \<inter> fst ` blocks s1 = {}"
      using Cons.IH [of s1] Cons.prems s1 by auto
    then show ?thesis using m True s1 by (auto intro!: exI [of _ B])
  next
    case False
    from fresh [OF Cons.prems m False] obtain k where
      f: "inv s1" "\<forall>m. (p, m) \<notin> blocks s" "blocks s1 = insert (p, k) (blocks s)" by auto
    obtain ps s' B where r: "malloc_all malloc ns s1 = Some (ps, s')" "inv s'" "length ps = length ns"
        "distinct (filter (\<lambda>p. p \<noteq> 0) ps)" "blocks s' = blocks s1 \<union> B" "fst ` B = set ps - {0}"
        "fst ` B \<inter> fst ` blocks s1 = {}"
      using Cons.IH [OF f(1)] by auto
    let ?B = "insert (p, k) B"
    have "p \<notin> set ps" using r(6,7) f(3) False by auto
    then have "distinct (filter (\<lambda>p. p \<noteq> 0) (p # ps))" using r(4) by simp
    moreover have "p \<notin> fst ` blocks s" using f(2) by auto
    then have "fst ` ?B \<inter> fst ` blocks s = {}" using r(7) by (simp add: f(3))
    moreover have "blocks s' = blocks s \<union> ?B" using r(5) f(3) by simp
    moreover have "fst ` ?B = set (p # ps) - {0}" using r(6) False by auto
    moreover have "malloc_all malloc (n # ns) s = Some (p # ps, s')" using m r(1) by simp
    ultimately show ?thesis using r(2,3) by (metis length_Cons)
  qed
qed auto

lemma free_all_blocks:
  "inv s \<Longrightarrow> distinct (filter (\<lambda>p. p \<noteq> 0) ps) \<Longrightarrow> set ps - {0} \<subseteq> fst ` blocks s \<Longrightarrow>
   inv (free_all free ps s) \<and> blocks (free_all free ps s) = {b \<in> blocks s. fst b \<notin> set ps - {0}}"
proof (induction ps arbitrary: s)
  case (Cons p ps)
  show ?case
  proof (cases "p = 0")
    case True
    then show ?thesis using Cons by (auto simp: free_all_def free0)
  next
    case False
    with Cons.prems(3) obtain m where m: "(p, m) \<in> blocks s" by auto
    have r: "inv (free s p)" "blocks (free s p) = blocks s - {(p, m)}" using removes [OF Cons.prems(1) m] by auto
    have "p \<notin> set ps" using Cons.prems(2) False by simp
    then have "set ps - {0} \<subseteq> fst ` blocks (free s p)" using Cons.prems(3) unfolding r(2) by force
    then have "inv (free_all free ps (free s p))"
      "blocks (free_all free ps (free s p)) = {b \<in> blocks (free s p). fst b \<notin> set ps - {0}}"
      using Cons.IH [OF r(1)] Cons.prems(2) False by auto
    moreover have "{b \<in> blocks s - {(p, m)}. fst b \<notin> set ps - {0}} = {b \<in> blocks s. fst b \<notin> set (p # ps) - {0}}"
      using False \<open>p \<notin> set ps\<close> by (auto dest: unique [OF Cons.prems(1) m])
    ultimately show ?thesis unfolding r(2) by (simp add: free_all_def)
  qed
qed (simp add: free_all_def)

lemma malloc_free_all:
  assumes "inv s"
  shows "\<exists>ps s'. malloc_all malloc ns s = Some (ps, s') \<and> length ps = length ns \<and>
    distinct (filter (\<lambda>p. p \<noteq> 0) ps) \<and> inv (free_all free ps s') \<and> blocks (free_all free ps s') = blocks s"
proof -
  obtain ps s' B where r: "malloc_all malloc ns s = Some (ps, s')" "inv s'" "length ps = length ns"
      "distinct (filter (\<lambda>p. p \<noteq> 0) ps)" "blocks s' = blocks s \<union> B" "fst ` B = set ps - {0}"
      "fst ` B \<inter> fst ` blocks s = {}"
    using malloc_all_blocks [OF assms, of ns] by (elim exE conjE)
  have "set ps - {0} \<subseteq> fst ` blocks s'" using r(5,6) by auto
  then have f: "inv (free_all free ps s')"
      "blocks (free_all free ps s') = {b \<in> blocks s'. fst b \<notin> set ps - {0}}"
    using free_all_blocks [OF r(2,4)] by auto
  have "{b \<in> blocks s'. fst b \<notin> set ps - {0}} = blocks s"
    unfolding r(5) r(6) [symmetric] using r(7) by blast
  with r f show ?thesis by auto
qed

end

lemma blocks_unique: "ff_inv st \<Longrightarrow> (p, m) \<in> ff_blocks st \<Longrightarrow> (p, n) \<in> ff_blocks st \<Longrightarrow> m = n"
  unfolding ff_inv_def by (auto simp: ff_blocks_eq ff_live_def)

interpretation kheap: heap_interface ff_inv ff_blocks firstfit_malloc firstfit_free
proof
  fix st st' p n
  assume "ff_inv st" "firstfit_malloc st n = Some (p, st')" "p \<noteq> 0"
  then show "ff_inv st' \<and> (\<forall>m. (p, m) \<notin> ff_blocks st) \<and>
      (\<exists>m. unat n \<le> unat m \<and> ff_blocks st' = insert (p, m) (ff_blocks st))"
    by (blast dest: malloc_block)
next
  fix st p m
  assume "ff_inv st" "(p, m) \<in> ff_blocks st"
  then show "ff_inv (firstfit_free st p) \<and> ff_blocks (firstfit_free st p) = ff_blocks st - {(p, m)}"
    by (blast dest: free_block)
qed (fact malloc_returns malloc_null free_null blocks_unique)+

section \<open>Alignment\<close>

text \<open>
  Chunk addresses are \<^verbatim>\<open>ALIGN * n - CHUNK_SIZE\<close>.  \<^verbatim>\<open>firstfit_new\<close>, \<^verbatim>\<open>firstfit_malloc\<close> and \<^verbatim>\<open>firstfit_free\<close>
  keep that; \<^verbatim>\<open>firstfit_realloc\<close>, which rounds the size and not the address, does not.
\<close>

definition ff_inv16 :: "ff_state \<Rightarrow> bool" where
  "ff_inv16 st \<longleftrightarrow> (\<exists>cs. ff_wf st cs \<and> (\<forall>c \<in> set cs. unat c mod 16 = 4))"

lemma malloc_aligned:
  assumes "ff_inv16 st" "firstfit_malloc st sz = Some (p, st')"
  shows "ff_inv16 st' \<and> unat p mod 16 = 0"
proof -
  from assms(1) obtain cs where wf: "ff_wf st cs" and al: "\<forall>c \<in> set cs. unat c mod 16 = 4"
    by (auto simp: ff_inv16_def)
  show ?thesis
  proof (rule firstfit_malloc_cases [OF wf, of sz])
    fix c st1 cs'
    assume m: "firstfit_malloc st sz = Some (chunk_data c, st1)" "ff_wf st1 cs'" "c \<in> set (butlast cs)"
      "unat sz \<le> unat (get_size (hdrs st1) c)" "c \<in> set (butlast cs')"
      "ff_live (hdrs st1) cs' = insert (chunk_data c, get_size (hdrs st1) c) (ff_live (hdrs st) cs)"
      "set cs' \<subseteq> insert (rest_chunk sz c) (set cs)"
    have c: "c \<in> set cs" "c \<in> set cs'" using m(3,5) by (auto dest: in_set_butlastD)
    have cd: "unat (chunk_data c) = unat c + 12" using ff_wf_bound(2) [OF wf c(1)] .
    have "unat (chunk_data c) + unat (get_size (hdrs st1) c) + 12 \<le> unat (endmem (alloc st1))"
      using ff_live_bounds(2) [OF m(2)] m(6) by blast
    moreover have "unat (endmem (alloc st1)) + 32 \<le> 2 ^ 32" using m(2) by (simp add: ff_wf_def)
    ultimately have "unat c + 12 + unat sz + 44 \<le> 2 ^ 32" using m(4) cd by simp
    then have "\<forall>a \<in> set cs'. unat a mod 16 = 4" using rest_chunk(5) m(7) al c(1) by force
    moreover have "unat (chunk_data c) mod 16 = 0" using al c(1) unfolding cd by (simp add: mod_add_eq [symmetric])
    ultimately show ?thesis using assms(2) m(1,2) by (auto simp: ff_inv16_def)
  qed (use assms in auto)
qed

lemma free_aligned:
  assumes "ff_inv16 st" "(p, n) \<in> ff_blocks st"
  shows "ff_inv16 (firstfit_free st p)"
proof -
  from assms(1) obtain cs where wf: "ff_wf st cs" and al: "\<forall>c \<in> set cs. unat c mod 16 = 4"
    by (auto simp: ff_inv16_def)
  then have "(p, n) \<in> ff_live (hdrs st) cs" using assms(2) by (simp add: ff_blocks_eq)
  then obtain cs' where "ff_wf (firstfit_free st p) cs'" "set cs' \<subseteq> set cs"
    by (rule firstfit_free_live [OF wf])
  with al show ?thesis by (auto simp: ff_inv16_def)
qed

section \<open>Reachable heaps\<close>

text \<open>
  The states of a heap whose clients follow the rules: they free and resize only blocks they
  hold, resize within the 32-bit range and, since \<^verbatim>\<open>firstfit_realloc\<close> copies the whole old block
  when it relocates, never ask for a size that is smaller than the old block and rounds up to at
  least it.  Clients may write their blocks at any time.
\<close>

inductive ff_reachable :: "ff_state \<Rightarrow> bool" where
  new: "firstfit_new h b start sz = Some st \<Longrightarrow> 63 \<le> unat sz \<Longrightarrow> unat start + unat sz + 32 \<le> 2 ^ 32 \<Longrightarrow>
    ff_reachable st"
| malloc: "ff_reachable st \<Longrightarrow> firstfit_malloc st sz = Some (p, st') \<Longrightarrow> ff_reachable st'"
| free: "ff_reachable st \<Longrightarrow> p = 0 \<or> (p, n) \<in> ff_blocks st \<Longrightarrow> ff_reachable (firstfit_free st p)"
| realloc: "ff_reachable st \<Longrightarrow> (p, n) \<in> ff_blocks st \<Longrightarrow> unat sz + 15 < 2 ^ 32 \<Longrightarrow>
    unat n \<le> unat sz \<or> unat (aligned sz) < unat n \<Longrightarrow> firstfit_realloc st p sz = Some (q, st') \<Longrightarrow>
    ff_reachable st'"
| store: "ff_reachable st \<Longrightarrow> ff_reachable (st\<lparr>bytes := b\<rparr>)"

lemma reachable_inv: "ff_reachable st \<Longrightarrow> ff_inv st"
proof (induction rule: ff_reachable.induct)
  case (malloc st sz p st')
  then show ?case using malloc_null malloc_block by (cases "p = 0") blast+
next
  case (free st p n)
  then show ?case using free_block by (auto simp: free_null)
qed (auto dest: new_block(1) realloc_block(1))

section \<open>A concrete heap\<close>

definition no_chunk :: ff_chunk_info where
  "no_chunk = \<lparr>ck_next = 0, ck_prev = 0, checksum = 0\<rparr>"

text \<open>256 bytes at 0x1000: one free chunk at 0x1014, the sentinel at 0x10F4.\<close>

definition heap0 :: ff_state where
  "heap0 =
     \<lparr>alloc = \<lparr>startmem = 0x1000, endmem = 0x1100, current = 0x1014, n_malloc = 0, n_free = 0\<rparr>,
      hdrs = set_chunk (set_chunk (\<lambda>_. no_chunk) 0x1014 0x10F4 0x10F4 False) 0x10F4 0x1014 0x1014 True,
      bytes = (\<lambda>_. 0)\<rparr>"

lemma heap0_new: "firstfit_new (\<lambda>_. no_chunk) (\<lambda>_. 0) 0x1000 256 = Some heap0"
  by (simp add: firstfit_new_def heap0_def aligned_def ALIGN_def ALLOC_SIZE_def CHUNK_SIZE_def Let_def)

lemma heap0_inv: "ff_inv heap0" "ff_blocks heap0 = {}" "ff_reachable heap0"
  using new_block [OF heap0_new] ff_reachable.new [OF heap0_new] by auto

lemma heap0_malloc:
  "\<exists>st. firstfit_malloc heap0 10 = Some (0x1020, st) \<and> startmem (alloc st) = 0x1000 \<and> get_size (hdrs st) 0x1014 = 20"
proof -
  have "\<not> is_used (hdrs heap0) 0x1014" "get_size (hdrs heap0) 0x1014 = 212"
    by (simp_all add: heap0_def get_size_def CHUNK_SIZE_def)
  then have "malloc_loop 10 heap0 0x1014 = Some (ff_take 10 heap0 0x1014)"
    by (subst malloc_loop.simps) (simp add: sint_u32)
  then show ?thesis
    by (simp add: firstfit_malloc_def INT_MAX_def heap0_def ff_take_def Let_def chunk_data_def CHUNK_SIZE_def get_size_def
        aligned_def ALIGN_def set_chunk_def set_used_def set_free_def set_next_def set_prev_def)
qed

text \<open>The heap after one allocation of ten bytes.\<close>

definition heap1 :: ff_state where
  "heap1 = snd (the (firstfit_malloc heap0 10))"

lemma heap1_malloc: "firstfit_malloc heap0 10 = Some (0x1020, heap1)"
  using heap0_malloc by (auto simp: heap1_def)

lemma heap1_inv: "ff_inv heap1" "ff_reachable heap1"
  using malloc_block [OF heap0_inv(1) heap1_malloc] ff_reachable.malloc [OF heap0_inv(3) heap1_malloc] by auto

lemma heap1_block: "\<exists>m. 10 \<le> unat m \<and> ff_blocks heap1 = {(0x1020, m)}"
  using malloc_block [OF heap0_inv(1) heap1_malloc] by (auto simp: heap0_inv(2))

lemma heap1_start: "startmem (alloc heap1) = 0x1000" "ff_blocks heap1 = {(0x1020, 20)}"
proof -
  have h: "startmem (alloc heap1) = 0x1000" "get_size (hdrs heap1) (0x1020 - CHUNK_SIZE) = 20"
    using heap0_malloc by (auto simp: heap1_def CHUNK_SIZE_def)
  obtain m where m: "ff_blocks heap1 = {(0x1020, m)}" using heap1_block by blast
  then have "m = 20" using block_size [OF heap1_inv(1), of "0x1020" m] h(2) by simp
  then show "startmem (alloc heap1) = 0x1000" "ff_blocks heap1 = {(0x1020, 20)}" using h m by simp_all
qed

lemma heap0_inv16: "ff_inv16 heap0"
proof -
  have "heap_ok (hdrs heap0) [0x1014, 0x10F4]"
    by (simp add: heap_ok_def ring_def lnk_def spaced_def coalesced_def heap0_def)
  then have "ff_wf heap0 [0x1014, 0x10F4]"
    by (simp add: ff_wf_def heap0_def first_chunk_def aligned_def ALIGN_def ALLOC_SIZE_def CHUNK_SIZE_def)
  then show ?thesis by (auto simp: ff_inv16_def intro!: exI [of _ "[0x1014, 0x10F4]"])
qed

section \<open>Properties\<close>

text \<open>C1. On a good heap \<^verbatim>\<open>firstfit_malloc\<close> always returns.  It returns null and leaves the heap
  alone exactly for a size it refuses or when no free chunk of the ring fits; otherwise it returns a
  block that was not in use, of at least the size asked for, the heap stays good and no other block
  in use is affected.\<close>

theorem firstfit_malloc_correct:
  assumes "ff_inv st"
  shows "\<exists>p st'. firstfit_malloc st sz = Some (p, st') \<and>
    (if p = 0
     then st' = st \<and> (sz = 0 \<or> INT_MAX < sz \<or> (\<forall>cs. ff_wf st cs \<longrightarrow> (\<forall>c \<in> set cs. \<not> fits sz (hdrs st) c)))
     else ff_inv st' \<and> (\<forall>m. (p, m) \<notin> ff_blocks st) \<and>
       (\<exists>m. unat sz \<le> unat m \<and> ff_blocks st' = insert (p, m) (ff_blocks st)))"
proof -
  from assms obtain cs where wf: "ff_wf st cs" by (auto simp: ff_inv_def)
  obtain p st' where r: "firstfit_malloc st sz = Some (p, st')" using malloc_returns [OF assms] by blast
  have "sz = 0 \<or> INT_MAX < sz \<or> (\<forall>c \<in> set cs. \<not> fits sz (hdrs st) c)" if "p = 0"
  proof (rule firstfit_malloc_cases [OF wf, of sz])
    fix c st1 cs'
    assume "firstfit_malloc st sz = Some (chunk_data c, st1)" "c \<in> set (butlast cs)"
    then show ?thesis using r that chunk_data_pos [OF wf, of c] by (auto dest: in_set_butlastD)
  qed
  moreover have "cs' = cs" if "ff_wf st cs'" for cs' using ff_wf_unique [OF that wf] .
  ultimately show ?thesis
    using r malloc_null [OF assms] malloc_block [OF assms r] by (cases "p = 0") auto
qed

theorem firstfit_malloc_correct_witness:
  "ff_inv heap0 \<and> ff_blocks heap0 = {} \<and>
   (\<exists>m. 10 \<le> unat m \<and> ff_blocks heap1 = {(0x1020, m)}) \<and> ff_inv heap1"
  using firstfit_malloc_correct [of heap0 10] heap0_inv heap1_malloc by auto

text \<open>C2. Freeing a block in use returns exactly that block: the heap stays good, every other
  block keeps its address and size, and the contents of memory are untouched.\<close>

theorem firstfit_free_correct:
  assumes "ff_inv st" and "(p, m) \<in> ff_blocks st"
  shows "ff_inv (firstfit_free st p) \<and> ff_blocks (firstfit_free st p) = ff_blocks st - {(p, m)} \<and>
    bytes (firstfit_free st p) = bytes st"
  using free_block [OF assms] .

theorem firstfit_free_correct_witness:
  "ff_blocks heap1 \<noteq> {} \<and> ff_blocks (firstfit_free heap1 0x1020) = {}"
proof -
  obtain m where m: "ff_blocks heap1 = {(0x1020, m)}" using heap1_block by blast
  then show ?thesis using firstfit_free_correct [of heap1 "0x1020" m] heap1_inv(1) by simp
qed

text \<open>C3. In every heap that its clients can reach, the blocks in use are pairwise disjoint, lie
  between the allocator structure and the end of the managed area, and the corruption check walks
  the whole ring and finds nothing.\<close>

theorem ff_reachable_safe:
  assumes "ff_reachable st"
  shows "disjoint_blocks (ff_blocks st) \<and> firstfit_corruption st = Some 0 \<and>
    (\<forall>p n. (p, n) \<in> ff_blocks st \<longrightarrow>
       unat (startmem (alloc st)) + 32 \<le> unat p \<and> unat p + unat n + 12 \<le> unat (endmem (alloc st)))"
  using reachable_inv [OF assms] blocks_disjoint no_corruption blocks_bounds by blast

theorem ff_reachable_safe_witness:
  "ff_reachable heap1 \<and> ff_blocks heap1 \<noteq> {} \<and> firstfit_corruption heap1 = Some 0"
  using ff_reachable_safe [OF heap1_inv(2)] heap1_inv(2) heap1_block by auto

text \<open>C11. Reallocating a block in use of a heap above its first \<open>n\<close> addresses, to a size that can be rounded up and is
  at least the size \<open>n\<close> of the block or rounds up to less than it, returns and keeps the heap good.  A
  non-null result replaces the old block by one of at least the new size; a block that grows keeps its
  contents.  On a null result the old block is gone, which is not what \<^verbatim>\<open>realloc\<close> promises in C.  The sizes in between
  are excluded: there the code may relocate the block and copy past the end of the new one.\<close>

theorem firstfit_realloc_correct:
  assumes "ff_inv st" and "(p, n) \<in> ff_blocks st" and "unat sz + 15 < 2 ^ 32"
    and "unat n \<le> unat sz \<or> unat (aligned sz) < unat n" and "unat n \<le> unat (startmem (alloc st))"
  shows "\<exists>q st'. firstfit_realloc st p sz = Some (q, st') \<and> ff_inv st' \<and>
    (q = 0 \<longrightarrow> ff_blocks st' = ff_blocks st - {(p, n)}) \<and>
    (q \<noteq> 0 \<longrightarrow>
      (\<exists>m. unat sz \<le> unat m \<and> ff_blocks st' = insert (q, m) (ff_blocks st - {(p, n)})) \<and>
      (unat n \<le> unat sz \<longrightarrow> mem_read (bytes st') q (unat n) = mem_read (bytes st) p (unat n)))"
proof -
  obtain q st' where r: "firstfit_realloc st p sz = Some (q, st')" using realloc_returns [OF assms] by blast
  show ?thesis
    using r realloc_block [OF assms(1-3) r] realloc_contents [OF assms(1-3) _ r] by blast
qed

theorem firstfit_realloc_correct_witness:
  "\<exists>q st'. firstfit_realloc heap1 0x1020 100 = Some (q, st') \<and> ff_inv st'"
  using firstfit_realloc_correct [of heap1 "0x1020" 20 100] heap1_inv(1) heap1_start by auto

text \<open>C12. Any list of requests followed by freeing every answer, in the same order, leaves a good
  heap with exactly the blocks that were in use before: nothing leaks, whichever requests failed.
  The non-null answers are pairwise different.\<close>

theorem firstfit_malloc_free_all:
  assumes "ff_inv st"
  shows "\<exists>ps st'. malloc_all firstfit_malloc ns st = Some (ps, st') \<and> length ps = length ns \<and>
    distinct (filter (\<lambda>p. p \<noteq> 0) ps) \<and> ff_inv (free_all firstfit_free ps st') \<and>
    ff_blocks (free_all firstfit_free ps st') = ff_blocks st"
  using kheap.malloc_free_all [OF assms] .

theorem firstfit_malloc_free_all_witness:
  "\<exists>ps st'. malloc_all firstfit_malloc [10, 20, 30] heap0 = Some (ps, st') \<and> length ps = 3 \<and>
    ff_blocks (free_all firstfit_free ps st') = {}"
  using firstfit_malloc_free_all [OF heap0_inv(1), of "[10, 20, 30]"] by (auto simp: heap0_inv(2))

text \<open>C18. As long as only \<^verbatim>\<open>firstfit_malloc\<close> and \<^verbatim>\<open>firstfit_free\<close> are used, chunks stay at
  \<^verbatim>\<open>ALIGN * n - CHUNK_SIZE\<close> and every pointer handed out is a multiple of \<^verbatim>\<open>ALIGN\<close>.\<close>

theorem firstfit_aligned:
  assumes "ff_inv16 st"
  shows "\<exists>p st'. firstfit_malloc st sz = Some (p, st') \<and> unat p mod 16 = 0 \<and> ff_inv16 st' \<and>
    (\<forall>q n. (q, n) \<in> ff_blocks st' \<longrightarrow> ff_inv16 (firstfit_free st' q))"
proof -
  have "ff_inv st" using assms by (auto simp: ff_inv16_def ff_inv_def)
  then obtain p st' where r: "firstfit_malloc st sz = Some (p, st')" using malloc_returns by blast
  then show ?thesis using malloc_aligned [OF assms r] free_aligned [of st']
    by (intro exI [of _ p] exI [of _ st']) auto
qed

theorem firstfit_aligned_witness: "ff_inv16 heap0 \<and> ff_inv16 heap1"
  using firstfit_aligned [OF heap0_inv16, of 10] heap0_inv16 heap1_malloc by auto

end
