(* ===== verification/Phys_Mem.thy ===== *)
theory Phys_Mem
  imports FF_Spec
begin

text \<open>
  Physical memory (\<^verbatim>\<open>src/mem/pmem.c\<close>, \<^verbatim>\<open>include/mem/pmem.h\<close>) and the kernel heap on top of it
  (\<^verbatim>\<open>src/mem/kheap.c\<close>).  Page frames are handed out by moving one edge upwards; the state is that
  edge and the end of memory, as page indices.  The kernel sees physical memory at \<^verbatim>\<open>KERN_OFF\<close>.
\<close>

section \<open>Pages and addresses\<close>

definition PAGE_BYTES :: u32 where "PAGE_BYTES = 0x1000"
definition KERN_OFF :: u32 where "KERN_OFF = 0xC0000000"

definition pa :: "u32 \<Rightarrow> u32" where "pa vaddr = vaddr - KERN_OFF"
definition va :: "u32 \<Rightarrow> u32" where "va paddr = paddr + KERN_OFF"

definition page_aligned :: "u32 \<Rightarrow> u32" where
  "page_aligned addr = (if addr mod PAGE_BYTES = 0 then addr div PAGE_BYTES else 1 + addr div PAGE_BYTES)"

definition page_aligned_back :: "u32 \<Rightarrow> u32" where
  "page_aligned_back addr = addr div PAGE_BYTES"

definition pagealign_up :: "u32 \<Rightarrow> u32" where
  "pagealign_up p =
     (let i = p div PAGE_BYTES; r = p mod PAGE_BYTES; i = (if r \<noteq> 0 then i + 1 else i) in PAGE_BYTES * i)"

definition pagealign_down :: "u32 \<Rightarrow> u32" where
  "pagealign_down p = (p div PAGE_BYTES) * PAGE_BYTES"

section \<open>The frame allocator\<close>

record pmem =
  theEdgeOfAllocatedMemory :: u32
  theEndOfUpperMemory :: u32

definition UPPER_MEMORY_OFFSET :: u32 where "UPPER_MEMORY_OFFSET = 0x100000"

text \<open>
  \<open>uppermem_kb\<close> is the amount of memory above 1 MB the boot loader reports, \<open>kend\<close> the address of
  \<^verbatim>\<open>_end\<close>, \<open>mod_ends\<close> the end addresses of the boot modules.
\<close>

definition pmem_setup :: "u32 \<Rightarrow> u32 \<Rightarrow> u32 list \<Rightarrow> pmem" where
  "pmem_setup uppermem_kb kend mod_ends =
     (let upper = uppermem_kb div (PAGE_BYTES div 1024);
          upper = (if 1024 * 1024 \<le> upper then 1024 * 1024 - 1 else upper);
          free_pmem_edge = foldl (\<lambda>e m. if e < m then m else e) (pa kend) mod_ends
      in \<lparr>theEdgeOfAllocatedMemory = page_aligned free_pmem_edge,
          theEndOfUpperMemory = UPPER_MEMORY_OFFSET div PAGE_BYTES + upper\<rparr>)"

definition pmem_alloc :: "pmem \<Rightarrow> u32 \<Rightarrow> u32 \<times> pmem" where
  "pmem_alloc pm pages_count =
     (let old_edge = theEdgeOfAllocatedMemory pm;
          new_edge = old_edge + pages_count
      in if theEndOfUpperMemory pm < new_edge then (0, pm)
         else (PAGE_BYTES * old_edge, pm\<lparr>theEdgeOfAllocatedMemory := new_edge\<rparr>))"

definition pmem_free :: "pmem \<Rightarrow> u32 \<Rightarrow> u32 \<Rightarrow> int \<times> pmem" where
  "pmem_free pm start_page pages_count =
     (if start_page + pages_count = theEdgeOfAllocatedMemory pm
      then (0, pm\<lparr>theEdgeOfAllocatedMemory := start_page\<rparr>)
      else (errno_code ETODO, pm))"

definition kmem_alloc :: "pmem \<Rightarrow> u32 \<Rightarrow> u32 \<times> pmem" where
  "kmem_alloc pm pages_count = (let (p, pm') = pmem_alloc pm pages_count in (va p, pm'))"

section \<open>The character device \<^verbatim>\<open>/dev/mem\<close>\<close>

definition chrram_mem_get_block :: "u32 \<Rightarrow> u32" where
  "chrram_mem_get_block block = block * PAGE_BYTES"

definition chrram_mem_size :: "u32 \<Rightarrow> u32" where
  "chrram_mem_size uppermem_kb = (uppermem_kb * 1024) div PAGE_BYTES"

definition chrram_read_buf :: "bytemem \<Rightarrow> u32 \<Rightarrow> u32 \<Rightarrow> u32 \<Rightarrow> bytemem \<times> u32" where
  "chrram_read_buf m buf buflen pos = (memcpy m buf pos buflen, buflen)"

definition chrram_write_buf :: "bytemem \<Rightarrow> u32 \<Rightarrow> u32 \<Rightarrow> u32 \<Rightarrow> bytemem \<times> u32" where
  "chrram_write_buf m buf buflen pos = (memcpy m pos buf buflen, buflen)"

section \<open>The kernel heap\<close>

definition KHEAP_INITIAL_SIZE :: u32 where "KHEAP_INITIAL_SIZE = 256 * PAGE_BYTES"

text \<open>\<^verbatim>\<open>None\<close> is the null \<^verbatim>\<open>theHeap\<close>; \<open>h\<close> and \<open>b\<close> are the memory the heap is put in.\<close>

definition kheap_setup :: "chunk_mem \<Rightarrow> bytemem \<Rightarrow> pmem \<Rightarrow> ff_state option \<times> pmem" where
  "kheap_setup h b pm =
     (let npages = pagealign_up KHEAP_INITIAL_SIZE div PAGE_BYTES;
          (start_heap_addr, pm') = kmem_alloc pm npages
      in if start_heap_addr = 0 then (None, pm')
         else (firstfit_new h b start_heap_addr KHEAP_INITIAL_SIZE, pm'))"

definition kmalloc :: "ff_state \<Rightarrow> u32 \<Rightarrow> (u32 \<times> ff_state) option" where
  "kmalloc theHeap sz = firstfit_malloc theHeap sz"

definition kfree :: "ff_state \<Rightarrow> u32 \<Rightarrow> int \<times> ff_state" where
  "kfree theHeap p = (0, firstfit_free theHeap p)"

definition krealloc :: "ff_state \<Rightarrow> u32 \<Rightarrow> u32 \<Rightarrow> (u32 \<times> ff_state) option" where
  "krealloc theHeap p sz = firstfit_realloc theHeap p sz"

definition kheap_check :: "ff_state \<Rightarrow> u32 option" where
  "kheap_check theHeap = firstfit_corruption theHeap"

section \<open>Rounding to pages\<close>

lemma unat_pagealign_down: "unat (pagealign_down p) = 4096 * (unat p div 4096)"
  using u32_bound [of p]
  by (simp add: pagealign_down_def PAGE_BYTES_def unat_mult_nowrap unat_div mult.commute)

lemma unat_pagealign_up:
  assumes "unat p + 4095 < 2 ^ 32"
  shows "unat (pagealign_up p) = 4096 * ((unat p + 4095) div 4096)"
proof -
  define q r where qr: "q = unat p div 4096" "r = unat p mod 4096"
  have p: "unat p = 4096 * q + r" "r < 4096" by (simp_all add: qr)
  have m: "p mod 0x1000 \<noteq> 0 \<longleftrightarrow> r \<noteq> 0" by (simp add: qr unat_mod flip: unat_eq_0)
  have "unat (p div 0x1000 + 1) = q + 1" using p assms by (subst unat_add_nowrap) (auto simp: qr unat_div)
  moreover have "(unat p + 4095) div 4096 = (if r = 0 then q else q + 1)" using p by auto
  ultimately show ?thesis
    using m p assms by (auto simp: pagealign_up_def Let_def PAGE_BYTES_def unat_mult_nowrap unat_div qr(1) [symmetric])
qed

section \<open>The bump allocator\<close>

definition pmem_inv :: "pmem \<Rightarrow> bool" where
  "pmem_inv pm \<longleftrightarrow> 0 < theEdgeOfAllocatedMemory pm \<and>
     unat (theEdgeOfAllocatedMemory pm) \<le> unat (theEndOfUpperMemory pm) \<and> unat (theEndOfUpperMemory pm) \<le> 2 ^ 20"

lemma pmem_alloc_ok:
  assumes inv: "pmem_inv pm" and n: "unat n < 2 ^ 31"
  shows "pmem_alloc pm n =
    (if unat (theEndOfUpperMemory pm) < unat (theEdgeOfAllocatedMemory pm) + unat n then (0, pm)
     else (PAGE_BYTES * theEdgeOfAllocatedMemory pm,
           pm\<lparr>theEdgeOfAllocatedMemory := theEdgeOfAllocatedMemory pm + n\<rparr>))"
  using inv n by (simp add: pmem_alloc_def Let_def pmem_inv_def word_less_nat_alt unat_add_nowrap)

lemma pmem_alloc_cases:
  assumes inv: "pmem_inv pm" and n: "0 < n" "unat n < 2 ^ 31" and r: "pmem_alloc pm n = (p, pm')"
  obtains (full) "p = 0" "pm' = pm" "unat (theEndOfUpperMemory pm) < unat (theEdgeOfAllocatedMemory pm) + unat n"
  | (some) "unat p = 4096 * unat (theEdgeOfAllocatedMemory pm)" "pmem_inv pm'" "p \<noteq> 0"
      "unat (theEdgeOfAllocatedMemory pm') = unat (theEdgeOfAllocatedMemory pm) + unat n"
      "theEndOfUpperMemory pm' = theEndOfUpperMemory pm"
proof (cases "unat (theEndOfUpperMemory pm) < unat (theEdgeOfAllocatedMemory pm) + unat n")
  case True
  then show ?thesis using r pmem_alloc_ok [OF inv n(2)] by (intro full) auto
next
  case False
  define e where "e = unat (theEdgeOfAllocatedMemory pm)"
  have e: "0 < e" "e + unat n \<le> 2 ^ 20" "0 < unat n"
    using inv False n(1) by (auto simp: e_def pmem_inv_def word_less_nat_alt unat_gt_0)
  have eq: "p = PAGE_BYTES * theEdgeOfAllocatedMemory pm"
      "pm' = pm\<lparr>theEdgeOfAllocatedMemory := theEdgeOfAllocatedMemory pm + n\<rparr>"
    using r False pmem_alloc_ok [OF inv n(2)] by auto
  have up: "unat p = 4096 * e" using e by (simp add: eq PAGE_BYTES_def unat_mult_nowrap e_def)
  have ue: "unat (theEdgeOfAllocatedMemory pm + n) = e + unat n" using e by (simp add: e_def unat_add_nowrap)
  have "p \<noteq> 0" using up e by (metis mult_is_0 unat_0 zero_neq_numeral neq0_conv)
  moreover have "pmem_inv pm'"
    using inv False ue e by (auto simp: pmem_inv_def eq e_def word_less_nat_alt)
  ultimately show ?thesis using up ue by (intro some) (auto simp: eq e_def)
qed

section \<open>Properties\<close>

text \<open>C23. With page indices in the 32-bit range, an allocation either finds no room, returns null and
  changes nothing, or returns the frames from the old edge on: page-aligned, never the null page, past
  every frame given out before and within memory.  Freeing the latest allocation undoes it.\<close>

theorem pmem_alloc_correct:
  assumes "pmem_inv pm" and "0 < n" and "unat n < 2 ^ 31" and "pmem_alloc pm n = (p, pm')"
  shows "if unat (theEndOfUpperMemory pm) < unat (theEdgeOfAllocatedMemory pm) + unat n
    then p = 0 \<and> pm' = pm
    else p \<noteq> 0 \<and> unat p = 4096 * unat (theEdgeOfAllocatedMemory pm) \<and> pmem_inv pm' \<and>
      unat p + 4096 * unat n \<le> 4096 * unat (theEndOfUpperMemory pm) \<and>
      unat p + 4096 * unat n = 4096 * unat (theEdgeOfAllocatedMemory pm') \<and>
      pmem_free pm' (page_aligned_back p) n = (0, pm)"
  using assms
proof (cases rule: pmem_alloc_cases)
  case some
  then have "page_aligned_back p = theEdgeOfAllocatedMemory pm"
    by (simp add: page_aligned_back_def PAGE_BYTES_def unat_div word_unat_eq_iff)
  moreover have "theEdgeOfAllocatedMemory pm' = theEdgeOfAllocatedMemory pm + n"
    using some(4) assms(1,3) by (simp add: word_unat_eq_iff unat_add_nowrap pmem_inv_def)
  ultimately show ?thesis
    using some by (auto simp: pmem_free_def pmem_inv_def)
qed simp

theorem pmem_alloc_correct_witness:
  "pmem_alloc \<lparr>theEdgeOfAllocatedMemory = 300, theEndOfUpperMemory = 1000\<rparr> 5 =
     (0x12C000, \<lparr>theEdgeOfAllocatedMemory = 305, theEndOfUpperMemory = 1000\<rparr>) \<and>
   pmem_free \<lparr>theEdgeOfAllocatedMemory = 305, theEndOfUpperMemory = 1000\<rparr> 300 5 =
     (0, \<lparr>theEdgeOfAllocatedMemory = 300, theEndOfUpperMemory = 1000\<rparr>)"
  using pmem_alloc_correct [of "\<lparr>theEdgeOfAllocatedMemory = 300, theEndOfUpperMemory = 1000\<rparr>" 5 "0x12C000"
      "\<lparr>theEdgeOfAllocatedMemory = 305, theEndOfUpperMemory = 1000\<rparr>"]
  by (simp add: pmem_alloc_def pmem_inv_def PAGE_BYTES_def page_aligned_back_def Let_def)

text \<open>C22. Booting the heap: with 256 free frames below the part of memory the kernel can address,
  \<^verbatim>\<open>kheap_setup\<close> makes a good, empty heap of 1 MB in frames that nobody else was given.\<close>

theorem kheap_setup_correct:
  assumes "pmem_inv pm"
    and "unat (theEdgeOfAllocatedMemory pm) + 256 \<le> unat (theEndOfUpperMemory pm)"
    and "unat (theEdgeOfAllocatedMemory pm) + 256 < 0x40000"
  shows "\<exists>st pm'. kheap_setup h b pm = (Some st, pm') \<and> ff_inv st \<and> ff_blocks st = {} \<and> pmem_inv pm' \<and>
    unat (theEdgeOfAllocatedMemory pm') = unat (theEdgeOfAllocatedMemory pm) + 256 \<and>
    unat (pa (startmem (alloc st))) = 4096 * unat (theEdgeOfAllocatedMemory pm) \<and>
    unat (endmem (alloc st)) = unat (startmem (alloc st)) + 4096 * 256"
proof -
  have np: "pagealign_up KHEAP_INITIAL_SIZE div PAGE_BYTES = 256"
    by (simp add: pagealign_up_def KHEAP_INITIAL_SIZE_def PAGE_BYTES_def)
  obtain p pm' where r: "pmem_alloc pm 256 = (p, pm')" by fastforce
  have a: "unat p = 4096 * unat (theEdgeOfAllocatedMemory pm)" "pmem_inv pm'"
      "unat (theEdgeOfAllocatedMemory pm') = unat (theEdgeOfAllocatedMemory pm) + 256"
    using assms(2) by (auto intro: pmem_alloc_cases [OF assms(1) _ _ r])
  have "unat (va p) = unat p + 0xC0000000" using a(1) assms(3) by (simp add: va_def KERN_OFF_def unat_add_nowrap)
  then have v: "unat (va p) + 0x100000 + 32 \<le> 2 ^ 32" "va p \<noteq> 0" using a(1) assms(3) by (auto simp: word_unat_eq_iff)
  then have e: "unat (KHEAP_INITIAL_SIZE + va p) = unat (va p) + 0x100000"
    by (simp add: KHEAP_INITIAL_SIZE_def PAGE_BYTES_def unat_add_nowrap)
  obtain st where n: "firstfit_new h b (va p) KHEAP_INITIAL_SIZE = Some st"
    by (simp add: firstfit_new_def KHEAP_INITIAL_SIZE_def PAGE_BYTES_def aligned_def ALLOC_SIZE_def
        CHUNK_SIZE_def ALIGN_def Let_def)
  have se: "startmem (alloc st) = va p" "endmem (alloc st) = KHEAP_INITIAL_SIZE + va p"
    using n by (auto simp: firstfit_new_def Let_def split: if_splits)
  have "ff_inv st" "ff_blocks st = {}"
    using new_block [OF n] v by (auto simp: KHEAP_INITIAL_SIZE_def PAGE_BYTES_def)
  moreover have "kheap_setup h b pm = (Some st, pm')"
    using np r n v(2) by (simp add: kheap_setup_def kmem_alloc_def Let_def)
  ultimately show ?thesis using a e by (auto simp: se pa_def va_def)
qed

theorem kheap_setup_correct_witness:
  "\<exists>st pm'. kheap_setup (\<lambda>_. no_chunk) (\<lambda>_. 0) (pmem_setup 0x7C00 0xC0200000 []) = (Some st, pm') \<and>
     ff_inv st \<and> ff_blocks st = {}"
proof -
  have "pmem_setup 0x7C00 0xC0200000 [] = \<lparr>theEdgeOfAllocatedMemory = 0x200, theEndOfUpperMemory = 0x2000\<rparr>"
    by (simp add: pmem_setup_def Let_def pa_def KERN_OFF_def PAGE_BYTES_def page_aligned_def UPPER_MEMORY_OFFSET_def)
  then show ?thesis
    using kheap_setup_correct [of "pmem_setup 0x7C00 0xC0200000 []" "\<lambda>_. no_chunk" "\<lambda>_. 0"]
    by (simp add: pmem_inv_def) blast
qed

text \<open>When memory is exhausted \<^verbatim>\<open>pmem_alloc\<close> answers null but \<^verbatim>\<open>kmem_alloc\<close> does not: it answers
  the non-null address \<^verbatim>\<open>KERN_OFF\<close>, so the null test of \<^verbatim>\<open>kheap_setup\<close> never fires.\<close>

theorem kmem_alloc_never_null:
  assumes "pmem_inv pm" and "unat n < 2 ^ 31"
    and "unat (theEndOfUpperMemory pm) < unat (theEdgeOfAllocatedMemory pm) + unat n"
  shows "fst (pmem_alloc pm n) = 0 \<and> fst (kmem_alloc pm n) = KERN_OFF \<and> KERN_OFF \<noteq> 0"
  using assms pmem_alloc_ok [OF assms(1,2)] by (simp add: kmem_alloc_def va_def KERN_OFF_def)

theorem kmem_alloc_never_null_witness:
  "fst (kmem_alloc \<lparr>theEdgeOfAllocatedMemory = 300, theEndOfUpperMemory = 400\<rparr> 256) = 0xC0000000"
  using kmem_alloc_never_null [of "\<lparr>theEdgeOfAllocatedMemory = 300, theEndOfUpperMemory = 400\<rparr>" 256]
  by (simp add: pmem_inv_def KERN_OFF_def)

end
