(* ===== verification/Ramfs_Btree.thy ===== *)
theory Ramfs_Btree
  imports Phys_Mem "HOL-Library.Monad_Syntax"
begin

text \<open>
  The lookup tree from inode numbers to inodes of \<^verbatim>\<open>src/fs/ramfs.c\<close>.  A node owns its children, so
  trees are values; a leaf is the address of an inode.  Node memory comes from the kernel heap, whose
  state is passed along; \<open>None\<close> as a result stands for a heap search that does not return.  Indices and
  sizes are numbers below \<open>2 ^ 32\<close> that wrap around as \<^verbatim>\<open>size_t\<close> does.
\<close>

section \<open>Nodes\<close>

datatype btree_node = BNode (bt_level: nat) (bt_fanout: nat) (bt_used: nat) (bt_children: "bchild list")
and bchild = Null | Leaf u32 | Sub btree_node

definition btree_new :: "ff_state \<Rightarrow> nat \<Rightarrow> (btree_node option \<times> ff_state) option" where
  "btree_new kh fanout =
     do { (p, kh) \<leftarrow> kmalloc kh (of_nat (12 + 4 * fanout));
          if p = 0 then Some (None, kh)
          else Some (Some (BNode 0 fanout 0 (replicate fanout Null)), kh) }"

text \<open>The leaves that \<^verbatim>\<open>btree_free\<close> hands to \<^verbatim>\<open>free_leaf\<close>, in order; \<open>invalid\<close> is the address of
  \<^verbatim>\<open>theInvalidInode\<close>.\<close>

function btree_free :: "u32 \<Rightarrow> btree_node \<Rightarrow> u32 list" where
  "btree_free invalid (BNode lvl fanout used cs) =
     concat (map (\<lambda>c. case c of Null \<Rightarrow> [] | Leaf p \<Rightarrow> if lvl = 0 \<and> p \<noteq> invalid then [p] else []
                      | Sub n \<Rightarrow> if lvl = 0 then [] else btree_free invalid n) cs)"
  by pat_completeness auto
termination
proof (relation "measure (size \<circ> snd)")
  show "((invalid, x), (invalid, BNode lvl fanout used cs)) \<in> measure (size \<circ> snd)"
    if "c \<in> set cs" "c = Sub x" for invalid x lvl fanout used cs c
    using size_list_estimation' [OF that(1), of "size c" size] that(2) by simp
qed simp

section \<open>Lookup\<close>

definition size_t :: "nat \<Rightarrow> nat" where
  "size_t n = n mod 2 ^ 32"

text \<open>The tests \<^verbatim>\<open>res > 0\<close> are on an \<^verbatim>\<open>int\<close> that was assigned an unsigned index.\<close>

definition int_positive :: "nat \<Rightarrow> bool" where
  "int_positive res \<longleftrightarrow> 0 < res \<and> res < 2 ^ 31"

text \<open>The number of leaves of a tree, as the first loop of \<^verbatim>\<open>btree_get_index\<close> computes it.\<close>

fun bt_size :: "nat \<Rightarrow> nat \<Rightarrow> nat" where
  "bt_size fanout 0 = fanout"
| "bt_size fanout (Suc lvl) = size_t (bt_size fanout lvl * fanout)"

text \<open>\<open>None\<close>: the walk divides by zero, reads past the children of a node or follows a child that is not a node.\<close>

fun bt_walk :: "nat \<Rightarrow> nat \<Rightarrow> btree_node \<Rightarrow> nat \<Rightarrow> nat \<Rightarrow> bchild option" where
  "bt_walk fanout 0 bnode btsize index =
     (if index < length (bt_children bnode) then Some (bt_children bnode ! index) else None)"
| "bt_walk fanout (Suc lvl) bnode btsize index =
     (let btsize = btsize div fanout in
      if btsize = 0 \<or> length (bt_children bnode) \<le> index div btsize then None
      else case bt_children bnode ! (index div btsize) of
        Null \<Rightarrow> Some Null
      | Sub subnode \<Rightarrow> bt_walk fanout lvl subnode btsize (index mod btsize)
      | Leaf _ \<Rightarrow> None)"

definition btree_get_index :: "btree_node \<Rightarrow> nat \<Rightarrow> bchild option" where
  "btree_get_index bnode index =
     (let btsize = bt_size (bt_fanout bnode) (bt_level bnode) in
      if btsize \<le> index then Some Null
      else bt_walk (bt_fanout bnode) (bt_level bnode) bnode btsize index)"

section \<open>Insertion\<close>

text \<open>The first null entry takes the leaf; \<open>i\<close> counts entries passed.\<close>

fun set_first :: "u32 \<Rightarrow> nat \<Rightarrow> bchild list \<Rightarrow> (nat \<times> bchild list) option" where
  "set_first p i [] = None"
| "set_first p i (c # cs) =
     (if c = Null then Some (i, Leaf p # cs)
      else map_option (map_prod id (Cons c)) (set_first p (i + 1) cs))"

text \<open>A child is tried after the other until one reports an index above \<open>0\<close>; what a child changed
  before it reported something else stays changed.  The power \<^verbatim>\<open>index_offset\<close> wraps around while it is computed, which
  makes no difference to the sum.\<close>

function btree_set_leaf :: "btree_node \<Rightarrow> u32 \<Rightarrow> nat \<times> btree_node"
  and set_in_children :: "nat \<Rightarrow> nat \<Rightarrow> nat \<Rightarrow> u32 \<Rightarrow> bchild list \<Rightarrow> nat \<times> bchild list" where
  "btree_set_leaf (BNode lvl fanout used cs) idata =
     (if lvl = 0 then
        if used < fanout then
          case set_first idata 0 cs of
            Some (i, cs') \<Rightarrow> (i, BNode lvl fanout (used + 1) cs')
          | None \<Rightarrow> (0, BNode lvl fanout used cs)
        else (0, BNode lvl fanout used cs)
      else let (res, cs') = set_in_children lvl fanout 0 idata cs in (res, BNode lvl fanout used cs'))"
| "set_in_children lvl fanout i idata [] = (0, [])"
| "set_in_children lvl fanout i idata (c # cs) =
     (case c of
        Sub bchild \<Rightarrow>
          let (res, bchild') = btree_set_leaf bchild idata in
          if int_positive res then (size_t (res + i * fanout ^ lvl), Sub bchild' # cs)
          else map_prod id (Cons (Sub bchild')) (set_in_children lvl fanout (i + 1) idata cs)
      | _ \<Rightarrow> map_prod id (Cons c) (set_in_children lvl fanout (i + 1) idata cs))"
  by pat_completeness auto
termination
  by (relation "measure (case_sum (size \<circ> fst) (size_list size \<circ> snd \<circ> snd \<circ> snd \<circ> snd))") auto

text \<open>
  A new root with the old one as its first child and, under its second child, a chain of new nodes.
  \<open>grow_chain\<close> makes the chain: as in the code it is only linked downwards, every node keeps
  \<open>bt_level = 0\<close>, the test after the allocation looks at the root instead of the new node, and the leaf is
  not stored anywhere.  \<open>hook\<close> puts a new node under the node made last: the innermost of the chain, or the
  root when the last allocation gave null.
\<close>

fun hook :: "bchild \<Rightarrow> bchild \<Rightarrow> bchild" where
  "hook new (Sub (BNode l f u (Sub m # cs))) = Sub (BNode l f u (hook new (Sub m) # cs))"
| "hook new (Sub (BNode l f u (Null # cs))) = Sub (BNode l f (u + 1) (new # cs))"
| "hook new c = new"

fun grow_chain :: "ff_state \<Rightarrow> nat \<Rightarrow> nat \<Rightarrow> bool \<Rightarrow> btree_node \<Rightarrow> (btree_node \<times> ff_state) option" where
  "grow_chain kh fanout 0 old_root root = Some (root, kh)"
| "grow_chain kh fanout (Suc lvl) old_root root =
     do { (n, kh) \<leftarrow> btree_new kh fanout;
          let new = (case n of None \<Rightarrow> Null | Some n \<Rightarrow> Sub n);
          let cs = bt_children root;
          let root = (if old_root then BNode (bt_level root) fanout (bt_used root) (cs[1 := hook new (cs ! 1)])
                      else BNode (bt_level root) fanout (bt_used root + 1) (cs[1 := new]));
          grow_chain kh fanout lvl (n \<noteq> None) root }"

definition btree_new_leaf :: "ff_state \<Rightarrow> btree_node \<Rightarrow> u32 \<Rightarrow> (nat \<times> btree_node \<times> ff_state) option" where
  "btree_new_leaf kh root idata =
     (let (res, root) = btree_set_leaf root idata in
      if int_positive res then Some (res, root, kh)
      else
        let lvl = bt_level root + 1; fanout = bt_fanout root in
        do { (n, kh) \<leftarrow> btree_new kh fanout;
             case n of
               None \<Rightarrow> Some (0, root, kh)
             | Some new_root \<Rightarrow>
                 do { (new_root, kh) \<leftarrow>
                        grow_chain kh fanout lvl False (BNode lvl fanout 1 ((bt_children new_root)[0 := Sub root]));
                      Some (size_t (fanout ^ lvl), new_root, kh) } })"

definition btree_free_leaf :: "btree_node \<Rightarrow> nat \<Rightarrow> int" where
  "btree_free_leaf bnode index = errno_code ETODO"

section \<open>Well-formed trees\<close>

text \<open>A tree of height \<open>L\<close>: levels and fanouts are right, and the first entry of every bottom node is taken,
  as the code demands of the whole tree.\<close>

fun bt_ok :: "nat \<Rightarrow> nat \<Rightarrow> btree_node \<Rightarrow> bool" where
  "bt_ok F 0 (BNode lvl fanout used cs) \<longleftrightarrow>
     lvl = 0 \<and> fanout = F \<and> length cs = F \<and> 0 < F \<and> used = length (filter (\<lambda>c. c \<noteq> Null) cs) \<and>
     cs ! 0 \<noteq> Null \<and> (\<forall>c\<in>set cs. case c of Sub _ \<Rightarrow> False | _ \<Rightarrow> True)"
| "bt_ok F (Suc L) (BNode lvl fanout used cs) \<longleftrightarrow>
     lvl = Suc L \<and> fanout = F \<and> length cs = F \<and> 0 < F \<and>
     (\<forall>c\<in>set cs. case c of Null \<Rightarrow> True | Leaf _ \<Rightarrow> False | Sub n \<Rightarrow> bt_ok F L n)"

fun bt_at :: "nat \<Rightarrow> nat \<Rightarrow> btree_node \<Rightarrow> nat \<Rightarrow> bchild" where
  "bt_at F 0 n i = bt_children n ! i"
| "bt_at F (Suc L) n i =
     (case bt_children n ! (i div F ^ Suc L) of Sub m \<Rightarrow> bt_at F L m (i mod F ^ Suc L) | _ \<Rightarrow> Null)"

text \<open>The bottom nodes that exist have no free entry.\<close>

fun bt_full :: "nat \<Rightarrow> btree_node \<Rightarrow> bool" where
  "bt_full 0 n \<longleftrightarrow> Null \<notin> set (bt_children n)"
| "bt_full (Suc L) n \<longleftrightarrow> (\<forall>c\<in>set (bt_children n). case c of Sub m \<Rightarrow> bt_full L m | _ \<Rightarrow> True)"

lemma bt_ok_fields: "bt_ok F L n \<Longrightarrow> bt_level n = L \<and> bt_fanout n = F \<and> length (bt_children n) = F \<and> 0 < F"
  by (cases n; cases L) auto

lemma bt_ok_child:
  assumes "bt_ok F (Suc L) n" "k < F" "bt_children n ! k = c"
  shows "c = Null \<or> (\<exists>m. c = Sub m \<and> bt_ok F L m)"
proof -
  have "c \<in> set (bt_children n)" using assms bt_ok_fields [OF assms(1)] nth_mem by fastforce
  then have "case c of Null \<Rightarrow> True | Leaf _ \<Rightarrow> False | Sub m \<Rightarrow> bt_ok F L m" using assms(1) by (cases n) simp
  then show ?thesis by (simp split: bchild.splits)
qed

lemma size_t_id: "n < 2 ^ 32 \<Longrightarrow> size_t n = n"
  by (simp add: size_t_def)

lemma bt_size_power: "0 < F \<Longrightarrow> F ^ Suc L < 2 ^ 32 \<Longrightarrow> bt_size F L = F ^ Suc L"
proof (induction L)
  case (Suc L)
  have "F ^ Suc L \<le> F ^ Suc (Suc L)" using Suc.prems(1) by (intro power_increasing) auto
  then have "bt_size F L = F ^ Suc L" using Suc by (simp del: power_Suc)
  then show ?case using Suc.prems(2) by (simp add: size_t_id mult.commute)
qed simp

lemma int_positive_iff [simp]: "\<not> int_positive 0" "r < 2 ^ 31 \<Longrightarrow> int_positive r \<longleftrightarrow> 0 < r"
  by (simp_all add: int_positive_def)

lemma bt_walk_at:
  "bt_ok F L n \<Longrightarrow> i < F ^ Suc L \<Longrightarrow> bt_walk F L n (F ^ Suc L) i = Some (bt_at F L n i)"
proof (induction L arbitrary: n i)
  case (Suc L)
  have F: "0 < F" using bt_ok_fields [OF Suc.prems(1)] by simp
  have k: "i div F ^ Suc L < F" using Suc.prems(2) by (simp add: less_mult_imp_div_less)
  have "i mod F ^ Suc L < F ^ Suc L" using F by simp
  moreover have "F ^ Suc (Suc L) div F = F ^ Suc L" "F ^ Suc L \<noteq> 0" using F by auto
  ultimately show ?case
    using bt_ok_child [OF Suc.prems(1) k refl] Suc.IH bt_ok_fields [OF Suc.prems(1)] k
    by (auto simp: Let_def simp del: power_Suc split: bchild.splits)
qed (use bt_ok_fields in auto)

lemma get_index_at:
  assumes "bt_ok F L n" "F ^ Suc L < 2 ^ 32"
  shows "btree_get_index n i = Some (if i < F ^ Suc L then bt_at F L n i else Null)"
  using bt_walk_at [OF assms(1)] bt_ok_fields [OF assms(1)] bt_size_power [OF _ assms(2)]
  by (auto simp: btree_get_index_def Let_def not_less simp del: power_Suc)

section \<open>Insertion in a well-formed tree\<close>

lemma set_first_cases:
  "set_first p i cs = (case set_first p 0 cs of None \<Rightarrow> None | Some (k, cs') \<Rightarrow> Some (i + k, cs'))"
proof (induction cs arbitrary: i)
  case (Cons c cs)
  show ?case using Cons [of "i + 1"] Cons [of 1] by (auto split: option.splits)
qed simp

lemma set_first_Some:
  "set_first p 0 cs = Some (k, cs') \<Longrightarrow>
     k < length cs \<and> cs ! k = Null \<and> (\<forall>j<k. cs ! j \<noteq> Null) \<and> cs' = cs[k := Leaf p]"
proof (induction cs arbitrary: k cs')
  case (Cons c cs)
  show ?case
  proof (cases "c = Null")
    case False
    then obtain j ds where "set_first p 0 cs = Some (j, ds)" "k = Suc j" "cs' = c # ds"
      using Cons.prems set_first_cases [of p 1 cs] by (auto split: option.splits)
    with Cons.IH [of j ds] False show ?thesis by (auto simp: less_Suc_eq_0_disj)
  qed (use Cons.prems in auto)
qed simp

lemma set_first_None: "set_first p i cs = None \<longleftrightarrow> Null \<notin> set cs"
  by (induction cs arbitrary: i) auto

lemma set_in_children_cases:
  assumes "set_in_children lvl F i p cs = (res, cs')"
    and "\<And>m m'. Sub m \<in> set cs \<Longrightarrow> btree_set_leaf m p = (0, m') \<Longrightarrow> m' = m"
    and "\<And>m. Sub m \<in> set cs \<Longrightarrow> fst (btree_set_leaf m p) < F ^ lvl" "(i + length cs) * F ^ lvl \<le> 2 ^ 31"
  shows "if res = 0 then cs' = cs \<and> (\<forall>m. Sub m \<in> set cs \<longrightarrow> fst (btree_set_leaf m p) = 0)
    else \<exists>k m r m'. k < length cs \<and> cs ! k = Sub m \<and> btree_set_leaf m p = (r, m') \<and> 0 < r \<and>
      cs' = cs[k := Sub m'] \<and> res = r + (i + k) * F ^ lvl"
  using assms
proof (induction cs arbitrary: i res cs')
  case (Cons c cs)
  have step: ?case if eq: "set_in_children lvl F i p (c # cs) = map_prod id (Cons c) (set_in_children lvl F (i + 1) p cs)"
    and c: "\<And>m. c = Sub m \<Longrightarrow> fst (btree_set_leaf m p) = 0"
  proof -
    obtain ds where ds: "set_in_children lvl F (i + 1) p cs = (res, ds)" "cs' = c # ds"
      using trans [OF eq [symmetric] Cons.prems(1)] by (cases "set_in_children lvl F (i + 1) p cs") auto
    have IH: "if res = 0 then ds = cs \<and> (\<forall>m. Sub m \<in> set cs \<longrightarrow> fst (btree_set_leaf m p) = 0)
        else \<exists>k m r m'. k < length cs \<and> cs ! k = Sub m \<and> btree_set_leaf m p = (r, m') \<and> 0 < r \<and>
          ds = cs[k := Sub m'] \<and> res = r + (i + 1 + k) * F ^ lvl"
      by (rule Cons.IH [OF ds(1)]) (use Cons.prems(2-4) in auto)
    show ?case
    proof (cases "res = 0")
      case True
      then show ?thesis using IH ds(2) c by auto
    next
      case False
      then obtain k m r m' where "k < length cs" "cs ! k = Sub m" "btree_set_leaf m p = (r, m')" "0 < r"
          "ds = cs[k := Sub m']" "res = r + (i + 1 + k) * F ^ lvl"
        using IH by auto
      then have "\<exists>k m r m'. k < length (c # cs) \<and> (c # cs) ! k = Sub m \<and> btree_set_leaf m p = (r, m') \<and> 0 < r \<and>
          cs' = (c # cs)[k := Sub m'] \<and> res = r + (i + k) * F ^ lvl"
        using ds(2) by (intro exI [of _ "Suc k"] exI [of _ m] exI [of _ r] exI [of _ m']) simp
      with False show ?thesis by simp
    qed
  qed
  show ?case
  proof (cases c)
    case (Sub m)
    obtain r m' where r: "btree_set_leaf m p = (r, m')" by force
    have "r < F ^ lvl" using Cons.prems(3) [of m] Sub r by simp
    moreover have "(i + 1) * F ^ lvl \<le> (i + length (c # cs)) * F ^ lvl" by (intro mult_right_mono) auto
    ultimately have "r + i * F ^ lvl < 2 ^ 31" using Cons.prems(4) by (simp only: distrib_right mult_1)
    then have small: "r < 2 ^ 31" "r + i * F ^ lvl < 2 ^ 31" by simp_all
    then have st: "size_t (r + i * F ^ lvl) = r + i * F ^ lvl" by (simp add: size_t_id)
    show ?thesis
    proof (cases "r = 0")
      case True
      then have "m' = m" using Cons.prems(2) [of m m'] Sub r by simp
      then show ?thesis using step True r Sub by simp
    next
      case False
      then have "\<exists>k m r m'. k < length (c # cs) \<and> (c # cs) ! k = Sub m \<and> btree_set_leaf m p = (r, m') \<and> 0 < r \<and>
          cs' = (c # cs)[k := Sub m'] \<and> res = r + (i + k) * F ^ lvl"
        using Cons.prems(1) Sub r small(1) st by (intro exI [of _ 0] exI [of _ m] exI [of _ r] exI [of _ m']) auto
      moreover have "res \<noteq> 0" using Cons.prems(1) Sub r False small(1) st by auto
      ultimately show ?thesis by simp
    qed
  qed (use step in auto)
qed simp

text \<open>What \<^verbatim>\<open>btree_set_leaf\<close> is to do: nothing and report \<open>0\<close> in a full tree, store the leaf at a free index
  otherwise.\<close>

definition leaf_stored :: "nat \<Rightarrow> nat \<Rightarrow> btree_node \<Rightarrow> u32 \<Rightarrow> nat \<Rightarrow> btree_node \<Rightarrow> bool" where
  "leaf_stored F L n p res n' \<longleftrightarrow>
     (if res = 0 then n' = n \<and> bt_full L n
      else \<not> bt_full L n \<and> bt_ok F L n' \<and> res < F ^ Suc L \<and> bt_at F L n res = Null \<and>
        (\<forall>i < F ^ Suc L. bt_at F L n' i = (if i = res then Leaf p else bt_at F L n i)))"

lemma set_leaf_bottom:
  assumes "bt_ok F 0 n" "btree_set_leaf n p = (res, n')"
  shows "leaf_stored F 0 n p res n'"
proof -
  obtain used cs where n: "n = BNode 0 F used cs" "length cs = F" "used = length (filter (\<lambda>c. c \<noteq> Null) cs)" "cs ! 0 \<noteq> Null"
      "\<forall>c\<in>set cs. case c of Sub _ \<Rightarrow> False | _ \<Rightarrow> True"
    using assms(1) by (cases n) auto
  have used: "used < F \<longleftrightarrow> Null \<in> set cs"
  proof (cases "Null \<in> set cs")
    case True
    then show ?thesis using length_filter_less [of Null cs "\<lambda>c. c \<noteq> Null"] n(2,3) by simp
  next
    case False
    then have "filter (\<lambda>c. c \<noteq> Null) cs = cs" by (intro filter_True) auto
    then show ?thesis using False n(2,3) by simp
  qed
  show ?thesis
  proof (cases "set_first p 0 cs")
    case None
    then show ?thesis
      using assms(2) n(1) used by (auto simp: leaf_stored_def set_first_None split: if_splits)
  next
    case (Some r)
    obtain k cs' where r: "r = (k, cs')" by (cases r)
    note k = set_first_Some [OF Some [unfolded r]]
    have "Null \<in> set cs" using Some set_first_None [of p 0 cs] by auto
    then have res: "res = k" "n' = BNode 0 F (used + 1) (cs[k := Leaf p])"
      using assms(2) n(1) used Some r k by auto
    have "0 < k" using n(4) k by (metis gr0I)
    moreover have "length (filter (\<lambda>c. c \<noteq> Null) (cs[k := Leaf p])) = used + 1"
    proof -
      define xs ys where "xs = take k cs" and "ys = drop (Suc k) cs"
      have "cs = xs @ Null # ys" using k by (metis id_take_nth_drop xs_def ys_def)
      moreover have "cs[k := Leaf p] = xs @ Leaf p # ys" using k by (simp add: upd_conv_take_nth_drop xs_def ys_def)
      ultimately show ?thesis using n(3) by simp
    qed
    moreover have "\<forall>c\<in>set (cs[k := Leaf p]). case c of Sub _ \<Rightarrow> False | _ \<Rightarrow> True"
      using n(5) set_update_subset_insert [of cs k "Leaf p"] by fastforce
    ultimately show ?thesis using k n res \<open>Null \<in> set cs\<close> by (auto simp: leaf_stored_def nth_list_update)
  qed
qed

lemma set_leaf_stored:
  "bt_ok F L n \<Longrightarrow> F ^ Suc L \<le> 2 ^ 31 \<Longrightarrow> btree_set_leaf n p = (res, n') \<Longrightarrow> leaf_stored F L n p res n'"
proof (induction L arbitrary: n res n')
  case 0
  then show ?case by (intro set_leaf_bottom)
next
  case (Suc L)
  obtain used cs where n: "n = BNode (Suc L) F used cs" "length cs = F" "0 < F"
      "\<forall>c\<in>set cs. case c of Null \<Rightarrow> True | Leaf _ \<Rightarrow> False | Sub m \<Rightarrow> bt_ok F L m"
    using Suc.prems(1) by (cases n) auto
  obtain cs' where cs': "set_in_children (Suc L) F 0 p cs = (res, cs')" "n' = BNode (Suc L) F used cs'"
    using Suc.prems(3) n(1) by (auto split: prod.splits)
  have "F ^ Suc L \<le> F ^ Suc (Suc L)" using n(3) by (intro power_increasing) auto
  then have small: "F ^ Suc L \<le> 2 ^ 31" using Suc.prems(2) by linarith
  have sub: "bt_ok F L m" if "Sub m \<in> set cs" for m using n(4) that by fastforce
  have zero: "m' = m \<and> bt_full L m" if "Sub m \<in> set cs" "btree_set_leaf m p = (0, m')" for m m'
    using Suc.IH [OF sub [OF that(1)] small that(2)] by (simp add: leaf_stored_def)
  have below: "fst (btree_set_leaf m p) < F ^ Suc L" if "Sub m \<in> set cs" for m
    using Suc.IH [OF sub [OF that] small, of "fst (btree_set_leaf m p)" "snd (btree_set_leaf m p)"] n(3)
    by (cases "fst (btree_set_leaf m p) = 0") (simp_all add: leaf_stored_def del: power_Suc)
  have ch: "if res = 0 then cs' = cs \<and> (\<forall>m. Sub m \<in> set cs \<longrightarrow> fst (btree_set_leaf m p) = 0)
    else \<exists>k m r m'. k < length cs \<and> cs ! k = Sub m \<and> btree_set_leaf m p = (r, m') \<and> 0 < r \<and>
      cs' = cs[k := Sub m'] \<and> res = r + (0 + k) * F ^ Suc L"
    by (rule set_in_children_cases [OF cs'(1)]) (use zero below Suc.prems(2) n(2) in auto)
  show ?case
  proof (cases "res = 0")
    case True
    then have "cs' = cs" "\<forall>m. Sub m \<in> set cs \<longrightarrow> fst (btree_set_leaf m p) = 0" using ch by (simp_all del: power_Suc)
    moreover have "bt_full L m" if "Sub m \<in> set cs" for m
      using zero [OF that, of "snd (btree_set_leaf m p)"] calculation(2) that by (metis prod.collapse)
    then have "bt_full (Suc L) n" using n(1) by (auto split: bchild.splits)
    ultimately show ?thesis using True cs'(2) n(1) by (simp add: leaf_stored_def)
  next
    case False
    then obtain k m r m' where k: "k < length cs" "cs ! k = Sub m" "btree_set_leaf m p = (r, m')" "0 < r"
        "cs' = cs[k := Sub m']" "res = r + k * F ^ Suc L"
      using ch by (auto simp del: power_Suc)
    have m: "Sub m \<in> set cs" using k(1,2) nth_mem by fastforce
    have st: "\<not> bt_full L m" "bt_ok F L m'" "r < F ^ Suc L" "bt_at F L m r = Null"
        "\<And>i. i < F ^ Suc L \<Longrightarrow> bt_at F L m' i = (if i = r then Leaf p else bt_at F L m i)"
      using Suc.IH [OF sub [OF m] small k(3)] k(4) by (auto simp: leaf_stored_def)
    have ok: "bt_ok F (Suc L) n'"
      using n(2-4) st(2) set_update_subset_insert [of cs k "Sub m'"] by (fastforce simp: cs'(2) k(5))
    have dm: "res div F ^ Suc L = k" "res mod F ^ Suc L = r" 
      using st(3) n(3) div_mult_self1 [of "F ^ Suc L" r k] by (simp_all add: k(6) del: power_Suc)
    have lt: "res < F ^ Suc (Suc L)"
    proof -
      have "res < (k + 1) * F ^ Suc L" using st(3) by (simp add: k(6) add.commute del: power_Suc)
      also have "\<dots> \<le> F * F ^ Suc L" using k(1) n(2) by (intro mult_right_mono) auto
      finally show ?thesis by simp
    qed
    have at: "bt_at F (Suc L) n' i = (if i = res then Leaf p else bt_at F (Suc L) n i)" if i: "i < F ^ Suc (Suc L)" for i
    proof (cases "i div F ^ Suc L = k")
      case True
      have "i = res \<longleftrightarrow> i mod F ^ Suc L = r" using True dm by (metis div_mult_mod_eq)
      moreover have "i mod F ^ Suc L < F ^ Suc L" using n(3) by simp
      ultimately show ?thesis using True st(5) k n(1) by (simp add: cs'(2) del: power_Suc)
    next
      case False
      moreover from this have "i \<noteq> res" using dm(1) by auto
      ultimately show ?thesis by (simp add: cs'(2) n(1) k(5) del: power_Suc)
    qed
    have "\<not> bt_full (Suc L) n" using st(1) m n(1) by (auto split: bchild.splits intro!: bexI [of _ "Sub m"])
    then show ?thesis
      using False ok lt at st(4) by (simp add: leaf_stored_def n(1) dm k(2) del: power_Suc)
  qed
qed

lemma new_leaf_free:
  assumes ok: "bt_ok F L root" and small: "F ^ Suc L \<le> 2 ^ 31" and free: "\<not> bt_full L root"
  shows "\<exists>res root'. btree_new_leaf kh root p = Some (res, root', kh) \<and> 0 < res \<and> bt_ok F L root' \<and>
    btree_get_index root res = Some Null \<and>
    (\<forall>i. btree_get_index root' i = (if i = res then Some (Leaf p) else btree_get_index root i))"
proof -
  obtain res root' where r: "btree_set_leaf root p = (res, root')" by force
  have st: "leaf_stored F L root p res root'" by (rule set_leaf_stored [OF ok small r])
  then have res: "0 < res" using free by (cases "res = 0") (simp_all add: leaf_stored_def)
  then have "bt_ok F L root'" "res < F ^ Suc L" "bt_at F L root res = Null"
      "\<And>i. i < F ^ Suc L \<Longrightarrow> bt_at F L root' i = (if i = res then Leaf p else bt_at F L root i)"
    using st by (simp_all add: leaf_stored_def del: power_Suc)
  moreover from this have "int_positive res" using res small by (simp del: power_Suc)
  moreover have "F ^ Suc L < 2 ^ 32" using small by (simp del: power_Suc)
  ultimately show ?thesis
    using res r by (simp add: btree_new_leaf_def get_index_at [OF ok] get_index_at [of F L root'] del: power_Suc)
qed

section \<open>Growing\<close>

text \<open>A chain of new nodes under first children, at most \<open>d\<close> long, holding no leaf.\<close>

fun chain_ok :: "nat \<Rightarrow> bchild \<Rightarrow> bool" where
  "chain_ok d Null \<longleftrightarrow> True"
| "chain_ok (Suc d) (Sub (BNode l f u (c # cs))) \<longleftrightarrow> chain_ok d c"
| "chain_ok d _ \<longleftrightarrow> False"

lemma chain_ok_mono: "chain_ok d c \<Longrightarrow> d \<le> e \<Longrightarrow> chain_ok e c"
proof (induction d c arbitrary: e rule: chain_ok.induct)
  case (2 d l f u c cs)
  then show ?case by (cases e) auto
qed auto

lemma chain_ok_new: "0 < F \<Longrightarrow> chain_ok (Suc d) (Sub (BNode 0 F 0 (replicate F Null)))"
  by (cases F) auto

lemma chain_ok_hook:
  "chain_ok d c \<Longrightarrow> new = Null \<or> (\<forall>d. chain_ok (Suc d) new) \<Longrightarrow> chain_ok (Suc d) (hook new c)"
proof (induction new c arbitrary: d rule: hook.induct)
  case (1 new l f u m cs)
  then show ?case by (cases d) auto
next
  case (2 new l f u cs)
  then show ?case by (cases d) auto
qed auto

lemma chain_walk: "chain_ok (Suc lvl) (Sub n) \<Longrightarrow> 0 < F \<Longrightarrow> bt_walk F lvl n (F ^ Suc lvl) 0 = Some Null"
proof (induction lvl arbitrary: n)
  case 0
  then obtain l f u c cs where "n = BNode l f u (c # cs)" "chain_ok 0 c"
    by (cases n; cases "bt_children n") auto
  then show ?case by (cases c) auto
next
  case (Suc lvl)
  then obtain l f u c cs where n: "n = BNode l f u (c # cs)" "chain_ok (Suc lvl) c"
    by (cases n; cases "bt_children n") auto
  have "F ^ Suc (Suc lvl) div F = F ^ Suc lvl" "F ^ Suc lvl \<noteq> 0" using Suc.prems(2) by auto
  then show ?case using Suc.IH Suc.prems(2) n by (cases c) (simp_all add: Let_def del: power_Suc)
qed

lemma grow_chain_ok:
  assumes "grow_chain kh F lvl old root = Some (root', kh')" "length (bt_children root) = F" "2 \<le> F"
    "chain_ok d (bt_children root ! 1)" "bt_fanout root = F"
  shows "bt_level root' = bt_level root \<and> bt_fanout root' = F \<and> length (bt_children root') = F \<and>
    chain_ok (d + lvl) (bt_children root' ! 1)"
  using assms
proof (induction lvl arbitrary: kh old root d)
  case 0
  then show ?case by auto
next
  case (Suc lvl)
  obtain n k2 where n: "btree_new kh F = Some (n, k2)" using Suc.prems(1) by (auto split: bind_split_asm prod.splits)
  define new where "new = (case n of None \<Rightarrow> Null | Some n \<Rightarrow> Sub n)"
  have new: "new = Null \<or> (\<forall>d. chain_ok (Suc d) new)"
    using n chain_ok_new [of F] Suc.prems(3)
    by (auto simp: btree_new_def new_def split: bind_split_asm prod.splits if_splits)
  define cs where "cs = bt_children root"
  define r where "r = (if old then BNode (bt_level root) F (bt_used root) (cs[1 := hook new (cs ! 1)])
                       else BNode (bt_level root) F (bt_used root + 1) (cs[1 := new]))"
  have g: "grow_chain k2 F lvl (n \<noteq> None) r = Some (root', kh')"
    using Suc.prems(1) by (cases old) (simp_all add: n Let_def new_def cs_def r_def)
  have "chain_ok (Suc d) (bt_children r ! 1)"
    using chain_ok_hook [OF Suc.prems(4) new] new Suc.prems(2,3) by (auto simp: r_def cs_def)
  then show ?case
    using Suc.IH [OF g, of "Suc d"] Suc.prems(2,3) by (auto simp: r_def cs_def)
qed

lemma new_leaf_full:
  assumes ok: "bt_ok F L root" and full: "bt_full L root" and F: "2 \<le> F" "F ^ Suc (Suc L) \<le> 2 ^ 31"
    and res: "btree_new_leaf kh root p = Some (res, root', kh')" "res \<noteq> 0"
  shows "res = F ^ Suc L" "btree_get_index root' res = Some Null"
proof -
  obtain r t where r: "btree_set_leaf root p = (r, t)" by force
  have pos: "0 < F ^ Suc L" "F ^ Suc L < F ^ Suc (Suc L)" using F by auto
  then have small: "F ^ Suc L \<le> 2 ^ 31" "F ^ Suc (Suc L) < 2 ^ 32" using F(2) by (simp_all del: power_Suc)
  have "leaf_stored F L root p r t" by (rule set_leaf_stored [OF ok small(1) r])
  then have rt: "r = 0" "t = root" using full by (auto simp: leaf_stored_def split: if_splits)
  note fld = bt_ok_fields [OF ok]
  obtain new k1 where new: "btree_new kh F = Some (Some new, k1)"
    using res by (auto simp: btree_new_leaf_def r rt fld split: bind_split_asm option.splits prod.splits)
  then have cs: "bt_children new = replicate F Null"
    by (auto simp: btree_new_def split: bind_split_asm prod.splits if_splits)
  let ?root = "BNode (Suc L) F 1 ((replicate F Null)[0 := Sub root])"
  have g: "grow_chain k1 F (Suc L) False ?root = Some (root', kh')" and "res = size_t (F ^ Suc L)"
    using res(1) by (auto simp: btree_new_leaf_def r rt fld new cs Let_def split: bind_split_asm prod.splits simp del: grow_chain.simps)
  then have e: "res = F ^ Suc L" using pos(2) small(2) by (simp only: size_t_id)
  show "res = F ^ Suc L" by (rule e)
  have c: "bt_level root' = Suc L" "bt_fanout root' = F" "length (bt_children root') = F" "chain_ok (Suc L) (bt_children root' ! 1)"
    using grow_chain_ok [OF g, of 0] F by auto
  have sz: "bt_size F (Suc L) = F ^ Suc (Suc L)" using F small(2) by (intro bt_size_power) auto
  have "F ^ Suc (Suc L) div F = F ^ Suc L" "F ^ Suc L div F ^ Suc L = 1" "F ^ Suc L mod F ^ Suc L = 0" using F by auto
  then show "btree_get_index root' res = Some Null"
    using c pos chain_walk [of L] F
    by (cases "bt_children root' ! 1") (auto simp: btree_get_index_def e sz Let_def simp del: power_Suc bt_size.simps)
qed

lemma malloc_keeps_inv: "ff_inv kh \<Longrightarrow> firstfit_malloc kh sz = Some (p, kh') \<Longrightarrow> ff_inv kh'"
  using malloc_null malloc_block by (cases "p = 0") blast+

lemma btree_new_returns:
  assumes "ff_inv kh"
  shows "\<exists>n kh'. btree_new kh F = Some (n, kh') \<and> ff_inv kh'"
proof -
  obtain p kh' where p: "firstfit_malloc kh (of_nat (12 + 4 * F)) = Some (p, kh')" using malloc_returns [OF assms] by blast
  then have "ff_inv kh'" by (rule malloc_keeps_inv [OF assms])
  then show ?thesis using p by (simp add: btree_new_def kmalloc_def)
qed

lemma grow_chain_returns:
  "ff_inv kh \<Longrightarrow> \<exists>root' kh'. grow_chain kh F lvl old root = Some (root', kh') \<and> ff_inv kh'"
proof (induction lvl arbitrary: kh old root)
  case (Suc lvl)
  obtain n kh1 where "btree_new kh F = Some (n, kh1)" "ff_inv kh1" using btree_new_returns [OF Suc.prems] by blast
  then show ?case using Suc.IH [of kh1] by (simp add: Let_def)
qed simp

lemma new_leaf_returns:
  assumes "ff_inv kh"
  shows "\<exists>res root' kh'. btree_new_leaf kh root p = Some (res, root', kh') \<and> ff_inv kh'"
proof -
  obtain r t where r: "btree_set_leaf root p = (r, t)" by force
  obtain n k1 where n: "btree_new kh (bt_fanout t) = Some (n, k1)" "ff_inv k1" using btree_new_returns [OF assms] by blast
  show ?thesis
  proof (cases n)
    case None
    then show ?thesis using assms r n by (auto simp: btree_new_leaf_def)
  next
    case (Some new)
    show ?thesis
      using grow_chain_returns [OF n(2), of "bt_fanout t" "bt_level t + 1" False
          "BNode (bt_level t + 1) (bt_fanout t) 1 ((bt_children new)[0 := Sub t])"] assms r n Some
      by (auto simp: btree_new_leaf_def Let_def simp del: grow_chain.simps)
  qed
qed

text \<open>When every bottom node is full, adding an inode returns and, if memory lasts, reports the first index past
  the old tree, but the inode is not stored: looking that index up in the grown tree gives null.\<close>

lemma btree_growth_loses_leaf:
  assumes "bt_ok F L root" "bt_full L root" "2 \<le> F" "F ^ Suc (Suc L) \<le> 2 ^ 31" "ff_inv kh"
  shows "\<exists>res root' kh'. btree_new_leaf kh root p = Some (res, root', kh') \<and> ff_inv kh' \<and>
    (res \<noteq> 0 \<longrightarrow> res = F ^ Suc L \<and> btree_get_index root' res = Some Null)"
  using new_leaf_returns [OF assms(5), of root p] new_leaf_full [OF assms(1-4)] by blast

section \<open>Properties\<close>



end
