(* ===== verification/Libc_String.thy ===== *)
theory Libc_String
  imports Libc_Memory
begin

text \<open>
  The string and character functions of \<^verbatim>\<open>lib/c/src/stdlib.c\<close>.  A C string is the list of its
  characters; past the end of the list the terminating NUL is read, and a NUL inside the list
  ends the string as well.  A pointer into a string is the suffix it points to, the null pointer is
  \<^const>\<open>None\<close>.  \<^verbatim>\<open>char\<close> is signed on this target.
\<close>

section \<open>Characters\<close>

definition NUL :: char where "NUL = CHR 0x00"

definition chr0 :: "string \<Rightarrow> char" where
  "chr0 s = (case s of [] \<Rightarrow> NUL | c # _ \<Rightarrow> c)"

definition schar :: "char \<Rightarrow> int" where
  "schar c = (let n = of_char c in if n < 128 then n else n - 256)"

definition ascii_chrgrp_rows :: "nat list list" where
  "ascii_chrgrp_rows =
    [[0x0004, 0x0004, 0x0004, 0x0004, 0x0004, 0x0004, 0x0004, 0x0004],
     [0x0004, 0x0804, 0x0804, 0x0804, 0x0804, 0x0804, 0x0004, 0x0004],
     [0x0004, 0x0004, 0x0004, 0x0004, 0x0004, 0x0004, 0x0004, 0x0004],
     [0x0004, 0x0004, 0x0004, 0x0004, 0x0004, 0x0004, 0x0004, 0x0004],
     [0x0800, 0x0010, 0x0010, 0x0010, 0x0010, 0x0010, 0x0010, 0x0010],
     [0x0010, 0x0010, 0x0010, 0x0010, 0x0010, 0x0010, 0x0010, 0x0010],
     [0x20b9, 0x20b9, 0x20b9, 0x20b9, 0x20b9, 0x20b9, 0x20b9, 0x20b9],
     [0x20b9, 0x20b9, 0x0010, 0x0010, 0x0010, 0x0010, 0x0010, 0x0010],
     [0x0010, 0x3033, 0x3033, 0x3033, 0x3033, 0x3033, 0x3033, 0x1013],
     [0x1013, 0x1013, 0x1013, 0x1013, 0x1013, 0x1013, 0x1013, 0x1013],
     [0x1013, 0x1013, 0x1013, 0x1013, 0x1013, 0x1013, 0x1013, 0x1013],
     [0x1013, 0x1013, 0x1013, 0x0010, 0x0010, 0x0010, 0x0010, 0x0010],
     [0x0010, 0x2073, 0x2073, 0x2073, 0x2073, 0x2073, 0x2073, 0x0053],
     [0x0053, 0x0053, 0x0053, 0x0053, 0x0053, 0x0053, 0x0053, 0x0053],
     [0x0053, 0x0053, 0x0053, 0x0053, 0x0053, 0x0053, 0x0053, 0x0053],
     [0x0053, 0x0053, 0x0053, 0x0010, 0x0010, 0x0010, 0x0010, 0x0004]]"

text \<open>
  The table has 128 entries and the code does not test the index.  For a character outside
  0..127 the C code reads outside the table; the model reads no group there, and no theorem below
  speaks about such characters.
\<close>

definition ascii_chrgrp :: "int \<Rightarrow> nat" where
  "ascii_chrgrp c = (if 0 \<le> c \<and> c < 128 then concat ascii_chrgrp_rows ! nat c else 0)"

definition isalnum :: "int \<Rightarrow> nat" where "isalnum c = ascii_chrgrp c AND 0x0001"
definition isalpha :: "int \<Rightarrow> nat" where "isalpha c = ascii_chrgrp c AND 0x0002"
definition iscntrl :: "int \<Rightarrow> nat" where "iscntrl c = ascii_chrgrp c AND 0x0004"
definition isdigit :: "int \<Rightarrow> nat" where "isdigit c = ascii_chrgrp c AND 0x0008"
definition isgraph :: "int \<Rightarrow> nat" where "isgraph c = ascii_chrgrp c AND 0x0010"
definition islower :: "int \<Rightarrow> nat" where "islower c = ascii_chrgrp c AND 0x0040"
definition isprint :: "int \<Rightarrow> nat" where "isprint c = ascii_chrgrp c AND 0x0200"
definition ispunct :: "int \<Rightarrow> nat" where "ispunct c = ascii_chrgrp c AND 0x0400"
definition isspace :: "int \<Rightarrow> nat" where "isspace c = ascii_chrgrp c AND 0x0800"
definition isupper :: "int \<Rightarrow> nat" where "isupper c = ascii_chrgrp c AND 0x1000"
definition isxdigit :: "int \<Rightarrow> nat" where "isxdigit c = ascii_chrgrp c AND 0x2000"

definition tolower :: "int \<Rightarrow> int" where
  "tolower c = (if 65 \<le> c \<and> c \<le> 90 then c + 97 - 65 else c)"

definition toupper :: "int \<Rightarrow> int" where
  "toupper c = (if 97 \<le> c \<and> c \<le> 122 then c + 65 - 97 else c)"

section \<open>Length and comparison\<close>

fun strlen :: "string \<Rightarrow> nat" where
  "strlen [] = 0"
| "strlen (c # s) = (if c = NUL then 0 else Suc (strlen s))"

fun strnlen :: "string \<Rightarrow> nat \<Rightarrow> nat" where
  "strnlen [] maxlen = 0"
| "strnlen (c # s) maxlen = (if c = NUL \<or> maxlen = 0 then 0 else Suc (strnlen s (maxlen - 1)))"

fun strncmp :: "string \<Rightarrow> string \<Rightarrow> nat \<Rightarrow> int" where
  "strncmp s1 s2 n =
     (if n = 0 then 0
      else if chr0 s1 \<noteq> chr0 s2 then schar (chr0 s1) - schar (chr0 s2)
      else if chr0 s1 = NUL then 0
      else strncmp (tl s1) (tl s2) (n - 1))"

declare strncmp.simps [simp del]

definition UINT_MAX :: nat where "UINT_MAX = 4294967295"

definition strcmp :: "string \<Rightarrow> string \<Rightarrow> int" where
  "strcmp s1 s2 = strncmp s1 s2 UINT_MAX"

fun strncasecmp :: "string \<Rightarrow> string \<Rightarrow> nat \<Rightarrow> int" where
  "strncasecmp s1 s2 n =
     (if n = 0 then 0
      else
        let lc1 = tolower (schar (chr0 s1)); lc2 = tolower (schar (chr0 s2)) in
        if lc1 \<noteq> lc2 then lc2 - lc1
        else if chr0 s1 = NUL then 0
        else strncasecmp (tl s1) (tl s2) (n - 1))"

declare strncasecmp.simps [simp del]

definition strcasecmp :: "string \<Rightarrow> string \<Rightarrow> int" where
  "strcasecmp s1 s2 = strncasecmp s1 s2 UINT_MAX"

section \<open>Searching\<close>

text \<open>The part of a string before its terminator.\<close>

definition cstr :: "string \<Rightarrow> string" where
  "cstr s = takeWhile (\<lambda>c. c \<noteq> NUL) s"

definition strspn :: "string \<Rightarrow> string \<Rightarrow> nat" where
  "strspn s1 s2 = (let accept = set (cstr s2) in length (takeWhile (\<lambda>c. c \<in> accept) (cstr s1)))"

text \<open>The bound is compared as an \<^verbatim>\<open>int\<close>.\<close>

fun strnchr :: "string \<Rightarrow> int \<Rightarrow> char \<Rightarrow> string option" where
  "strnchr [] n c = None"
| "strnchr (a # s) n c =
     (if a = NUL \<or> \<not> 0 < n then None else if c = a then Some (a # s) else strnchr s (n - 1) c)"

fun strnrchr_loop :: "string \<Rightarrow> nat \<Rightarrow> char \<Rightarrow> string option \<Rightarrow> string option" where
  "strnrchr_loop [] n c found = found"
| "strnrchr_loop (a # s) n c found =
     (if a = NUL \<or> n = 0 then found
      else strnrchr_loop s (n - 1) c (if c = a then Some (a # s) else found))"

definition strnrchr :: "string \<Rightarrow> nat \<Rightarrow> char \<Rightarrow> string option" where
  "strnrchr s n c = strnrchr_loop s n c None"

definition strchr :: "string \<Rightarrow> char \<Rightarrow> string option" where
  "strchr s c = strnchr s 2147483647 c"

definition strrchr :: "string \<Rightarrow> char \<Rightarrow> string option" where
  "strrchr s c = strnrchr s 2147483647 c"

section \<open>Copying\<close>

text \<open>
  The bytes that \<^verbatim>\<open>strncpy\<close> and \<^verbatim>\<open>strcpy\<close> store at the destination.  This \<^verbatim>\<open>strncpy\<close> always stores a
  terminator, after at most \<open>n\<close> characters.
\<close>

fun strncpy :: "string \<Rightarrow> nat \<Rightarrow> string" where
  "strncpy [] n = [NUL]"
| "strncpy (c # s) n = (if c = NUL \<or> n = 0 then [NUL] else c # strncpy s (n - 1))"

fun strcpy :: "string \<Rightarrow> string" where
  "strcpy [] = [NUL]"
| "strcpy (c # s) = (if c = NUL then [NUL] else c # strcpy s)"

text \<open>\<^verbatim>\<open>strndup\<close>: the size it allocates and the bytes it stores there.\<close>

definition strndup :: "string \<Rightarrow> nat \<Rightarrow> nat \<times> string" where
  "strndup s n = (let len = strlen s + 1 in (if n < len then n else len, strncpy s n))"

definition strdup :: "string \<Rightarrow> nat \<times> string" where
  "strdup s = strndup s UINT_MAX"

section \<open>Tokens\<close>

text \<open>
  \<^verbatim>\<open>strtok_r\<close> returns the token and the new \<^verbatim>\<open>*saveptr\<close>.  The NUL that it stores behind the token is
  what ends the token in the result.
\<close>

definition strtok_r :: "string option \<Rightarrow> string \<Rightarrow> string option \<Rightarrow> string option \<times> string option" where
  "strtok_r str delim saveptr =
     (case (case str of None \<Rightarrow> saveptr | Some s \<Rightarrow> Some s) of
        None \<Rightarrow> (None, saveptr)
      | Some s \<Rightarrow>
          let tok = dropWhile (\<lambda>c. strchr delim c \<noteq> None) (cstr s) in
          if tok = [] then (None, saveptr)
          else
            let rest = dropWhile (\<lambda>c. strchr delim c = None) tok in
            if rest = [] then (Some tok, None)
            else (Some (takeWhile (\<lambda>c. strchr delim c = None) tok), Some (tl rest)))"

section \<open>Hashing\<close>

text \<open>\<^verbatim>\<open>hash += key[i]\<close> adds a sign-extended \<^verbatim>\<open>char\<close>.\<close>

definition hash_step :: "u32 \<Rightarrow> char \<Rightarrow> u32" where
  "hash_step hash c =
     (let hash = hash + word_of_int (schar c);
          hash = hash + push_bit 10 hash
      in hash XOR drop_bit 6 hash)"

definition strhash :: "string \<Rightarrow> u32" where
  "strhash key =
     (let hash = foldl hash_step 0 key;
          hash = hash + push_bit 3 hash;
          hash = hash + drop_bit 11 hash
      in hash + push_bit 15 hash)"

section \<open>Numbers\<close>

definition abs_c :: "u32 \<Rightarrow> u32" where
  "abs_c i = (if 0 \<le> sint i then i else - i)"

fun skip_space :: "string \<Rightarrow> string" where
  "skip_space [] = []"
| "skip_space (c # s) = (if isspace (schar c) \<noteq> 0 then skip_space s else c # s)"

text \<open>\<^verbatim>\<open>int\<close> arithmetic wraps.\<close>

fun atoi_digits :: "u32 \<Rightarrow> string \<Rightarrow> u32" where
  "atoi_digits res [] = res"
| "atoi_digits res (c # s) =
     (if isdigit (schar c) \<noteq> 0 then atoi_digits (res * 10 + word_of_int (schar c - 48)) s else res)"

definition atoi :: "string \<Rightarrow> int" where
  "atoi nptr =
     (let s = skip_space nptr in
      if chr0 s = CHR ''+'' then sint (atoi_digits 0 (tl s))
      else if chr0 s = CHR ''-'' then sint (- atoi_digits 0 (tl s))
      else sint (atoi_digits 0 s))"

definition getbasedigit :: "char \<Rightarrow> int \<Rightarrow> int" where
  "getbasedigit c base =
     (let lc = tolower (schar c) in
      if base \<le> 0 \<or> 36 < base then -1
      else if 10 < base \<and> 97 \<le> lc \<and> lc < 97 + base - 10 then lc - 97 + 10
      else if 48 \<le> lc \<and> lc < 48 + base then lc - 48
      else -1)"

text \<open>
  The result of \<^verbatim>\<open>strtol\<close>: the value, \<^verbatim>\<open>*endptr\<close> (\<^const>\<open>None\<close> for null) and \<^verbatim>\<open>theErrNo\<close> (0 or an error
  number).
\<close>

fun strtol_digits :: "u32 \<Rightarrow> int \<Rightarrow> bool \<Rightarrow> string \<Rightarrow> int \<times> string option \<times> int" where
  "strtol_digits res base neg s =
     (let digit = getbasedigit (chr0 s) base in
      if digit < 0 \<or> s = [] then (sint (if neg then - res else res), Some s, 0)
      else
        let res' = res * 10 + word_of_int digit in
        if sint res' < sint res then (0, None, errno_code ERANGE)
        else strtol_digits res' base neg (tl s))"

declare strtol_digits.simps [simp del]

definition strtol :: "string \<Rightarrow> int \<Rightarrow> int \<times> string option \<times> int" where
  "strtol nptr base =
     (if 36 < base then (0, Some nptr, 0)
      else
        let c = skip_space nptr;
            neg = (chr0 c = CHR ''-'');
            c = (if chr0 c = CHR ''-'' \<or> chr0 c = CHR ''+'' then tl c else c)
        in
        if base = 0 \<and> chr0 c = CHR ''0'' then
          let c = tl c in
          if tolower (schar (chr0 c)) = 120 then
            (if getbasedigit (chr0 (tl c)) 16 = -1 then (0, Some nptr, 0) else strtol_digits 0 16 neg (tl c))
          else if getbasedigit (chr0 c) 8 \<noteq> -1 then strtol_digits 0 8 neg c
          else (0, Some c, 0)
        else
          let base = (if base = 0 then 10 else base) in
          if getbasedigit (chr0 c) base = -1 then (0, Some nptr, 0) else strtol_digits 0 base neg c)"

section \<open>Environment\<close>

text \<open>The kernel's \<^verbatim>\<open>getenv\<close>; \<open>environ\<close> is \<^const>\<open>None\<close> when the pointer is null.\<close>

definition getenv :: "string list option \<Rightarrow> string \<Rightarrow> string option" where
  "getenv environ name =
     (if strcmp name ''UNAME'' = 0 then Some ''COSEC''
      else case environ of
        None \<Rightarrow> None
      | Some env \<Rightarrow>
          let namelen = strlen name in
          case find (\<lambda>pair. strncmp name pair namelen = 0 \<and> chr0 (drop namelen pair) = CHR ''='') env of
            None \<Rightarrow> None
          | Some pair \<Rightarrow> Some (drop (namelen + 1) pair))"

section \<open>Comparison decides equality\<close>

lemma schar_inject [simp]: "schar a = schar b \<longleftrightarrow> a = b"
proof -
  have r: "(of_char c :: int) < 256" "0 \<le> (of_char c :: int)" for c :: char
    using pos_mod_bound [of 256 "of_char c :: int"] pos_mod_sign [of 256 "of_char c :: int"] by simp_all
  have "(of_char a :: int) = of_char b" if "schar a = schar b"
    using that r [of a] r [of b] by (auto simp: schar_def Let_def split: if_splits)
  then show ?thesis by auto
qed

lemma cstr_Cons: "cstr (c # s) = (if c = NUL then [] else c # cstr s)"
  by (simp add: cstr_def)

lemma cstr_Nil [simp]: "cstr [] = []"
  by (simp add: cstr_def)

lemma cstr_chr0: "cstr s = (if chr0 s = NUL then [] else chr0 s # cstr (tl s))"
  by (cases s) (auto simp: cstr_Cons chr0_def)

lemma strlen_cstr: "strlen s = length (cstr s)"
  by (induction s) (auto simp: cstr_Cons)

lemma cstr_id: "NUL \<notin> set s \<Longrightarrow> cstr s = s"
  by (simp add: cstr_def takeWhile_eq_all_conv) metis

lemma strncmp_zero: "strncmp s1 s2 n = 0 \<longleftrightarrow> take n (cstr s1) = take n (cstr s2)"
proof (induction s1 s2 n rule: strncmp.induct)
  case (1 s1 s2 n)
  show ?case
  proof (cases "n = 0 \<or> chr0 s1 \<noteq> chr0 s2 \<or> chr0 s1 = NUL")
    case True
    then show ?thesis
      by (subst strncmp.simps, subst cstr_chr0, subst cstr_chr0 [of s2]) (auto simp: take_Cons')
  next
    case False
    then show ?thesis
      using 1 by (subst strncmp.simps, subst cstr_chr0, subst cstr_chr0 [of s2]) (auto simp: take_Cons')
  qed
qed

section \<open>Tokens are the fields between delimiters\<close>

lemma strnchr_found: "int (length s) \<le> n \<Longrightarrow> strnchr s n c \<noteq> None \<longleftrightarrow> c \<in> set (cstr s)"
  by (induction s arbitrary: n) (auto simp: cstr_Cons)

lemma strchr_found: "length s < 2 ^ 31 \<Longrightarrow> strchr s c \<noteq> None \<longleftrightarrow> c \<in> set (cstr s)"
  unfolding strchr_def by (rule strnchr_found) simp

text \<open>
  The way a caller takes a string apart: the first call passes the string, every further call the null pointer and
  the saved pointer of the call before, until null is returned.
\<close>

abbreviation strtok_input :: "string option \<Rightarrow> string option \<Rightarrow> string option" where
  "strtok_input str saveptr \<equiv> (case str of None \<Rightarrow> saveptr | Some s \<Rightarrow> Some s)"

abbreviation strtok_left :: "string option \<Rightarrow> nat" where
  "strtok_left p \<equiv> (case p of None \<Rightarrow> 0 | Some s \<Rightarrow> length s)"

lemma strtok_r_shorter:
  assumes "strtok_r str delim saveptr = (Some t, saveptr')"
  shows "strtok_left saveptr' < strtok_left (strtok_input str saveptr)"
proof (cases "strtok_input str saveptr")
  case None
  then show ?thesis using assms by (simp add: strtok_r_def)
next
  case (Some s)
  define tok where "tok = dropWhile (\<lambda>c. strchr delim c \<noteq> None) (cstr s)"
  define rest where "rest = dropWhile (\<lambda>c. strchr delim c = None) tok"
  have l: "length rest \<le> length tok" "length tok \<le> length (cstr s)" "length (cstr s) \<le> length s"
    unfolding rest_def tok_def by (rule length_dropWhile_le)+ (simp add: cstr_def length_takeWhile_le)
  have "strtok_r str delim saveptr =
      (if tok = [] then (None, saveptr) else if rest = [] then (Some tok, None)
       else (Some (takeWhile (\<lambda>c. strchr delim c = None) tok), Some (tl rest)))"
    unfolding strtok_r_def Some option.case Let_def tok_def [symmetric] rest_def [symmetric] ..
  then have t: "tok \<noteq> []" "saveptr' = (if rest = [] then None else Some (tl rest))"
    using assms by (simp_all split: if_splits)
  from t(1) have "0 < length s" using l(2,3) by (cases tok) auto
  then show ?thesis using l unfolding t(2) Some by (cases rest) simp_all
qed

function strtok_all :: "string option \<Rightarrow> string \<Rightarrow> string option \<Rightarrow> string list" where
  "strtok_all str delim saveptr =
     (case strtok_r str delim saveptr of
        (None, _) \<Rightarrow> []
      | (Some t, saveptr') \<Rightarrow> t # strtok_all None delim saveptr')"
  by pat_completeness auto
termination
proof (relation "measure (\<lambda>(str, _, saveptr). strtok_left (strtok_input str saveptr))", goal_cases)
  case (2 str delim saveptr x y t)
  then show ?case using strtok_r_shorter [of str delim saveptr t y] by simp
qed simp

declare strtok_all.simps [simp del]

text \<open>The non-empty fields of a list that is split at the delimiters.\<close>

fun fields :: "('a \<Rightarrow> bool) \<Rightarrow> 'a list \<Rightarrow> 'a list \<Rightarrow> 'a list list" where
  "fields d cur [] = (if cur = [] then [] else [rev cur])"
| "fields d cur (c # s) =
     (if d c then (if cur = [] then [] else [rev cur]) @ fields d [] s else fields d (c # cur) s)"

lemma fields_skip: "fields d [] (dropWhile d s) = fields d [] s"
  by (induction s) auto

lemma fields_take:
  "fields d cur s =
     (let t = rev cur @ takeWhile (\<lambda>c. \<not> d c) s; r = dropWhile (\<lambda>c. \<not> d c) s
      in (if t = [] then [] else [t]) @ (if r = [] then [] else fields d [] (tl r)))"
  by (induction s arbitrary: cur) (auto simp: Let_def)

lemma strtok_all_fields:
  assumes d: "length delim < 2 ^ 31"
  shows "strtok_input str saveptr = Some s \<Longrightarrow> NUL \<notin> set s \<Longrightarrow>
    strtok_all str delim saveptr = fields (\<lambda>c. c \<in> set (cstr delim)) [] s"
proof (induction s arbitrary: str saveptr rule: length_induct)
  case (1 s)
  let ?d = "\<lambda>c. c \<in> set (cstr delim)"
  have c: "cstr s = s" using 1(3) by (rule cstr_id)
  have f: "strchr delim c = None \<longleftrightarrow> \<not> ?d c" for c using strchr_found [OF d, of c] by blast
  define tok where "tok = dropWhile ?d s"
  have fs: "fields ?d [] s = fields ?d [] tok" by (simp add: tok_def fields_skip)
  show ?case
  proof (cases "tok = []")
    case True
    then have "strtok_r str delim saveptr = (None, saveptr)" using 1(2) by (simp add: strtok_r_def Let_def c f tok_def)
    with True fs show ?thesis by (subst strtok_all.simps) simp
  next
    case False
    define rest where "rest = dropWhile (\<lambda>c. \<not> ?d c) tok"
    have hd: "\<not> ?d (hd tok)" using hd_dropWhile [of ?d s] False by (simp add: tok_def)
    then have tk: "takeWhile (\<lambda>c. \<not> ?d c) tok \<noteq> []" using False by (cases tok) auto
    have len: "length (tl rest) < length s" if "rest \<noteq> []"
    proof -
      have "length rest \<le> length tok" "length tok \<le> length s"
        unfolding rest_def tok_def by (rule length_dropWhile_le)+
      then show ?thesis using that by (cases rest) auto
    qed
    have "set rest \<subseteq> set tok" "set tok \<subseteq> set s"
      unfolding rest_def tok_def by (auto dest: set_dropWhileD)
    then have nul: "NUL \<notin> set (tl rest)" using 1(3) by (auto dest: in_set_tlD)
    have whole: "takeWhile (\<lambda>c. \<not> ?d c) tok = tok" if "rest = []"
      using that unfolding rest_def by (simp add: takeWhile_eq_all_conv)
    have r: "strtok_r str delim saveptr =
        (if rest = [] then (Some tok, None) else (Some (takeWhile (\<lambda>c. \<not> ?d c) tok), Some (tl rest)))"
      using False 1(2) by (simp add: strtok_r_def Let_def c f tok_def [symmetric] rest_def [symmetric])
    have ft: "fields ?d [] tok = takeWhile (\<lambda>c. \<not> ?d c) tok # (if rest = [] then [] else fields ?d [] (tl rest))"
      using fields_take [of ?d "[]" tok] tk by (simp add: Let_def rest_def [symmetric])
    show ?thesis
    proof (cases "rest = []")
      case True
      have "strtok_all None delim None = []" by (subst strtok_all.simps) (simp add: strtok_r_def)
      then show ?thesis unfolding fs ft whole [OF True] using True r by (subst strtok_all.simps) simp
    next
      case False
      then have "strtok_all None delim (Some (tl rest)) = fields ?d [] (tl rest)" using len nul 1(1) by simp
      then show ?thesis unfolding fs ft using False r by (subst strtok_all.simps) simp
    qed
  qed
qed

section \<open>Character classes\<close>

text \<open>What the group bits of entry \<open>n\<close> are meant to say, checked entry by entry.\<close>

definition groups_ok :: "nat \<Rightarrow> nat \<Rightarrow> bool" where
  "groups_ok n g \<longleftrightarrow>
     (g AND 0x0008 \<noteq> 0 \<longleftrightarrow> 48 \<le> n \<and> n \<le> 57) \<and>
     (g AND 0x0800 \<noteq> 0 \<longleftrightarrow> n = 32 \<or> 9 \<le> n \<and> n \<le> 13) \<and>
     (g AND 0x1000 \<noteq> 0 \<longleftrightarrow> 65 \<le> n \<and> n \<le> 90) \<and>
     (g AND 0x0040 \<noteq> 0 \<longleftrightarrow> 97 \<le> n \<and> n \<le> 122) \<and>
     (g AND 0x2000 \<noteq> 0 \<longleftrightarrow> 48 \<le> n \<and> n \<le> 57 \<or> 65 \<le> n \<and> n \<le> 70 \<or> 97 \<le> n \<and> n \<le> 102) \<and>
     (g AND 0x0002 \<noteq> 0 \<longleftrightarrow> 65 \<le> n \<and> n \<le> 90 \<or> 97 \<le> n \<and> n \<le> 122) \<and>
     (g AND 0x0001 \<noteq> 0 \<longleftrightarrow> 48 \<le> n \<and> n \<le> 57 \<or> 65 \<le> n \<and> n \<le> 90 \<or> 97 \<le> n \<and> n \<le> 122) \<and>
     (g AND 0x0004 \<noteq> 0 \<longleftrightarrow> n < 32 \<or> n = 127) \<and>
     (g AND 0x0010 \<noteq> 0 \<longleftrightarrow> 33 \<le> n \<and> n \<le> 126) \<and>
     g AND 0x0200 = 0 \<and> g AND 0x0400 = 0"

fun rows_ok :: "int \<Rightarrow> nat list \<Rightarrow> bool" where
  "rows_ok n [] = True"
| "rows_ok n (g # gs) = (groups_ok (nat n) g \<and> rows_ok (n + 1) gs)"

lemma rows_ok_nth: "rows_ok (int n) gs \<Longrightarrow> i < length gs \<Longrightarrow> groups_ok (n + i) (gs ! i)"
proof (induction gs arbitrary: n i)
  case (Cons g gs)
  show ?case
  proof (cases i)
    case (Suc j)
    then show ?thesis using Cons.IH [of "n + 1" j] Cons.prems by (simp add: add.commute)
  qed (use Cons.prems in simp)
qed simp

text \<open>The nine values that occur in the table.\<close>

lemma groups_ok_vals:
  "n \<le> 8 \<Longrightarrow> groups_ok n 0x0004" "14 \<le> n \<Longrightarrow> n \<le> 31 \<Longrightarrow> groups_ok n 0x0004" "groups_ok 127 0x0004"
  "9 \<le> n \<Longrightarrow> n \<le> 13 \<Longrightarrow> groups_ok n 0x0804" "groups_ok 32 0x0800"
  "33 \<le> n \<Longrightarrow> n \<le> 47 \<Longrightarrow> groups_ok n 0x0010" "58 \<le> n \<Longrightarrow> n \<le> 64 \<Longrightarrow> groups_ok n 0x0010"
  "91 \<le> n \<Longrightarrow> n \<le> 96 \<Longrightarrow> groups_ok n 0x0010" "123 \<le> n \<Longrightarrow> n \<le> 126 \<Longrightarrow> groups_ok n 0x0010"
  "48 \<le> n \<Longrightarrow> n \<le> 57 \<Longrightarrow> groups_ok n 0x20b9" "65 \<le> n \<Longrightarrow> n \<le> 70 \<Longrightarrow> groups_ok n 0x3033"
  "71 \<le> n \<Longrightarrow> n \<le> 90 \<Longrightarrow> groups_ok n 0x1013" "97 \<le> n \<Longrightarrow> n \<le> 102 \<Longrightarrow> groups_ok n 0x2073"
  "103 \<le> n \<Longrightarrow> n \<le> 122 \<Longrightarrow> groups_ok n 0x0053"
  by (simp_all add: groups_ok_def)

lemma table_ok: "rows_ok 0 (concat ascii_chrgrp_rows)" "length (concat ascii_chrgrp_rows) = 128"
  by (simp_all add: ascii_chrgrp_rows_def groups_ok_vals)

lemma groups_at: "n < 128 \<Longrightarrow> groups_ok n (ascii_chrgrp (int n))"
  using rows_ok_nth [of 0 _ n] table_ok(1) table_ok(2) by (simp add: ascii_chrgrp_def)

lemma ctype_at:
  assumes "n < 128"
  shows "isdigit (int n) \<noteq> 0 \<longleftrightarrow> 48 \<le> n \<and> n \<le> 57"
    and "isspace (int n) \<noteq> 0 \<longleftrightarrow> n = 32 \<or> 9 \<le> n \<and> n \<le> 13"
  using groups_at [OF assms] unfolding groups_ok_def isdigit_def isspace_def by blast+

section \<open>Decimal numbers\<close>

text \<open>The digit with value \<open>d\<close>, and the value of a list of digits.\<close>

definition digit_char :: "nat \<Rightarrow> char" where
  "digit_char d = char_of (48 + d)"

definition digits_val :: "nat list \<Rightarrow> nat" where
  "digits_val ds = foldl (\<lambda>v d. v * 10 + d) 0 ds"

lemma schar_char_of:
  assumes "n < 128"
  shows "schar (char_of n) = int n"
proof -
  have "(of_char (char_of n) :: int) = int (of_char (char_of n))" by (simp only: of_nat_of_char)
  then show ?thesis using assms by (simp add: schar_def Let_def)
qed

lemma digit_facts:
  assumes "d < 10"
  shows "schar (digit_char d) = 48 + int d" "isdigit (schar (digit_char d)) \<noteq> 0"
    "isspace (schar (digit_char d)) = 0" "getbasedigit (digit_char d) 10 = int d"
proof -
  show s: "schar (digit_char d) = 48 + int d"
    using assms unfolding digit_char_def by (subst schar_char_of) auto
  have s': "schar (digit_char d) = int (48 + d)" using s by simp
  show "isdigit (schar (digit_char d)) \<noteq> 0" unfolding s' using assms by (subst ctype_at) auto
  show "isspace (schar (digit_char d)) = 0" unfolding s' using assms ctype_at(2) [of "48 + d"] by auto
  show "getbasedigit (digit_char d) 10 = int d" using assms by (simp add: getbasedigit_def Let_def s tolower_def)
qed

lemma atoi_digits_word:
  "\<forall>d \<in> set ds. d < 10 \<Longrightarrow>
   atoi_digits (of_nat v) (map digit_char ds) = of_nat (foldl (\<lambda>v d. v * 10 + d) v ds)"
proof (induction ds arbitrary: v)
  case (Cons d ds)
  from Cons.prems have d: "d < 10" by simp
  have ih: "atoi_digits (of_nat (v * 10 + d)) (map digit_char ds)
      = of_nat (foldl (\<lambda>v d. v * 10 + d) (v * 10 + d) ds)"
    by (rule Cons.IH) (use Cons.prems in simp)
  have "of_nat v * 10 + word_of_int (schar (digit_char d) - 48) = (of_nat (v * 10 + d) :: u32)"
    by (simp add: digit_facts(1) [OF d])
  with ih show ?case by (simp add: digit_facts(2) [OF d])
qed simp

lemma skip_space_digit: "d < 10 \<Longrightarrow> skip_space (digit_char d # s) = digit_char d # s"
  by (simp add: digit_facts(3))

lemma digit_char_sign: "d < 10 \<Longrightarrow> digit_char d \<noteq> CHR ''+'' \<and> digit_char d \<noteq> CHR ''-''"
  using digit_facts(1) [of d] by (auto simp: schar_def Let_def)

lemma digits_val_mono: "v \<le> foldl (\<lambda>v d. v * 10 + d) v ds" for v :: nat
proof (induction ds arbitrary: v)
  case (Cons d ds)
  show ?case using Cons [of "v * 10 + d"] by simp
qed simp

lemma strtol_digits_dec:
  "\<forall>d \<in> set ds. d < 10 \<Longrightarrow> foldl (\<lambda>v d. v * 10 + d) v ds < 2 ^ 31 \<Longrightarrow>
   strtol_digits (of_nat v) 10 neg (map digit_char ds) =
     ((if neg then -1 else 1) * int (foldl (\<lambda>v d. v * 10 + d) v ds), Some [], 0)"
proof (induction ds arbitrary: v)
  case Nil
  then have v: "v < 2 ^ 31" by simp
  have s: "sint (of_nat v :: u32) = int v" using v by (simp add: sint_u32 unat_of_nat_u32)
  have "sint (- of_nat v :: u32) = - int v"
  proof (cases "v = 0")
    case False
    have "unat (- of_nat v :: u32) = 2 ^ 32 - v"
      using v False unat_sub_if_size [of 0 "of_nat v :: u32"] by (simp add: unat_of_nat_u32 word_size)
    then show ?thesis using v False unfolding sint_u32 by simp
  qed simp
  with s show ?case
    by (subst strtol_digits.simps) (simp add: chr0_def getbasedigit_def NUL_def Let_def schar_def tolower_def)
next
  case (Cons d ds)
  let ?v = "v * 10 + d"
  from Cons.prems have d: "d < 10" by simp
  have ih: "strtol_digits (of_nat ?v) 10 neg (map digit_char ds) =
     ((if neg then -1 else 1) * int (foldl (\<lambda>v d. v * 10 + d) ?v ds), Some [], 0)"
    by (rule Cons.IH) (use Cons.prems in simp_all)
  have b: "?v < 2 ^ 31" using digits_val_mono [of ?v ds] Cons.prems(2) by simp
  have w: "of_nat v * 10 + word_of_int (int d) = (of_nat ?v :: u32)" by simp
  have "sint (of_nat v :: u32) = int v" "sint (of_nat ?v :: u32) = int ?v"
    using b by (simp_all add: sint_u32 unat_of_nat_u32 del: of_nat_add of_nat_mult)
  then have "\<not> sint (of_nat ?v :: u32) < sint (of_nat v :: u32)" by (simp del: of_nat_add of_nat_mult)
  then show ?case
    using ih digit_facts(4) [OF d] w
    by (subst strtol_digits.simps) (simp add: chr0_def Let_def del: of_nat_add of_nat_mult)
qed

section \<open>Properties\<close>

text \<open>C36. \<^verbatim>\<open>strncmp\<close> answers 0 exactly when the two strings agree up to their terminators or on their
  first \<open>n\<close> characters, whichever comes first.\<close>

theorem strncmp_zero_iff: "strncmp s1 s2 n = 0 \<longleftrightarrow> take n (cstr s1) = take n (cstr s2)"
  by (rule strncmp_zero)

text \<open>C34. Calling \<^verbatim>\<open>strtok_r\<close> with a string, and then with the null pointer until it returns null, yields, in order,
  exactly the non-empty fields of the string between delimiter characters.\<close>

theorem strtok_r_fields:
  assumes "length delim < 2 ^ 31" and "NUL \<notin> set s"
  shows "strtok_all (Some s) delim saveptr = fields (\<lambda>c. c \<in> set (cstr delim)) [] s"
  by (rule strtok_all_fields [OF assms(1) _ assms(2)]) simp

theorem strtok_r_fields_witness:
  "strtok_all (Some ''ab: c::d '') '' :'' None = [''ab'', ''c'', ''d'']"
  using strtok_r_fields [of "'' :''" "''ab: c::d ''" None] by (simp add: NUL_def cstr_def)

text \<open>C35. On a decimal numeral below $2^{31}$, with or without a minus sign, \<^verbatim>\<open>atoi\<close> and \<^verbatim>\<open>strtol\<close> with base 10
  return its value, \<^verbatim>\<open>strtol\<close> stops at the end of the string and reports no error.\<close>

theorem decimal_numerals:
  assumes "ds \<noteq> []" and "\<forall>d \<in> set ds. d < 10" and "digits_val ds < 2 ^ 31"
  shows "atoi (map digit_char ds) = int (digits_val ds) \<and>
    strtol (map digit_char ds) 10 = (int (digits_val ds), Some [], 0) \<and>
    strtol (CHR ''-'' # map digit_char ds) 10 = (- int (digits_val ds), Some [], 0)"
proof -
  obtain d ds' where ds: "ds = d # ds'" using assms(1) by (cases ds) auto
  have d: "d < 10" using assms(2) ds by simp
  note df = digit_facts [OF d] digit_char_sign [OF d]
  have "atoi_digits 0 (map digit_char ds) = of_nat (digits_val ds)"
    using atoi_digits_word [OF assms(2), of 0] by (simp add: digits_val_def)
  moreover have "sint (of_nat (digits_val ds) :: u32) = int (digits_val ds)"
    using assms(3) by (simp add: sint_u32 unat_of_nat_u32)
  ultimately have 1: "atoi (map digit_char ds) = int (digits_val ds)"
    using df skip_space_digit [OF d] by (simp add: atoi_def ds chr0_def Let_def)
  have v: "strtol_digits 0 10 neg (map digit_char ds) =
      ((if neg then -1 else 1) * int (digits_val ds), Some [], 0)" for neg
    using strtol_digits_dec [OF assms(2), of 0 neg] assms(3) by (simp add: digits_val_def)
  have "isspace (schar CHR ''-'') = 0" using ctype_at(2) [of 45] by (simp add: schar_def)
  then have "skip_space (CHR ''-'' # map digit_char ds) = CHR ''-'' # map digit_char ds" by simp
  then have 2: "strtol (CHR ''-'' # map digit_char ds) 10 = (- int (digits_val ds), Some [], 0)"
    using v [of True] df by (simp add: strtol_def ds chr0_def Let_def)
  have "strtol (map digit_char ds) 10 = (int (digits_val ds), Some [], 0)"
    using v [of False] df skip_space_digit [OF d] by (simp add: strtol_def ds chr0_def Let_def)
  with 1 2 show ?thesis by simp
qed

theorem decimal_numerals_witness: "atoi ''1207'' = 1207 \<and> strtol ''-1207'' 10 = (-1207, Some [], 0)"
proof -
  have m: "map digit_char [1, 2, 0, 7] = ''1207''" by code_simp
  have v: "digits_val [1, 2, 0, 7] = 1207" by (simp add: digits_val_def)
  show ?thesis using decimal_numerals [of "[1, 2, 0, 7]", unfolded m v] by simp
qed

text \<open>The character classes are those of the C locale for all of ASCII, except that \<^verbatim>\<open>isprint\<close> and
  \<^verbatim>\<open>ispunct\<close> never hold: no table entry has their bits.\<close>

theorem ctype_classes:
  assumes "n < 128"
  shows "(isdigit (int n) \<noteq> 0 \<longleftrightarrow> n \<in> {48..57}) \<and> (isspace (int n) \<noteq> 0 \<longleftrightarrow> n = 32 \<or> n \<in> {9..13}) \<and>
    (isupper (int n) \<noteq> 0 \<longleftrightarrow> n \<in> {65..90}) \<and> (islower (int n) \<noteq> 0 \<longleftrightarrow> n \<in> {97..122}) \<and>
    (isxdigit (int n) \<noteq> 0 \<longleftrightarrow> n \<in> {48..57} \<union> ({65..70} \<union> {97..102})) \<and>
    (isalpha (int n) \<noteq> 0 \<longleftrightarrow> n \<in> {65..90} \<union> {97..122}) \<and>
    (isalnum (int n) \<noteq> 0 \<longleftrightarrow> n \<in> {48..57} \<union> ({65..90} \<union> {97..122})) \<and>
    (iscntrl (int n) \<noteq> 0 \<longleftrightarrow> n < 32 \<or> n = 127) \<and> (isgraph (int n) \<noteq> 0 \<longleftrightarrow> n \<in> {33..126}) \<and>
    isprint (int n) = 0 \<and> ispunct (int n) = 0"
  using groups_at [OF assms]
  unfolding groups_ok_def isdigit_def isspace_def isupper_def islower_def isalpha_def isalnum_def isxdigit_def
    iscntrl_def isgraph_def isprint_def ispunct_def atLeastAtMost_iff Un_iff .

theorem ctype_classes_witness: "isalpha 65 \<noteq> 0 \<and> isdigit 65 = 0 \<and> isprint 65 = 0"
  using ctype_classes [of 65] by auto

end
