(* ===== verification/Ramfs_Dir.thy ===== *)
theory Ramfs_Dir
  imports Phys_Mem Libc_String "HOL-Library.Monad_Syntax" "HOL-Library.Multiset"
begin

text \<open>
  Directories of \<^verbatim>\<open>src/fs/ramfs.c\<close>: a hash table from names to inode numbers.  A collision chain is the
  list of its entries in link order.  Entries and tables live on the kernel heap; their addresses are
  kept so that they can be freed.
\<close>

section \<open>Entries and tables\<close>

record ramfs_direntry =
  de_self :: u32
  de_hash :: u32
  de_name :: string
  de_name_ptr :: u32
  de_ino :: u32

record ramfs_directory =
  dsize :: nat
  htcap :: nat
  ht :: "ramfs_direntry list list"
  ht_ptr :: u32

definition heap_free :: "ff_state \<Rightarrow> u32 \<Rightarrow> ff_state" where
  "heap_free kh p = snd (kfree kh p)"

text \<open>The address of the new directory, null when there is no memory.\<close>

definition ramfs_directory_new :: "ff_state \<Rightarrow> (int \<times> u32 \<times> ramfs_directory option \<times> ff_state) option" where
  "ramfs_directory_new kh =
     do { (d, kh) \<leftarrow> kmalloc kh 12;
          if d = 0 then Some (errno_code ENOMEM, 0, None, kh)
          else do { (h, kh) \<leftarrow> kmalloc kh (8 * 4);
                    if h = 0 then Some (errno_code ENOMEM, 0, None, heap_free kh d)
                    else Some (0, d, Some \<lparr>dsize = 0, htcap = 8, ht = replicate 8 [], ht_ptr = h\<rparr>, kh) } }"

fun bucket_insert :: "ramfs_direntry \<Rightarrow> ramfs_direntry list \<Rightarrow> ramfs_direntry list option" where
  "bucket_insert de [] = Some [de]"
| "bucket_insert de (b # bs) =
     (if de_hash b = de_hash de \<and> strcmp (de_name b) (de_name de) = 0 then None
      else map_option (Cons b) (bucket_insert de bs))"

definition ramfs_directory_insert :: "ramfs_directory \<Rightarrow> ramfs_direntry \<Rightarrow> int \<times> ramfs_directory" where
  "ramfs_directory_insert dir de =
     (let ht_index = unat (de_hash de) mod htcap dir in
      case bucket_insert de (ht dir ! ht_index) of
        None \<Rightarrow> (errno_code EEXIST, dir)
      | Some bs \<Rightarrow> (0, dir\<lparr>ht := (ht dir)[ht_index := bs], dsize := dsize dir + 1\<rparr>))"

definition ramfs_direntry_free :: "ff_state \<Rightarrow> ramfs_direntry \<Rightarrow> ff_state" where
  "ramfs_direntry_free kh de = heap_free (heap_free kh (de_name_ptr de)) (de_self de)"

definition ramfs_directory_new_entry ::
    "ff_state \<Rightarrow> ramfs_directory \<Rightarrow> string \<Rightarrow> u32 \<Rightarrow> (int \<times> ramfs_directory \<times> ff_state) option" where
  "ramfs_directory_new_entry kh dir name i_no =
     do { (de, kh) \<leftarrow> kmalloc kh 16;
          if de = 0 then Some (errno_code ENOMEM, dir, kh)
          else do { (n, kh) \<leftarrow> kmalloc kh (of_nat (fst (strdup name)));
                    if n = 0 then Some (errno_code ENOMEM, dir, heap_free kh de)
                    else
                      let e = \<lparr>de_self = de, de_hash = strhash (take (strlen name) name),
                               de_name = snd (strdup name), de_name_ptr = n, de_ino = i_no\<rparr>;
                          (ret, dir) = ramfs_directory_insert dir e
                      in Some (ret, dir, if ret \<noteq> 0 then ramfs_direntry_free kh e else kh) } }"

fun bucket_delete :: "u32 \<Rightarrow> string \<Rightarrow> ramfs_direntry list \<Rightarrow> (ramfs_direntry \<times> ramfs_direntry list) option" where
  "bucket_delete hash name [] = None"
| "bucket_delete hash name (b # bs) =
     (if de_hash b = hash \<and> strcmp (de_name b) name = 0 then Some (b, bs)
      else map_option (map_prod id (Cons b)) (bucket_delete hash name bs))"

definition ramfs_directory_delete_entry ::
    "ff_state \<Rightarrow> ramfs_directory \<Rightarrow> string \<Rightarrow> nat \<Rightarrow> int \<times> ramfs_directory \<times> ff_state" where
  "ramfs_directory_delete_entry kh dir name namelen =
     (let hash = strhash (take (strnlen name namelen) name);
          i = unat hash mod htcap dir
      in case bucket_delete hash name (ht dir ! i) of
           None \<Rightarrow> (errno_code ENOENT, dir, kh)
         | Some (de, bs) \<Rightarrow>
             (0, dir\<lparr>ht := (ht dir)[i := bs], dsize := dsize dir - 1\<rparr>, ramfs_direntry_free kh de))"

definition ramfs_directory_search :: "ramfs_directory \<Rightarrow> string \<Rightarrow> nat \<Rightarrow> int \<times> u32" where
  "ramfs_directory_search dir basename basename_len =
     (let hash = strhash (take (strnlen basename basename_len) basename) in
      case find (\<lambda>de. de_hash de = hash \<and> strncmp basename (de_name de) basename_len = 0)
             (ht dir ! (unat hash mod htcap dir)) of
        None \<Rightarrow> (errno_code ENOENT, 0)
      | Some de \<Rightarrow> (0, de_ino de))"

definition ramfs_directory_free :: "ff_state \<Rightarrow> u32 \<Rightarrow> ramfs_directory \<Rightarrow> ff_state" where
  "ramfs_directory_free kh d dir =
     heap_free (heap_free (foldl ramfs_direntry_free kh (concat (take (htcap dir) (ht dir)))) (ht_ptr dir)) d"

section \<open>Enumeration\<close>

text \<open>
  The iterator is the hash of the next entry, \<open>0\<close> at the start and at the end.  \<open>next_bucket i bs\<close> is the
  first entry of the first non-empty chain from chain \<open>i\<close> on.
\<close>

fun next_bucket :: "ramfs_direntry list list \<Rightarrow> ramfs_direntry option" where
  "next_bucket [] = None"
| "next_bucket (b # bs) = (case b of [] \<Rightarrow> next_bucket bs | de # _ \<Rightarrow> Some de)"

fun first_bucket :: "nat \<Rightarrow> ramfs_direntry list list \<Rightarrow> (nat \<times> ramfs_direntry list) option" where
  "first_bucket i [] = None"
| "first_bucket i (b # bs) = (if b = [] then first_bucket (i + 1) bs else Some (i, b))"

definition ramfs_dir_step :: "ramfs_directory \<Rightarrow> u32 \<Rightarrow> (ramfs_direntry \<times> u32) option" where
  "ramfs_dir_step dir iter =
     (let start = (if iter \<noteq> 0 then
                     let i = unat iter mod htcap dir in
                     Some (i, dropWhile (\<lambda>de. de_hash de \<noteq> iter) (ht dir ! i))
                   else first_bucket 0 (ht dir))
      in case start of
           Some (i, de # rest) \<Rightarrow>
             Some (de, case rest of
                         de' # _ \<Rightarrow> de_hash de'
                       | [] \<Rightarrow> (case next_bucket (drop (i + 1) (take (htcap dir) (ht dir))) of
                                 None \<Rightarrow> 0 | Some de' \<Rightarrow> de_hash de'))
         | _ \<Rightarrow> None)"

text \<open>The loop of \<^verbatim>\<open>print_ls\<close>: take entries until the iterator is null again.\<close>

partial_function (option) dir_ls :: "ramfs_directory \<Rightarrow> u32 \<Rightarrow> ramfs_direntry list option" where
  "dir_ls dir iter =
     do { (de, iter) \<leftarrow> ramfs_dir_step dir iter;
          if iter = 0 then Some [de] else do { rest \<leftarrow> dir_ls dir iter; Some (de # rest) } }"

section \<open>Directories as maps\<close>

definition de_ok :: "nat \<Rightarrow> nat \<Rightarrow> ramfs_direntry \<Rightarrow> bool" where
  "de_ok cap i de \<longleftrightarrow>
     length (cstr (de_name de)) \<le> UINT_MAX \<and> de_hash de = strhash (cstr (de_name de)) \<and> unat (de_hash de) mod cap = i"

definition dir_ok :: "ramfs_directory \<Rightarrow> bool" where
  "dir_ok dir \<longleftrightarrow>
     htcap dir = length (ht dir) \<and> 0 < htcap dir \<and> dsize dir = length (concat (ht dir)) \<and>
     distinct (map (cstr \<circ> de_name) (concat (ht dir))) \<and>
     (\<forall>i < length (ht dir). \<forall>de \<in> set (ht dir ! i). de_ok (length (ht dir)) i de)"

definition dir_map :: "ramfs_directory \<Rightarrow> string \<Rightarrow> u32 option" where
  "dir_map dir name = map_option de_ino (find (\<lambda>de. cstr (de_name de) = name) (concat (ht dir)))"

text \<open>No other name of the directory has the hash of this one.\<close>

definition hash_unique :: "ramfs_directory \<Rightarrow> string \<Rightarrow> bool" where
  "hash_unique dir name \<longleftrightarrow>
     (\<forall>de \<in> set (concat (ht dir)). de_hash de = strhash name \<longrightarrow> cstr (de_name de) = name)"

lemma strcmp_zero:
  "length (cstr a) \<le> UINT_MAX \<Longrightarrow> length (cstr b) \<le> UINT_MAX \<Longrightarrow> strcmp a b = 0 \<longleftrightarrow> cstr a = cstr b"
  by (simp add: strcmp_def strncmp_zero)

lemma take_strnlen: "take (strnlen s n) s = take n (cstr s)"
  by (induction s n rule: strnlen.induct) (auto simp: cstr_Cons take_Cons')

lemma take_strlen: "take (strlen s) s = cstr s"
  by (induction s) (auto simp: cstr_Cons)

lemma cstr_cstr [simp]: "cstr (cstr s) = cstr s"
  by (induction s) (auto simp: cstr_Cons)

lemma cstr_take_cstr [simp]: "cstr (take n (cstr s)) = take n (cstr s)"
  by (rule cstr_id) (auto simp: cstr_def dest!: in_set_takeD set_takeWhileD)

lemma strdup_name: "length (cstr s) \<le> UINT_MAX \<Longrightarrow> cstr (snd (strdup s)) = cstr s"
proof -
  have "length (cstr s) \<le> n \<Longrightarrow> cstr (strncpy s n) = cstr s" for n
    by (induction s n rule: strncpy.induct) (auto simp: cstr_Cons split: if_splits)
  then show "length (cstr s) \<le> UINT_MAX \<Longrightarrow> cstr (snd (strdup s)) = cstr s"
    by (simp add: strdup_def strndup_def Let_def)
qed

lemma dir_okD:
  assumes "dir_ok dir"
  shows "htcap dir = length (ht dir)" "0 < length (ht dir)" "dsize dir = length (concat (ht dir))"
    "distinct (map (cstr \<circ> de_name) (concat (ht dir)))"
    "i < length (ht dir) \<Longrightarrow> de \<in> set (ht dir ! i) \<Longrightarrow> de_ok (length (ht dir)) i de"
proof -
  show "i < length (ht dir) \<Longrightarrow> de \<in> set (ht dir ! i) \<Longrightarrow> de_ok (length (ht dir)) i de"
    using assms unfolding dir_ok_def by blast
  show "0 < length (ht dir)" using assms unfolding dir_ok_def by metis
qed (use assms in \<open>simp_all add: dir_ok_def\<close>)

lemma find_concat_bucket:
  assumes "i < length bss" "\<And>j x. j < length bss \<Longrightarrow> x \<in> set (bss ! j) \<Longrightarrow> P x \<Longrightarrow> j = i"
  shows "find P (concat bss) = find P (bss ! i)"
  using assms
proof (induction bss arbitrary: i)
  case (Cons b bss)
  have fa: "find P (xs @ ys) = (case find P xs of None \<Rightarrow> find P ys | Some x \<Rightarrow> Some x)" for xs ys :: "'a list"
    by (induction xs) auto
  show ?case
  proof (cases i)
    case 0
    have "find P (concat bss) = None"
      using Cons.prems(2) [of "Suc _"] 0 by (force simp: find_None_iff in_set_conv_nth)
    then show ?thesis by (simp add: 0 fa split: option.splits)
  next
    case (Suc k)
    have "find P b = None" using Cons.prems(2) [of 0] Suc by (auto simp: find_None_iff)
    moreover have "find P (concat bss) = find P (bss ! k)"
    proof (rule Cons.IH)
      show "j = k" if "j < length bss" "x \<in> set (bss ! j)" "P x" for j x
        using Cons.prems(2) [of "Suc j" x] that Suc by simp
    qed (use Cons.prems(1) Suc in simp)
    ultimately show ?thesis by (simp add: Suc fa)
  qed
qed simp

definition bucket_of :: "ramfs_directory \<Rightarrow> string \<Rightarrow> nat" where
  "bucket_of dir name = unat (strhash name) mod length (ht dir)"

lemma dir_map_bucket:
  assumes "dir_ok dir"
  shows "dir_map dir name = map_option de_ino (find (\<lambda>de. cstr (de_name de) = name) (ht dir ! bucket_of dir name))"
    "bucket_of dir name < length (ht dir)"
proof -
  show b: "bucket_of dir name < length (ht dir)" using dir_okD(2) [OF assms] by (simp add: bucket_of_def)
  show "dir_map dir name = map_option de_ino (find (\<lambda>de. cstr (de_name de) = name) (ht dir ! bucket_of dir name))"
  proof -
    have "j = bucket_of dir name" if "j < length (ht dir)" "x \<in> set (ht dir ! j)" "cstr (de_name x) = name" for j x
      using dir_okD(5) [OF assms that(1,2)] that(3) by (auto simp: de_ok_def bucket_of_def)
    then show ?thesis unfolding dir_map_def by (subst find_concat_bucket [OF b]) auto
  qed
qed

lemma search_map:
  assumes ok: "dir_ok dir" and u: "hash_unique dir (take n (cstr name))"
  shows "ramfs_directory_search dir name n =
    (case dir_map dir (take n (cstr name)) of None \<Rightarrow> (errno_code ENOENT, 0) | Some ino \<Rightarrow> (0, ino))"
proof -
  let ?k = "take n (cstr name)"
  let ?b = "ht dir ! bucket_of dir ?k"
  have b: "bucket_of dir ?k < length (ht dir)" by (rule dir_map_bucket(2) [OF ok])
  have "(de_hash de = strhash ?k \<and> strncmp name (de_name de) n = 0) = (cstr (de_name de) = ?k)" if "de \<in> set ?b" for de
  proof -
    have "de \<in> set (concat (ht dir))" using that b by auto
    then have "de_hash de = strhash ?k \<Longrightarrow> cstr (de_name de) = ?k" using u unfolding hash_unique_def by blast
    moreover have "de_hash de = strhash (cstr (de_name de))" using dir_okD(5) [OF ok b that] by (simp add: de_ok_def)
    ultimately show ?thesis by (auto simp: strncmp_zero)
  qed
  then have "find (\<lambda>de. de_hash de = strhash ?k \<and> strncmp name (de_name de) n = 0) ?b =
      find (\<lambda>de. cstr (de_name de) = ?k) ?b"
    by (intro find_cong) auto
  then show ?thesis
    using dir_map_bucket(1) [OF ok, of ?k] dir_okD(1) [OF ok]
    by (simp add: ramfs_directory_search_def take_strnlen Let_def bucket_of_def split: option.splits)
qed

section \<open>Insertion and deletion refine map update\<close>

lemma bucket_insert_None: "bucket_insert de bs = None \<longleftrightarrow>
  (\<exists>b\<in>set bs. de_hash b = de_hash de \<and> strcmp (de_name b) (de_name de) = 0)"
  by (induction bs) auto

lemma bucket_insert_Some: "bucket_insert de bs = Some bs' \<Longrightarrow> bs' = bs @ [de]"
  by (induction bs arbitrary: bs') (auto split: if_splits)

lemma bucket_delete_None: "bucket_delete h n bs = None \<longleftrightarrow> (\<forall>b\<in>set bs. \<not> (de_hash b = h \<and> strcmp (de_name b) n = 0))"
  by (induction bs) auto

lemma bucket_delete_Some:
  "bucket_delete h n bs = Some (de, bs') \<Longrightarrow>
     \<exists>xs ys. bs = xs @ de # ys \<and> bs' = xs @ ys \<and> de_hash de = h \<and> strcmp (de_name de) n = 0"
proof (induction bs arbitrary: bs')
  case (Cons b bs)
  show ?case
  proof (cases "de_hash b = h \<and> strcmp (de_name b) n = 0")
    case True
    then show ?thesis using Cons.prems by (intro exI [of _ "[]"] exI [of _ bs]) auto
  next
    case False
    then obtain cs where "bucket_delete h n bs = Some (de, cs)" "bs' = b # cs" using Cons.prems by auto
    then show ?thesis using Cons.IH by (metis append_Cons)
  qed
qed simp

lemma mset_concat_update:
  "i < length bss \<Longrightarrow> mset (concat (bss[i := b])) + mset (bss ! i) = mset (concat bss) + mset b"
proof (induction bss arbitrary: i)
  case (Cons c bss)
  then show ?case by (cases i) (auto simp: ac_simps)
qed simp

lemma find_in_distinct:
  assumes "distinct (map f xs)" "x \<in> set xs"
  shows "find (\<lambda>y. f y = f x) xs = Some x"
  using assms by (induction xs) (auto simp: rev_image_eqI)

lemma dir_map_Some:
  assumes "dir_ok dir"
  shows "dir_map dir n = Some i \<longleftrightarrow> (\<exists>de \<in> set (concat (ht dir)). cstr (de_name de) = n \<and> de_ino de = i)"
proof
  assume "dir_map dir n = Some i"
  then show "\<exists>de \<in> set (concat (ht dir)). cstr (de_name de) = n \<and> de_ino de = i"
    by (force simp: dir_map_def find_Some_iff in_set_conv_nth simp del: set_concat)
next
  assume "\<exists>de \<in> set (concat (ht dir)). cstr (de_name de) = n \<and> de_ino de = i"
  then show "dir_map dir n = Some i"
    using find_in_distinct [OF dir_okD(4) [OF assms]] by (auto simp: dir_map_def simp del: set_concat)
qed

lemma dir_map_None: "dir_map dir n = None \<longleftrightarrow> (\<forall>de\<in>set (concat (ht dir)). cstr (de_name de) \<noteq> n)"
  by (auto simp: dir_map_def find_None_iff simp del: set_concat)

text \<open>The entries of the table after one chain was replaced.\<close>

lemma dir_replace:
  assumes ok: "dir_ok dir" and i: "i < length (ht dir)"
    and d: "d = dir\<lparr>ht := (ht dir)[i := bs], dsize := k\<rparr>"
    and m: "mset (concat ((ht dir)[i := bs])) = M" and k: "k = size M"
    and dist: "distinct (map (cstr \<circ> de_name) (concat ((ht dir)[i := bs])))"
    and bs: "\<And>de. de \<in> set bs \<Longrightarrow> de_ok (length (ht dir)) i de"
  shows "dir_ok d" "set (concat (ht d)) = set_mset M"
proof -
  have "k = length (concat ((ht dir)[i := bs]))" using m k by (metis size_mset)
  moreover have "de_ok (length (ht dir)) j de"
    if "j < length (ht dir)" "de \<in> set ((ht dir)[i := bs] ! j)" for j de
    using that bs dir_okD(5) [OF ok that(1)] i by (cases "j = i") auto
  ultimately show "dir_ok d"
    using dir_okD(1,2) [OF ok] dist unfolding dir_ok_def d by simp
  show "set (concat (ht d)) = set_mset M" using m by (simp add: d flip: set_mset_mset)
qed

lemma dir_map_eqI:
  assumes "dir_ok d" "\<And>i. f n = Some i \<longleftrightarrow> (\<exists>de \<in> set (concat (ht d)). cstr (de_name de) = n \<and> de_ino de = i)"
  shows "dir_map d n = f n"
proof -
  have "f n = Some i \<longleftrightarrow> dir_map d n = Some i" for i unfolding dir_map_Some [OF assms(1)] by (rule assms(2))
  then show ?thesis by (metis option.exhaust)
qed

lemma directory_insert_map:
  assumes ok: "dir_ok dir" and de: "de_hash de = strhash (cstr (de_name de))" "length (cstr (de_name de)) \<le> UINT_MAX"
    and n: "n = cstr (de_name de)"
  shows "if dir_map dir n = None
    then \<exists>dir'. ramfs_directory_insert dir de = (0, dir') \<and> dir_ok dir' \<and> dir_map dir' = (dir_map dir)(n \<mapsto> de_ino de)
    else ramfs_directory_insert dir de = (errno_code EEXIST, dir)"
proof -
  define i where "i = bucket_of dir n"
  have i: "i < length (ht dir)" unfolding i_def by (rule dir_map_bucket(2) [OF ok])
  have idx: "unat (de_hash de) mod htcap dir = i" using de(1) n dir_okD(1) [OF ok] by (simp add: i_def bucket_of_def)
  have taken: "bucket_insert de (ht dir ! i) = None \<longleftrightarrow> dir_map dir n \<noteq> None"
  proof -
    have "(de_hash b = de_hash de \<and> strcmp (de_name b) (de_name de) = 0) = (cstr (de_name b) = n)" if "b \<in> set (ht dir ! i)" for b
      using dir_okD(5) [OF ok i that] de n by (auto simp: de_ok_def strcmp_zero)
    then show ?thesis
      using dir_map_bucket(1) [OF ok, of n] by (auto simp: bucket_insert_None find_None_iff i_def)
  qed
  show ?thesis
  proof (cases "dir_map dir n = None")
    case False
    then show ?thesis using taken idx by (simp add: ramfs_directory_insert_def Let_def)
  next
    case True
    define bs where "bs = ht dir ! i @ [de]"
    define d where "d = dir\<lparr>ht := (ht dir)[i := bs], dsize := dsize dir + 1\<rparr>"
    have ins: "ramfs_directory_insert dir de = (0, d)"
      using True taken idx bucket_insert_Some [of de "ht dir ! i"]
      by (cases "bucket_insert de (ht dir ! i)") (auto simp: ramfs_directory_insert_def Let_def d_def bs_def)
    have m: "mset (concat ((ht dir)[i := bs])) = add_mset de (mset (concat (ht dir)))"
      using mset_concat_update [OF i, of bs] by (simp add: bs_def)
    have "image_mset (cstr \<circ> de_name) (mset (concat ((ht dir)[i := bs]))) = mset (map (cstr \<circ> de_name) (de # concat (ht dir)))"
      by (simp add: m)
    moreover have "distinct (map (cstr \<circ> de_name) (de # concat (ht dir)))"
      using dir_okD(4) [OF ok] True n by (auto simp: dir_map_None simp del: set_concat)
    ultimately have dist: "distinct (map (cstr \<circ> de_name) (concat ((ht dir)[i := bs])))"
      by (metis mset_eq_imp_distinct_iff mset_map)
    have bs: "de_ok (length (ht dir)) i b" if "b \<in> set bs" for b
      using that dir_okD(5) [OF ok i] de idx dir_okD(1) [OF ok] by (auto simp: bs_def de_ok_def)
    have sz: "dsize dir + 1 = size (add_mset de (mset (concat (ht dir))))"
      using dir_okD(3) [OF ok] by (simp only: size_add_mset size_mset)
    note r = dir_replace [OF ok i d_def m sz dist bs]
    have "dir_map d = (dir_map dir)(n \<mapsto> de_ino de)"
    proof
      show "dir_map d x = ((dir_map dir)(n \<mapsto> de_ino de)) x" for x
        using r(2) n True dir_map_Some [OF ok, of x] dir_map_None [of dir n]
        by (intro dir_map_eqI [OF r(1)]) (auto simp del: set_concat)
    qed
    then show ?thesis using True ins r(1) by auto
  qed
qed

lemma directory_delete_map:
  assumes ok: "dir_ok dir" and n: "length (cstr name) \<le> len" "length (cstr name) \<le> UINT_MAX"
  shows "if dir_map dir (cstr name) = None
    then ramfs_directory_delete_entry kh dir name len = (errno_code ENOENT, dir, kh)
    else \<exists>dir' kh'. ramfs_directory_delete_entry kh dir name len = (0, dir', kh') \<and> dir_ok dir' \<and>
      dir_map dir' = (dir_map dir)(cstr name := None)"
proof -
  let ?n = "cstr name"
  define i where "i = bucket_of dir ?n"
  have i: "i < length (ht dir)" unfolding i_def by (rule dir_map_bucket(2) [OF ok])
  have hash: "strhash (take (strnlen name len) name) = strhash ?n" using n(1) by (simp add: take_strnlen)
  have idx: "unat (strhash ?n) mod htcap dir = i" using dir_okD(1) [OF ok] by (simp add: i_def bucket_of_def)
  have match: "(de_hash b = strhash ?n \<and> strcmp (de_name b) name = 0) = (cstr (de_name b) = ?n)" if "b \<in> set (ht dir ! i)" for b
    using dir_okD(5) [OF ok i that] n(2) by (auto simp: de_ok_def strcmp_zero)
  then have none: "bucket_delete (strhash ?n) name (ht dir ! i) = None \<longleftrightarrow> dir_map dir ?n = None"
    using dir_map_bucket(1) [OF ok, of ?n] by (auto simp: bucket_delete_None find_None_iff i_def)
  show ?thesis
  proof (cases "dir_map dir ?n = None")
    case True
    then show ?thesis using none by (simp add: ramfs_directory_delete_entry_def hash idx)
  next
    case False
    then obtain de bs where db: "bucket_delete (strhash ?n) name (ht dir ! i) = Some (de, bs)" using none by auto
    then obtain xs ys where x: "ht dir ! i = xs @ de # ys" "bs = xs @ ys" "cstr (de_name de) = ?n"
      using bucket_delete_Some [OF db] match by fastforce
    define d where "d = dir\<lparr>ht := (ht dir)[i := bs], dsize := dsize dir - 1\<rparr>"
    define M where "M = mset (concat ((ht dir)[i := bs]))"
    have m: "add_mset de M = mset (concat (ht dir))"
      using mset_concat_update [OF i, of bs] by (simp add: x M_def)
    have sz: "dsize dir - 1 = size M"
      using dir_okD(3) [OF ok] m by (metis diff_Suc_1 size_add_mset size_mset)
    have dd: "distinct (map (cstr \<circ> de_name) (de # concat ((ht dir)[i := bs])))"
      using dir_okD(4) [OF ok] m unfolding M_def
      by (metis list.simps(9) mset.simps(2) mset_eq_imp_distinct_iff mset_map)
    have bs: "de_ok (length (ht dir)) i b" if "b \<in> set bs" for b
      using that dir_okD(5) [OF ok i] x by auto
    note r = dir_replace [OF ok i d_def M_def [symmetric] sz distinct_tl [OF dd, simplified] bs]
    have set: "set (concat (ht dir)) = insert de (set_mset M)" using m by (metis set_mset_add_mset_insert set_mset_mset)
    have "\<forall>b\<in>#M. cstr (de_name b) \<noteq> ?n" using dd x(3) by (force simp: M_def simp del: set_concat)
    then have "dir_map d = (dir_map dir)(?n := None)"
    proof (intro ext)
      fix y assume "\<forall>b\<in>#M. cstr (de_name b) \<noteq> ?n"
      then show "dir_map d y = ((dir_map dir)(?n := None)) y"
        using r(2) set x(3) dir_map_Some [OF ok, of y]
        by (intro dir_map_eqI [OF r(1)]) (auto simp del: set_concat)
    qed
    then show ?thesis using False db r(1) by (simp add: ramfs_directory_delete_entry_def hash idx d_def)
  qed
qed

lemma new_entry_map:
  assumes ok: "dir_ok dir" and len: "length (cstr name) \<le> UINT_MAX"
    and new: "ramfs_directory_new_entry kh dir name ino = Some (ret, dir', kh')"
  shows "if ret = 0 then dir_map dir (cstr name) = None \<and> dir_ok dir' \<and> dir_map dir' = (dir_map dir)(cstr name \<mapsto> ino)
    else dir' = dir \<and> (ret = errno_code ENOMEM \<or> ret = errno_code EEXIST \<and> dir_map dir (cstr name) \<noteq> None)"
proof (cases "ret = errno_code ENOMEM \<and> dir' = dir")
  case False
  then obtain de where ins: "ramfs_directory_insert dir de = (ret, dir')"
    and f: "de_hash de = strhash (take (strlen name) name)" "de_name de = snd (strdup name)" "de_ino de = ino"
    using new by (auto simp: ramfs_directory_new_entry_def Let_def split: bind_split_asm prod.splits if_splits)
  have n: "cstr name = cstr (de_name de)" unfolding f(2) by (rule strdup_name [OF len, symmetric])
  have h: "de_hash de = strhash (cstr (de_name de))" unfolding f(1) take_strlen n ..
  note d = directory_insert_map [OF ok h len [unfolded n] n, unfolded ins f(3)]
  show ?thesis
  proof (cases "dir_map dir (cstr name) = None")
    case True
    then show ?thesis using d by simp
  next
    case False
    then have "(ret, dir') = (errno_code EEXIST, dir)" using d by (simp only: if_False)
    then show ?thesis using False by simp
  qed
qed simp

lemma hash_unique_dom:
  assumes "dir_ok dir"
  shows "hash_unique dir n \<longleftrightarrow> (\<forall>m \<in> dom (dir_map dir). strhash m = strhash n \<longrightarrow> m = n)"
proof -
  have dom: "m \<in> dom (dir_map dir) \<longleftrightarrow> (\<exists>de\<in>set (concat (ht dir)). cstr (de_name de) = m)" for m
    using dir_map_Some [OF assms] by (auto simp del: set_concat)
  have h: "de_hash de = strhash (cstr (de_name de))" if de: "de \<in> set (concat (ht dir))" for de
  proof -
    obtain b where b: "b \<in> set (ht dir)" "de \<in> set b" using de by auto
    then obtain i where "i < length (ht dir)" "ht dir ! i = b" by (auto simp: in_set_conv_nth)
    then have "de_ok (length (ht dir)) i de" using dir_okD(5) [OF assms] b(2) by blast
    then show ?thesis by (simp only: de_ok_def)
  qed
  show ?thesis
  proof (intro iffI ballI impI)
    fix m assume u: "hash_unique dir n" and m: "m \<in> dom (dir_map dir)" "strhash m = strhash n"
    obtain de where de: "de \<in> set (concat (ht dir))" "cstr (de_name de) = m" using m(1) dom by blast
    then have "de_hash de = strhash n" using h [OF de(1)] m(2) by simp
    then show "m = n" using u de unfolding hash_unique_def by blast
  next
    assume u: "\<forall>m\<in>dom (dir_map dir). strhash m = strhash n \<longrightarrow> m = n"
    show "hash_unique dir n"
      unfolding hash_unique_def
    proof (intro ballI impI)
      fix de assume de: "de \<in> set (concat (ht dir))" "de_hash de = strhash n"
      have "cstr (de_name de) \<in> dom (dir_map dir)" using de(1) dom by blast
      then show "cstr (de_name de) = n" using u h [OF de(1)] de(2) by simp
    qed
  qed
qed

section \<open>The interface of a name table\<close>

locale name_table =
  fixes ok :: "'d \<Rightarrow> bool" and abs :: "'d \<Rightarrow> string \<Rightarrow> u32 option" and valid :: "string \<Rightarrow> bool"
    and ins :: "'d \<Rightarrow> string \<Rightarrow> u32 \<Rightarrow> int \<times> 'd" and del :: "'d \<Rightarrow> string \<Rightarrow> int \<times> 'd"
  assumes ins_new: "ok d \<Longrightarrow> valid n \<Longrightarrow> abs d n = None \<Longrightarrow>
      \<exists>d'. ins d n i = (0, d') \<and> ok d' \<and> abs d' = (abs d)(n \<mapsto> i)"
    and ins_taken: "ok d \<Longrightarrow> valid n \<Longrightarrow> abs d n \<noteq> None \<Longrightarrow> ins d n i = (errno_code EEXIST, d)"
    and del_present: "ok d \<Longrightarrow> valid n \<Longrightarrow> abs d n \<noteq> None \<Longrightarrow>
      \<exists>d'. del d n = (0, d') \<and> ok d' \<and> abs d' = (abs d)(n := None)"
    and del_absent: "ok d \<Longrightarrow> valid n \<Longrightarrow> abs d n = None \<Longrightarrow> del d n = (errno_code ENOENT, d)"
begin

lemma ins_then_del:
  assumes "ok d" "valid n" "abs d n = None"
  shows "\<exists>d' d''. ins d n i = (0, d') \<and> del d' n = (0, d'') \<and> ok d'' \<and> abs d'' = abs d"
proof -
  obtain d' where d': "ins d n i = (0, d')" "ok d'" "abs d' = (abs d)(n \<mapsto> i)" using ins_new [OF assms] by blast
  then obtain d'' where "del d' n = (0, d'')" "ok d''" "abs d'' = (abs d')(n := None)"
    using del_present [OF d'(2) assms(2)] by auto
  with d' assms(3) show ?thesis by (auto simp: fun_upd_idem)
qed

lemma ins_list:
  assumes "ok d" "\<forall>(n, i)\<in>set es. valid n \<and> abs d n = None" "distinct (map fst es)"
  shows "\<exists>d'. foldl (\<lambda>d (n, i). snd (ins d n i)) d es = d' \<and> ok d' \<and> abs d' = abs d ++ map_of es"
  using assms
proof (induction es arbitrary: d)
  case (Cons e es)
  obtain n i where e: "e = (n, i)" by (cases e)
  obtain d' where d': "ins d n i = (0, d')" "ok d'" "abs d' = (abs d)(n \<mapsto> i)"
    using ins_new [of d n i] Cons.prems e by auto
  have "\<forall>(m, j)\<in>set es. valid m \<and> abs d' m = None" using Cons.prems d'(3) e by force
  then obtain x where x: "foldl (\<lambda>d (n, i). snd (ins d n i)) d' es = x" "ok x" "abs x = abs d' ++ map_of es"
    using Cons.IH [OF d'(2)] Cons.prems(3) by auto
  note x(3)
  moreover have "(abs d)(n \<mapsto> i) ++ map_of es = abs d ++ (map_of es)(n \<mapsto> i)"
    using Cons.prems(3) e by (simp add: map_add_upd_left dom_map_of_conv_image_fst)
  moreover have "map_of (e # es) = (map_of es)(n \<mapsto> i)" by (auto simp: e fun_eq_iff)
  ultimately have "abs x = abs d ++ map_of (e # es)" by (simp only: d'(3))
  moreover have "foldl (\<lambda>d (n, i). snd (ins d n i)) d (e # es) = x" using x(1) d'(1) by (simp add: e)
  ultimately show ?case using x(2) by blast
qed simp

end

text \<open>Names of a directory are short and hold no null character.\<close>

definition valid_name :: "string \<Rightarrow> bool" where
  "valid_name n \<longleftrightarrow> NUL \<notin> set n \<and> length n \<le> UINT_MAX"

definition entry :: "string \<Rightarrow> u32 \<Rightarrow> ramfs_direntry" where
  "entry n i = \<lparr>de_self = 0, de_hash = strhash n, de_name = n, de_name_ptr = 0, de_ino = i\<rparr>"

lemma entry_fields: "valid_name n \<Longrightarrow> cstr (de_name (entry n i)) = n \<and> de_hash (entry n i) = strhash n \<and> de_ino (entry n i) = i"
  by (simp add: entry_def valid_name_def cstr_id)

interpretation ramdir: name_table dir_ok dir_map valid_name
  "\<lambda>d n i. ramfs_directory_insert d (entry n i)" "\<lambda>d n. case ramfs_directory_delete_entry kh d n UINT_MAX of (r, d', _) \<Rightarrow> (r, d')"
  for kh
proof
  fix d n i
  assume a: "dir_ok d" "valid_name n"
  note f = entry_fields [OF a(2), of i]
  have len: "length n \<le> UINT_MAX" "cstr n = n" using a(2) by (simp_all add: valid_name_def cstr_id)
  note ins = directory_insert_map [OF a(1), of "entry n i" n] and del = directory_delete_map [OF a(1), of n UINT_MAX kh]
  show "dir_map d n = None \<Longrightarrow> \<exists>d'. ramfs_directory_insert d (entry n i) = (0, d') \<and> dir_ok d' \<and> dir_map d' = (dir_map d)(n \<mapsto> i)"
    and "dir_map d n \<noteq> None \<Longrightarrow> ramfs_directory_insert d (entry n i) = (errno_code EEXIST, d)"
    using ins f len by simp_all
  show "dir_map d n \<noteq> None \<Longrightarrow> \<exists>d'. (case ramfs_directory_delete_entry kh d n UINT_MAX of (r, d', _) \<Rightarrow> (r, d')) = (0, d') \<and>
        dir_ok d' \<and> dir_map d' = (dir_map d)(n := None)"
    and "dir_map d n = None \<Longrightarrow> (case ramfs_directory_delete_entry kh d n UINT_MAX of (r, d', _) \<Rightarrow> (r, d')) = (errno_code ENOENT, d)"
    using del len by auto
qed

section \<open>Enumeration lists every entry\<close>

lemma next_bucket_concat: "next_bucket bss = (case concat bss of [] \<Rightarrow> None | de # _ \<Rightarrow> Some de)"
proof (induction bss)
  case (Cons b bss)
  then show ?case by (cases b) simp_all
qed simp

lemma next_entry:
  "(case rest of de # _ \<Rightarrow> de_hash de | [] \<Rightarrow> (case next_bucket bss of None \<Rightarrow> 0 | Some de \<Rightarrow> de_hash de)) =
   (case rest @ concat bss of [] \<Rightarrow> 0 | de # _ \<Rightarrow> de_hash de)"
  by (cases rest; cases "concat bss") (simp_all add: next_bucket_concat del: concat_eq_Nil_conv)

lemma first_bucket_concat:
  "concat bss = de # des \<Longrightarrow> \<exists>k bs. first_bucket i bss = Some (i + k, de # bs) \<and> k < length bss \<and> bss ! k = de # bs \<and> des = bs @ concat (drop (Suc k) bss)"
proof (induction bss arbitrary: i)
  case (Cons b bss)
  show ?case
  proof (cases b)
    case Nil
    then obtain k bs where "first_bucket (i + 1) bss = Some (i + 1 + k, de # bs)" "k < length bss" "bss ! k = de # bs"
        "des = bs @ concat (drop (Suc k) bss)"
      using Cons.IH [of "i + 1"] Cons.prems by auto
    then show ?thesis using Nil by (intro exI [of _ "Suc k"]) auto
  qed (use Cons.prems in auto)
qed simp

lemma dir_step_at:
  assumes ok: "dir_ok dir" and d: "distinct (map de_hash (concat (ht dir)))" "\<forall>de\<in>set (concat (ht dir)). de_hash de \<noteq> 0"
    and e: "concat (ht dir) = xs @ de # ys"
  shows "ramfs_dir_step dir (de_hash de) = Some (de, case ys of [] \<Rightarrow> 0 | de' # _ \<Rightarrow> de_hash de')"
    "xs = [] \<Longrightarrow> ramfs_dir_step dir 0 = Some (de, case ys of [] \<Rightarrow> 0 | de' # _ \<Rightarrow> de_hash de')"
proof -
  note cap = dir_okD(1) [OF ok]
  have nz: "de_hash de \<noteq> 0" using d(2) e by simp
  obtain i where i: "i < length (ht dir)" "de \<in> set (ht dir ! i)"
    using e by (metis in_set_conv_decomp in_set_conv_nth concat_eq_append_conv set_concat UN_E)
  then obtain as bs where b: "ht dir ! i = as @ de # bs" by (meson split_list)
  have c: "concat (ht dir) = (concat (take i (ht dir)) @ as) @ de # (bs @ concat (drop (Suc i) (ht dir)))"
    using i(1) b by (metis append.assoc append_Cons concat.simps(2) concat_append id_take_nth_drop)
  have "distinct (xs @ de # ys)" using d(1) e by (metis distinct_map)
  then have ys: "ys = bs @ concat (drop (Suc i) (ht dir))"
    using append_Cons_eq_iff [of de xs ys "concat (take i (ht dir)) @ as"] c e by simp
  have "de_hash x \<noteq> de_hash de" if "x \<in> set as" for x
  proof -
    have "de_hash de \<notin> de_hash ` set as" using d(1) unfolding c by simp
    then show ?thesis using imageI [OF that, of de_hash] by metis
  qed
  then have "dropWhile (\<lambda>x. de_hash x \<noteq> de_hash de) (as @ de # bs) = de # bs" by (simp add: dropWhile_append2)
  moreover have "unat (de_hash de) mod htcap dir = i" using dir_okD(5) [OF ok i] cap by (auto simp: de_ok_def)
  ultimately show "ramfs_dir_step dir (de_hash de) = Some (de, case ys of [] \<Rightarrow> 0 | de' # _ \<Rightarrow> de_hash de')"
    using nz b ys cap by (simp add: ramfs_dir_step_def next_entry)
  show "ramfs_dir_step dir 0 = Some (de, case ys of [] \<Rightarrow> 0 | de' # _ \<Rightarrow> de_hash de')" if "xs = []"
    using first_bucket_concat [of "ht dir" de ys 0] e that cap
    by (auto simp: ramfs_dir_step_def next_entry)
qed

lemma dir_ls_at:
  assumes ok: "dir_ok dir" and d: "distinct (map de_hash (concat (ht dir)))" "\<forall>de\<in>set (concat (ht dir)). de_hash de \<noteq> 0"
  shows "concat (ht dir) = xs @ de # ys \<Longrightarrow> dir_ls dir (de_hash de) = Some (de # ys)"
proof (induction ys arbitrary: xs de)
  case Nil
  then show ?case using dir_step_at(1) [OF ok d, of xs de "[]"] by (subst dir_ls.simps) simp
next
  case (Cons e ys)
  have "de_hash e \<noteq> 0" using d(2) Cons.prems by simp
  moreover have "dir_ls dir (de_hash e) = Some (e # ys)" using Cons.IH [of "xs @ [de]" e] Cons.prems by simp
  ultimately show ?case using dir_step_at(1) [OF ok d, of xs de "e # ys"] Cons.prems by (subst dir_ls.simps) simp
qed

section \<open>Properties\<close>

text \<open>C15. A directory implements a finite map from names to inode numbers: a new entry adds its name or reports
  \<open>EEXIST\<close> or \<open>ENOMEM\<close> and changes nothing, deleting removes exactly the name or reports \<open>ENOENT\<close>, both keep the table
  well-formed, and the search finds what the map holds for a name whose hash no other name of the directory has.\<close>

theorem ramfs_directory_refines_map:
  assumes ok: "dir_ok dir" and name: "valid_name name"
  shows "(\<forall>ret dir' kh'. ramfs_directory_new_entry kh dir name ino = Some (ret, dir', kh') \<longrightarrow>
      (if ret = 0 then dir_map dir name = None \<and> dir_ok dir' \<and> dir_map dir' = (dir_map dir)(name \<mapsto> ino)
       else dir' = dir \<and> (ret = errno_code ENOMEM \<or> ret = errno_code EEXIST \<and> dir_map dir name \<noteq> None))) \<and>
    (\<forall>ret dir' kh'. ramfs_directory_delete_entry kh dir name (length name) = (ret, dir', kh') \<longrightarrow>
      (if dir_map dir name = None then ret = errno_code ENOENT \<and> dir' = dir
       else ret = 0 \<and> dir_ok dir' \<and> dir_map dir' = (dir_map dir)(name := None))) \<and>
    (hash_unique dir name \<longrightarrow> ramfs_directory_search dir name (length name) =
      (case dir_map dir name of None \<Rightarrow> (errno_code ENOENT, 0) | Some i \<Rightarrow> (0, i)))"
proof (intro conjI allI impI)
  have c: "cstr name = name" "length name \<le> UINT_MAX" using name by (simp_all add: valid_name_def cstr_id)
  show "if ret = 0 then dir_map dir name = None \<and> dir_ok dir' \<and> dir_map dir' = (dir_map dir)(name \<mapsto> ino)
      else dir' = dir \<and> (ret = errno_code ENOMEM \<or> ret = errno_code EEXIST \<and> dir_map dir name \<noteq> None)"
    if "ramfs_directory_new_entry kh dir name ino = Some (ret, dir', kh')" for ret dir' kh'
    using new_entry_map [OF ok _ that] c(2) unfolding c(1) by blast
  show "if dir_map dir name = None then ret = errno_code ENOENT \<and> dir' = dir
      else ret = 0 \<and> dir_ok dir' \<and> dir_map dir' = (dir_map dir)(name := None)"
    if "ramfs_directory_delete_entry kh dir name (length name) = (ret, dir', kh')" for ret dir' kh'
    using directory_delete_map [OF ok, of name "length name" kh] that c by (auto split: if_splits)
  show "ramfs_directory_search dir name (length name) = (case dir_map dir name of None \<Rightarrow> (errno_code ENOENT, 0) | Some i \<Rightarrow> (0, i))"
    if "hash_unique dir name"
    using search_map [OF ok, of "length name" name] that c by simp
qed

text \<open>A directory with the two entries that \<^verbatim>\<open>ramfs_make_directory\<close> gives the root.\<close>

definition ex_dir :: ramfs_directory where
  "ex_dir = snd (ramfs_directory_insert (snd (ramfs_directory_insert
     \<lparr>dsize = 0, htcap = 8, ht = replicate 8 [], ht_ptr = 0\<rparr> (entry ''..'' 1))) (entry ''.'' 1))"

lemma ex_dir_ok: "dir_ok ex_dir" "dir_map ex_dir = [''..'' \<mapsto> 1, ''.'' \<mapsto> 1]"
proof -
  let ?d = "\<lparr>dsize = 0, htcap = 8, ht = replicate 8 [], ht_ptr = 0\<rparr>"
  have "dir_ok ?d" by (simp add: dir_ok_def)
  moreover have "dir_map ?d = Map.empty" by (auto simp: dir_map_None fun_eq_iff)
  moreover have "valid_name ''..''" "valid_name ''.''" by (simp_all add: valid_name_def UINT_MAX_def NUL_def)
  ultimately show "dir_ok ex_dir" "dir_map ex_dir = [''..'' \<mapsto> 1, ''.'' \<mapsto> 1]"
    using ramdir.ins_list [of ?d "[(''..'', 1), (''.'', 1)]"] by (auto simp: ex_dir_def)
qed

lemma ex_hash: "strhash ''.'' = 0x490e9210" "strhash ''..'' = 0xa9a81f0a"
  by (simp_all add: strhash_def hash_step_def schar_def)

lemma ex_dir_hashes:
  "map (\<lambda>de. (de_name de, de_hash de)) (concat (ht ex_dir)) = [(''.'', 0x490e9210), (''..'', 0xa9a81f0a)]"
proof -
  have "unat (0x490e9210 :: u32) mod 8 = 0" "unat (0xa9a81f0a :: u32) mod 8 = 2" by simp_all
  moreover have "replicate 8 [] = [[], [], [], [], [], [], [], [] :: ramfs_direntry list]" by (simp add: numeral_eq_Suc)
  ultimately show ?thesis by (simp add: ex_dir_def ramfs_directory_insert_def entry_def ex_hash Let_def)
qed

lemma ex_dir_unique: "hash_unique ex_dir ''..''" "hash_unique ex_dir ''.''"
proof -
  let ?f = "\<lambda>de. (de_name de, de_hash de)"
  have h: "?f de = (''.'', 0x490e9210) \<or> ?f de = (''..'', 0xa9a81f0a)" if "de \<in> set (concat (ht ex_dir))" for de
  proof -
    have "?f de \<in> set (map ?f (concat (ht ex_dir)))" unfolding set_map by (rule imageI [OF that])
    then show ?thesis unfolding ex_dir_hashes by simp
  qed
  show "hash_unique ex_dir ''..''" "hash_unique ex_dir ''.''"
    unfolding hash_unique_def by (auto dest!: h simp: ex_hash cstr_def NUL_def simp del: set_concat)
qed

theorem ramfs_directory_refines_map_witness:
  "ramfs_directory_search ex_dir ''..'' 2 = (0, 1) \<and> fst (ramfs_directory_delete_entry heap0 ex_dir ''..'' 2) = 0"
proof -
  have "valid_name ''..''" by (simp add: valid_name_def UINT_MAX_def NUL_def)
  then show ?thesis
    using ramfs_directory_refines_map [OF ex_dir_ok(1), of "''..''" heap0] ex_dir_ok(2) ex_dir_unique(1)
    by (cases "ramfs_directory_delete_entry heap0 ex_dir ''..'' 2") (simp add: numeral_2_eq_2)
qed

text \<open>C32. Enumerating a directory from a null iterator until the iterator is null again ends and gives every entry
  exactly once, in table order, when the hashes of its names are distinct and none is zero.\<close>

theorem ramfs_enumeration_complete:
  assumes "dir_ok dir" "distinct (map de_hash (concat (ht dir)))" "\<forall>de\<in>set (concat (ht dir)). de_hash de \<noteq> 0"
    "concat (ht dir) \<noteq> []"
  shows "dir_ls dir 0 = Some (concat (ht dir))"
proof -
  obtain de ys where c: "concat (ht dir) = de # ys" using assms(4) by (cases "concat (ht dir)") auto
  show ?thesis
  proof (cases ys)
    case Nil
    then show ?thesis using dir_step_at(2) [OF assms(1-3), of "[]"] c by (subst dir_ls.simps) simp
  next
    case (Cons e zs)
    then have "de_hash e \<noteq> 0" using assms(3) c by simp
    moreover have "dir_ls dir (de_hash e) = Some (e # zs)" using dir_ls_at [OF assms(1-3), of "[de]"] c Cons by simp
    ultimately show ?thesis using dir_step_at(2) [OF assms(1-3), of "[]"] c Cons by (subst dir_ls.simps) simp
  qed
qed

theorem ramfs_enumeration_complete_witness:
  "map_option (map de_name) (dir_ls ex_dir 0) = Some [''.'', ''..'']"
proof -
  let ?c = "concat (ht ex_dir)"
  have "map de_hash ?c = map snd (map (\<lambda>de. (de_name de, de_hash de)) ?c)" "map de_name ?c = map fst (map (\<lambda>de. (de_name de, de_hash de)) ?c)"
    by simp_all
  then have h: "map de_hash ?c = [0x490e9210, 0xa9a81f0a]" and n: "map de_name ?c = [''.'', ''..'']"
    unfolding ex_dir_hashes by simp_all
  have "de_hash ` set ?c = {0x490e9210, 0xa9a81f0a}" unfolding set_map [symmetric] h by simp
  then have "0 \<notin> de_hash ` set ?c" by simp
  then have z: "\<forall>de\<in>set ?c. de_hash de \<noteq> 0" by (metis imageI)
  have c: "?c \<noteq> []" using h by (metis list.map_disc_iff list.distinct(1))
  have d: "distinct (map de_hash ?c)" unfolding h by simp
  show ?thesis unfolding ramfs_enumeration_complete [OF ex_dir_ok(1) d z c] using n by simp
qed

end
