(* ===== verification/Vfs_Types.thy ===== *)
theory Vfs_Types
  imports Libc_String
begin

text \<open>
  What the file systems share: device numbers (\<^verbatim>\<open>sys/types.h\<close>), file modes (\<^verbatim>\<open>sys/stat.h\<close>), the generic
  inode of \<^verbatim>\<open>fs/vfs.h\<close> and the split of a path into directory and name (\<^verbatim>\<open>src/fs/vfs.c\<close>).
\<close>

unbundle bit_operations_syntax

section \<open>Device numbers\<close>

definition gnu_dev_major :: "u64 \<Rightarrow> u32" where
  "gnu_dev_major dev = ucast ((drop_bit 8 dev) AND 0xfff) OR (ucast (drop_bit 32 dev) AND NOT 0xfff)"

definition gnu_dev_minor :: "u64 \<Rightarrow> u32" where
  "gnu_dev_minor dev = ucast (dev AND 0xff) OR (ucast (drop_bit 12 dev) AND NOT 0xff)"

definition gnu_dev_makedev :: "u32 \<Rightarrow> u32 \<Rightarrow> u64" where
  "gnu_dev_makedev mjr mnr =
     ucast ((mnr AND 0xff) OR push_bit 8 (mjr AND 0xfff)) OR push_bit 12 (ucast (mnr AND NOT 0xff)) OR
     push_bit 32 (ucast (mjr AND NOT 0xfff))"

section \<open>File modes\<close>

abbreviation (input) S_IFMT :: u32 where "S_IFMT \<equiv> 0xF000"

definition S_IFSOCK :: u32 where "S_IFSOCK = 0xC000"
definition S_IFLNK :: u32 where "S_IFLNK = 0xA000"
definition S_IFREG :: u32 where "S_IFREG = 0x8000"
definition S_IFBLK :: u32 where "S_IFBLK = 0x6000"
definition S_IFDIR :: u32 where "S_IFDIR = 0x4000"
definition S_IFCHR :: u32 where "S_IFCHR = 0x2000"
definition S_IFIFO :: u32 where "S_IFIFO = 0x1000"

lemmas S_IF_defs = S_IFSOCK_def S_IFLNK_def S_IFREG_def S_IFBLK_def S_IFDIR_def S_IFCHR_def S_IFIFO_def

definition S_FMT :: "u32 \<Rightarrow> u32" where "S_FMT m = m AND S_IFMT"
definition S_ISDIR :: "u32 \<Rightarrow> bool" where "S_ISDIR m \<longleftrightarrow> S_FMT m = S_IFDIR"
definition S_ISLNK :: "u32 \<Rightarrow> bool" where "S_ISLNK m \<longleftrightarrow> S_FMT m = S_IFLNK"
definition S_ISREG :: "u32 \<Rightarrow> bool" where "S_ISREG m \<longleftrightarrow> S_FMT m = S_IFREG"
definition S_ISCHR :: "u32 \<Rightarrow> bool" where "S_ISCHR m \<longleftrightarrow> S_FMT m = S_IFCHR"
definition S_ISBLK :: "u32 \<Rightarrow> bool" where "S_ISBLK m \<longleftrightarrow> S_FMT m = S_IFBLK"

section \<open>Inodes\<close>

text \<open>The members of the union are separate fields: an inode uses only those of its own type.\<close>

record inode =
  i_no :: u32
  i_mode :: u32
  i_nlinks :: u32
  i_nfds :: u32
  i_size :: int
  i_data :: u32
  block_count :: int
  directblock :: "u32 list"
  indir1st_block :: u32
  indir2nd_block :: u32
  indir3rd_block :: u32
  dev_maj :: u32
  dev_min :: u32

abbreviation (input) N_DIRECT_BLOCKS :: nat where "N_DIRECT_BLOCKS \<equiv> 12"

definition zero_inode :: inode where
  "zero_inode = \<lparr>i_no = 0, i_mode = 0, i_nlinks = 0, i_nfds = 0, i_size = 0, i_data = 0, block_count = 0,
     directblock = replicate N_DIRECT_BLOCKS 0, indir1st_block = 0, indir2nd_block = 0, indir3rd_block = 0,
     dev_maj = 0, dev_min = 0\<rparr>"

definition inode_devno :: "inode \<Rightarrow> u64" where
  "inode_devno idata = gnu_dev_makedev (dev_maj idata) (dev_min idata)"

section \<open>Paths\<close>

definition FS_SEP :: char where "FS_SEP = CHR ''/''"
definition SIZE_MAX :: nat where "SIZE_MAX = 4294967295"

text \<open>
  The length of the directory part.  The loop over separators before the last one has no lower bound: it reads
  the characters in front of the path, which are \<open>before\<close>, nearest first.
\<close>

definition vfs_path_dirname_len :: "string \<Rightarrow> string \<Rightarrow> nat \<Rightarrow> int" where
  "vfs_path_dirname_len before path pathlen =
     (case strnrchr path pathlen FS_SEP of
        None \<Rightarrow> 0
      | Some last_sep \<Rightarrow>
          let i = length path - length last_sep in
          int i - int (length (takeWhile (\<lambda>c. c = FS_SEP) (rev (take i path) @ before))))"

section \<open>The layout of a device number\<close>

lemma masks: "(0xff :: 'a::len word) = mask 8" "(0xfff :: 'a::len word) = mask 12"
  by (simp_all add: mask_eq_exp_minus_1)

lemma bit_makedev:
  "bit (gnu_dev_makedev mjr mnr) n \<longleftrightarrow>
     (if n < 8 then bit mnr n else if n < 20 then bit mjr (n - 8)
      else if n < 44 then bit mnr (n - 12) else n < 64 \<and> bit mjr (n - 32))"
proof -
  have big: "\<not> bit (x :: u32) m" if "32 \<le> m" for x m using that bit_imp_le_length [of x m] by auto
  consider "n < 8" | "8 \<le> n" "n < 20" | "20 \<le> n" "n < 44" | "44 \<le> n" by linarith
  then show ?thesis
    unfolding gnu_dev_makedev_def masks by cases (auto simp add: bit_simps big)
qed

lemma makedev_parts: "gnu_dev_makedev (gnu_dev_major d) (gnu_dev_minor d) = d"
proof (rule bit_word_eqI)
  fix n assume n: "n < LENGTH(64)"
  consider "n < 8" | "8 \<le> n" "n < 20" | "20 \<le> n" "n < 44" | "44 \<le> n" by linarith
  then show "bit (gnu_dev_makedev (gnu_dev_major d) (gnu_dev_minor d)) n = bit d n"
    using n unfolding bit_makedev gnu_dev_major_def gnu_dev_minor_def masks by cases (auto simp: bit_simps)
qed

section \<open>Properties\<close>

text \<open>Device numbers round trip: packing a major and a minor number into a device number and unpacking it
  gives both back, over the full 32-bit range of each.\<close>

theorem makedev_round_trip:
  "gnu_dev_major (gnu_dev_makedev mjr mnr) = mjr \<and> gnu_dev_minor (gnu_dev_makedev mjr mnr) = mnr"
proof
  show "gnu_dev_major (gnu_dev_makedev mjr mnr) = mjr"
  proof (rule bit_word_eqI)
    fix n assume "n < LENGTH(32)"
    then show "bit (gnu_dev_major (gnu_dev_makedev mjr mnr)) n = bit mjr n"
      unfolding gnu_dev_major_def masks by (cases "n < 12") (simp_all add: bit_simps bit_makedev)
  qed
  show "gnu_dev_minor (gnu_dev_makedev mjr mnr) = mnr"
  proof (rule bit_word_eqI)
    fix n assume "n < LENGTH(32)"
    then show "bit (gnu_dev_minor (gnu_dev_makedev mjr mnr)) n = bit mnr n"
      unfolding gnu_dev_minor_def masks by (cases "n < 8") (simp_all add: bit_simps bit_makedev)
  qed
qed

end
