(* ===== verification/Ramfs.thy ===== *)
theory Ramfs
  imports Ramfs_Btree Ramfs_Dir Vfs_Types
begin

text \<open>
  The RAM file system of \<^verbatim>\<open>src/fs/ramfs.c\<close>: inodes, path lookup, links, block management, reading and
  writing.  The state of a mounted file system is its inode tree and root together with the kernel memory it
  uses: the heap, the page frames, the bytes of data blocks, and the inode and directory objects by address.
  Operations that allocate give \<open>None\<close> when a heap search does not return.  Positions and lengths are
  natural numbers; where the code casts to \<^verbatim>\<open>int\<close>, \<open>as_int\<close> does.
\<close>

section \<open>State\<close>

record ramfs =
  kh :: ff_state
  pm :: pmem
  mem :: bytemem
  idatas :: "u32 \<Rightarrow> inode"
  dirs :: "u32 \<Rightarrow> ramfs_directory"
  inodes_btree :: btree_node
  sb_parent :: u32
  sb_root_ino :: u32
  invalid_inode :: u32

definition upd_idata :: "(inode \<Rightarrow> inode) \<Rightarrow> u32 \<Rightarrow> ramfs \<Rightarrow> ramfs" where
  "upd_idata g p fs = fs\<lparr>idatas := (idatas fs)(p := g (idatas fs p))\<rparr>"

definition as_int :: "nat \<Rightarrow> int" where
  "as_int n = sint (of_nat n :: u32)"

definition mem_write :: "bytemem \<Rightarrow> u32 \<Rightarrow> u8 list \<Rightarrow> bytemem" where
  "mem_write m p bs = (\<lambda>a. if unat (a - p) < length bs then bs ! unat (a - p) else m a)"

definition mem_rd32 :: "bytemem \<Rightarrow> u32 \<Rightarrow> u32" where
  "mem_rd32 m p = foldr (\<lambda>b v. ucast b OR push_bit 8 v) (mem_read m p 4) 0"

definition mem_wr32 :: "bytemem \<Rightarrow> u32 \<Rightarrow> u32 \<Rightarrow> bytemem" where
  "mem_wr32 m p v = mem_write m p (map (\<lambda>i. ucast (drop_bit (8 * i) v)) [0, 1, 2, 3])"

definition new_entry :: "ramfs \<Rightarrow> u32 \<Rightarrow> string \<Rightarrow> u32 \<Rightarrow> (int \<times> ramfs) option" where
  "new_entry fs d name idata =
     do { (ret, dir, h) \<leftarrow> ramfs_directory_new_entry (kh fs) (dirs fs d) name (i_no (idatas fs idata));
          Some (ret, fs\<lparr>kh := h, dirs := (dirs fs)(d := dir)\<rparr>) }"

section \<open>Blocks\<close>

definition ramfs_new_block :: "ramfs \<Rightarrow> u32 \<times> ramfs" where
  "ramfs_new_block fs = (let (b, pm') = kmem_alloc (pm fs) 1 in (b, fs\<lparr>pm := pm'\<rparr>))"

text \<open>The lookup in an indirect block reads one signed byte of it.\<close>

definition ramfs_block_by_index :: "ramfs \<Rightarrow> inode \<Rightarrow> nat \<Rightarrow> u32" where
  "ramfs_block_by_index fs idata index =
     (if index < N_DIRECT_BLOCKS then directblock idata ! index
      else if indir1st_block idata = 0 then 0
      else if index - N_DIRECT_BLOCKS < 1024 then
        scast (mem fs (indir1st_block idata + of_nat (index - N_DIRECT_BLOCKS)))
      else 0)"

definition ramfs_block_by_index_or_new :: "ramfs \<Rightarrow> u32 \<Rightarrow> nat \<Rightarrow> u32 \<times> ramfs" where
  "ramfs_block_by_index_or_new fs p index =
     (let idata = idatas fs p in
      if index < N_DIRECT_BLOCKS then
        let blkdata = directblock idata ! index in
        if blkdata = 0 then
          let (blkdata, fs) = ramfs_new_block fs in
          (blkdata, upd_idata (\<lambda>i. i\<lparr>directblock := (directblock i)[index := blkdata],
                                    block_count := block_count i + 1\<rparr>) p fs)
        else (blkdata, fs)
      else
        let index = index - N_DIRECT_BLOCKS in
        if index < 1024 then
          let (ind1blk, fs) =
                (if indir1st_block idata = 0 then
                   let (b, fs) = ramfs_new_block fs in (b, upd_idata (indir1st_block_update (\<lambda>_. b)) p fs)
                 else (indir1st_block idata, fs));
              slot = ind1blk + 4 * of_nat index;
              blkdata = mem_rd32 (mem fs) slot
          in if blkdata = 0 then
               let (blkdata, fs) = ramfs_new_block fs in
               (blkdata, upd_idata (block_count_update (\<lambda>n. n + 1)) p (fs\<lparr>mem := mem_wr32 (mem fs) slot blkdata\<rparr>))
             else (blkdata, fs)
        else (0, fs))"

text \<open>Frames are given back by the address of their kernel mapping, where a page index is expected.\<close>

definition free_block :: "ramfs \<Rightarrow> u32 \<Rightarrow> ramfs" where
  "free_block fs b = (if b = 0 then fs else fs\<lparr>pm := snd (pmem_free (pm fs) b 1)\<rparr>)"

definition ramfs_free_blocks_in_list :: "ramfs \<Rightarrow> u32 \<Rightarrow> ramfs" where
  "ramfs_free_blocks_in_list fs blklst =
     (if blklst = 0 then fs
      else foldl (\<lambda>fs i. free_block fs (mem_rd32 (mem fs) (blklst + 4 * of_nat i))) fs [0..<1024])"

definition ramfs_free_blocks_2ndlvl :: "ramfs \<Rightarrow> u32 \<Rightarrow> ramfs" where
  "ramfs_free_blocks_2ndlvl fs ind2lst =
     (if ind2lst = 0 then fs
      else foldl (\<lambda>fs i. ramfs_free_blocks_in_list fs (mem_rd32 (mem fs) (ind2lst + 4 * of_nat i))) fs [0..<1024])"

definition ramfs_free_inode_blocks :: "ramfs \<Rightarrow> inode \<Rightarrow> ramfs" where
  "ramfs_free_inode_blocks fs idata =
     (if indir3rd_block idata \<noteq> 0 then fs
      else
        let fs = ramfs_free_blocks_2ndlvl fs (indir2nd_block idata);
            fs = ramfs_free_blocks_in_list fs (indir1st_block idata)
        in foldl free_block fs (directblock idata))"

section \<open>Inodes\<close>

definition ramfs_inode_new :: "ramfs \<Rightarrow> u32 \<Rightarrow> (int \<times> u32 \<times> ramfs) option" where
  "ramfs_inode_new fs mode =
     do { (p, h) \<leftarrow> kmalloc (kh fs) 88;
          let fs = fs\<lparr>kh := h\<rparr>;
          if p = 0 then Some (errno_code ENOMEM, 0, fs)
          else do { (ino, root, h) \<leftarrow> btree_new_leaf (kh fs) (inodes_btree fs) p;
                    Some (0, p, fs\<lparr>kh := h, inodes_btree := root,
                                  idatas := (idatas fs)(p := zero_inode\<lparr>i_no := of_nat ino, i_mode := mode\<rparr>)\<rparr>) } }"

definition ramfs_inode_free :: "ramfs \<Rightarrow> u32 \<Rightarrow> ramfs" where
  "ramfs_inode_free fs p =
     (let idata = idatas fs p;
          fs = (if S_FMT (i_mode idata) = S_IFDIR then
                  if i_data idata \<noteq> 0 then
                    fs\<lparr>kh := ramfs_directory_free (kh fs) (i_data idata) (dirs fs (i_data idata))\<rparr>
                  else fs
                else if S_FMT (i_mode idata) = S_IFREG then ramfs_free_inode_blocks fs idata
                else fs)
      in fs\<lparr>kh := heap_free (kh fs) p\<rparr>)"

definition ramfs_idata_by_inode :: "ramfs \<Rightarrow> u32 \<Rightarrow> u32" where
  "ramfs_idata_by_inode fs ino =
     (case btree_get_index (inodes_btree fs) (unat ino) of Some (Leaf p) \<Rightarrow> p | _ \<Rightarrow> 0)"

definition ramfs_free_inode :: "ramfs \<Rightarrow> u32 \<Rightarrow> int \<times> ramfs" where
  "ramfs_free_inode fs ino =
     (let p = ramfs_idata_by_inode fs ino in
      if p = 0 then (errno_code ENOENT, fs)
      else (0, ramfs_inode_free fs p))"

definition ramfs_inode_get :: "ramfs \<Rightarrow> u32 \<Rightarrow> int \<times> inode option" where
  "ramfs_inode_get fs ino =
     (let p = ramfs_idata_by_inode fs ino in
      if p = 0 then (errno_code ENOENT, None) else (0, Some (idatas fs p)))"

definition ramfs_inode_set :: "ramfs \<Rightarrow> u32 \<Rightarrow> inode \<Rightarrow> int \<times> ramfs" where
  "ramfs_inode_set fs ino inobuf =
     (let p = ramfs_idata_by_inode fs ino in
      if p = 0 then (errno_code ENOENT, fs)
      else
        let fs = upd_idata (\<lambda>_. inobuf) p fs in
        if i_nlinks inobuf = 0 \<and> i_nfds inobuf = 0 then ramfs_free_inode fs ino else (0, fs))"

section \<open>Path lookup\<close>

text \<open>The length of the name at the front of a path: up to a separator, a null character or the end.\<close>

fun name_len :: "string \<Rightarrow> nat \<Rightarrow> nat" where
  "name_len [] pathlen = 0"
| "name_len (c # s) pathlen =
     (if pathlen = 0 \<or> c = NUL \<or> c = FS_SEP then 0 else Suc (name_len s (pathlen - 1)))"

lemma rest_shorter: "drop k s \<noteq> [] \<Longrightarrow> length (dropWhile P (tl (drop k s))) < length s"
  using length_dropWhile_le [of P "tl (drop k s)"] by simp

function lookup_in :: "ramfs \<Rightarrow> u32 \<Rightarrow> string \<Rightarrow> nat \<Rightarrow> int \<times> u32" where
  "lookup_in fs dir basename pathlen =
     (let k = name_len basename pathlen;
          basename_end = drop k basename;
          (ret, ino) = ramfs_directory_search (dirs fs dir) basename k
      in if pathlen \<le> k \<or> chr0 basename_end = NUL then (ret, if ret \<noteq> 0 then 0 else ino)
         else if ret \<noteq> 0 then (ret, 0)
         else if chr0 (tl basename_end) = NUL then (0, ino)
         else
           let idata = ramfs_idata_by_inode fs ino in
           if idata = 0 then (errno_code EKERN, 0)
           else if \<not> S_ISDIR (i_mode (idatas fs idata)) then (errno_code ENOTDIR, 0)
           else
             let rest = dropWhile (\<lambda>c. c = FS_SEP) (tl basename_end)
             in lookup_in fs (i_data (idatas fs idata)) rest (pathlen - (length basename - length rest)))"
  by pat_completeness auto
termination
proof (relation "measure (\<lambda>(_, _, s, _). length s)", simp, goal_cases)
  case (1 fs dir s n)
  have "drop (name_len s n) s \<noteq> []" using 1 by (auto simp: chr0_def)
  from rest_shorter [OF this] show ?case using 1 by simp
qed

declare lookup_in.simps [simp del]

definition ramfs_lookup_inode :: "ramfs \<Rightarrow> string \<Rightarrow> nat \<Rightarrow> int \<times> u32" where
  "ramfs_lookup_inode fs path pathlen =
     (if chr0 path = NUL \<or> pathlen = 0 then (0, sb_root_ino fs)
      else
        let root = ramfs_idata_by_inode fs (sb_root_ino fs) in
        if root = 0 then (errno_code EKERN, 0)
        else if \<not> S_ISDIR (i_mode (idatas fs root)) then (errno_code EKERN, 0)
        else lookup_in fs (i_data (idatas fs root)) path pathlen)"

section \<open>Links and directories\<close>

text \<open>Names longer than the 255-byte buffer of \<^verbatim>\<open>ramfs_link_inode\<close> overflow it; they are not modelled.\<close>

definition ramfs_link_inode :: "ramfs \<Rightarrow> u32 \<Rightarrow> u32 \<Rightarrow> string \<Rightarrow> nat \<Rightarrow> (int \<times> ramfs) option" where
  "ramfs_link_inode fs ino dirino name namelen =
     (let buf = strncpy name namelen;
          dir_idata = ramfs_idata_by_inode fs dirino
      in if dir_idata = 0 then Some (errno_code EKERN, fs)
         else if \<not> S_ISDIR (i_mode (idatas fs dir_idata)) then Some (errno_code ENOTDIR, fs)
         else
           let dir = i_data (idatas fs dir_idata);
               idata = ramfs_idata_by_inode fs ino
           in if dir = 0 then Some (errno_code EKERN, fs)
              else if idata = 0 then Some (errno_code ENOENT, fs)
              else do { (ret, fs) \<leftarrow> new_entry fs dir buf idata;
                        if ret \<noteq> 0 then Some (ret, fs)
                        else Some (0, upd_idata (i_nlinks_update (\<lambda>n. n + 1)) idata fs) })"

text \<open>Separators in front of the name are skipped while the path lasts; \<open>None\<close> is the \<open>EINVAL\<close> return.\<close>

fun skip_seps :: "string \<Rightarrow> nat \<Rightarrow> nat \<Rightarrow> (string \<times> nat) option" where
  "skip_seps [] dirlen pathlen = Some ([], dirlen)"
| "skip_seps (c # s) dirlen pathlen =
     (if c = FS_SEP then if dirlen \<ge> pathlen then None else skip_seps s (dirlen + 1) pathlen
      else Some (c # s, dirlen))"

definition unlink_at :: "ramfs \<Rightarrow> u32 \<Rightarrow> string \<Rightarrow> nat \<Rightarrow> int \<times> ramfs" where
  "unlink_at fs d basename len =
     (let (ret, ino) = ramfs_directory_search (dirs fs d) basename len;
          idata = ramfs_idata_by_inode fs ino
      in if ret \<noteq> 0 then (ret, fs)
         else if idata = 0 then (errno_code EKERN, fs)
         else if S_ISDIR (i_mode (idatas fs idata)) then (errno_code EISDIR, fs)
         else
           let (ret, dir', h) = ramfs_directory_delete_entry (kh fs) (dirs fs d) basename len;
               fs = fs\<lparr>kh := h, dirs := (dirs fs)(d := dir')\<rparr>
           in if ret \<noteq> 0 then (ret, fs)
              else
                let fs = upd_idata (i_nlinks_update (\<lambda>n. n - 1)) idata fs in
                if i_nlinks (idatas fs idata) > 0 \<or> i_nfds (idatas fs idata) > 0 then (0, fs)
                else ramfs_free_inode fs ino)"

definition ramfs_unlink_inode :: "ramfs \<Rightarrow> string \<Rightarrow> string \<Rightarrow> nat \<Rightarrow> int \<times> ramfs" where
  "ramfs_unlink_inode fs before path pathlen =
     (let dlen = vfs_path_dirname_len before path pathlen in
      if dlen < 0 then (errno_code EINVAL, fs)
      else
        let dirlen = nat dlen;
            (ret, parino) = ramfs_lookup_inode fs path dirlen;
            dir_idata = ramfs_idata_by_inode fs parino;
            dir = i_data (idatas fs dir_idata)
        in if ret \<noteq> 0 then (ret, fs)
           else if dir_idata = 0 then (errno_code EKERN, fs)
           else if \<not> S_ISDIR (i_mode (idatas fs dir_idata)) then (errno_code ENOTDIR, fs)
           else if dir = 0 then (errno_code EKERN, fs)
           else case skip_seps (drop dirlen path) dirlen pathlen of
                  None \<Rightarrow> (errno_code EINVAL, fs)
                | Some (basename, dirlen) \<Rightarrow> unlink_at fs dir basename (pathlen - dirlen))"

text \<open>
  \<open>add_to_parent\<close> enters a new directory under its parent.  Its result for the entry itself is dropped by the
  code, which goes on as if the name had been free; \<open>Inl\<close> is a jump to \<^verbatim>\<open>error_exit\<close> with that return value.
\<close>

definition add_to_parent :: "ramfs \<Rightarrow> u32 \<Rightarrow> string \<Rightarrow> (int + unit) option \<times> ramfs" where
  "add_to_parent fs idata path =
     (let basename = (case strrchr path FS_SEP of None \<Rightarrow> path | Some b \<Rightarrow> b);
          (ret, parino) = ramfs_lookup_inode fs path (length path - length basename);
          par_idata = ramfs_idata_by_inode fs parino
      in if ret \<noteq> 0 then (Some (Inl ret), fs)
         else if par_idata = 0 then (Some (Inl 0), fs)
         else if \<not> S_ISDIR (i_mode (idatas fs par_idata)) then (Some (Inl (errno_code ENOTDIR)), fs)
         else case new_entry fs (i_data (idatas fs par_idata)) (dropWhile (\<lambda>c. c = FS_SEP) basename) idata of
                None \<Rightarrow> (None, fs)
              | Some (_, fs) \<Rightarrow> (Some (Inr ()), upd_idata (i_nlinks_update (\<lambda>n. n + 1)) idata fs))"

definition make_directory_fail :: "ramfs \<Rightarrow> u32 \<Rightarrow> u32 \<Rightarrow> ramfs" where
  "make_directory_fail fs dir idata =
     (let fs = (if dir \<noteq> 0 then fs\<lparr>kh := ramfs_directory_free (kh fs) dir (dirs fs dir)\<rparr> else fs)
      in ramfs_inode_free fs idata)"

definition ramfs_make_directory :: "ramfs \<Rightarrow> string \<Rightarrow> u32 \<Rightarrow> (int \<times> u32 \<times> ramfs) option" where
  "ramfs_make_directory fs path mode =
     do { (ret, idata, fs) \<leftarrow> ramfs_inode_new fs (S_IFDIR OR mode);
          if ret \<noteq> 0 then Some (ret, 0, fs)
          else do { (ret, dir, d, h) \<leftarrow> ramfs_directory_new (kh fs);
                    let fs = fs\<lparr>kh := h\<rparr>;
                    case d of
                      None \<Rightarrow> Some (ret, 0, make_directory_fail fs 0 idata)
                    | Some d \<Rightarrow>
                        do { let fs = fs\<lparr>dirs := (dirs fs)(dir := d)\<rparr>;
                             (r, fs) \<leftarrow>
                               (if chr0 path = NUL then
                                  if sb_parent fs = 0 then
                                    do { (ret, fs) \<leftarrow> new_entry fs dir ''..'' idata;
                                         Some (if ret \<noteq> 0 then (Inl ret, fs)
                                               else (Inr (), upd_idata (i_nlinks_update (\<lambda>n. n + 1)) idata fs)) }
                                  else Some (Inr (), fs)
                                else case add_to_parent fs idata path of (r, fs) \<Rightarrow> map_option (\<lambda>r. (r, fs)) r);
                             case r of
                               Inl ret \<Rightarrow> Some (ret, 0, make_directory_fail fs dir idata)
                             | Inr _ \<Rightarrow>
                                 do { (ret, fs) \<leftarrow> new_entry fs dir ''.'' idata;
                                      if ret \<noteq> 0 then Some (ret, 0, make_directory_fail fs dir idata)
                                      else Some (0, i_no (idatas fs idata),
                                             upd_idata (\<lambda>i. i\<lparr>i_data := dir, i_nlinks := i_nlinks i + 1\<rparr>) idata fs) } } } }"

definition ramfs_make_node :: "ramfs \<Rightarrow> u32 \<Rightarrow> u32 \<Rightarrow> (int \<times> u32 \<times> ramfs) option" where
  "ramfs_make_node fs mode info =
     do { (ret, idata, fs) \<leftarrow> ramfs_inode_new fs mode;
          if ret \<noteq> 0 then Some (ret, 0, fs)
          else
            let fs = (if S_ISCHR mode \<or> S_ISBLK mode then
                        upd_idata (\<lambda>i. i\<lparr>dev_maj := gnu_dev_major (ucast info), dev_min := gnu_dev_minor (ucast info)\<rparr>) idata fs
                      else fs)
            in Some (0, i_no (idatas fs idata), fs) }"

section \<open>Mounting and enumeration\<close>

definition ramfs_data_new :: "ramfs \<Rightarrow> (int \<times> u32 \<times> ramfs) option" where
  "ramfs_data_new fs =
     do { (d, h) \<leftarrow> kmalloc (kh fs) 4;
          let fs = fs\<lparr>kh := h\<rparr>;
          if d = 0 then Some (errno_code ENOMEM, 0, fs)
          else do { (n, h) \<leftarrow> btree_new (kh fs) 64;
                    case n of
                      None \<Rightarrow> Some (errno_code ENOMEM, 0, fs\<lparr>kh := heap_free h d\<rparr>)
                    | Some bnode \<Rightarrow>
                        Some (0, d, upd_idata (i_no_update (\<lambda>_. 0)) (invalid_inode fs)
                                (fs\<lparr>kh := h, inodes_btree := snd (btree_set_leaf bnode (invalid_inode fs))\<rparr>)) } }"

definition ramfs_data_free :: "ramfs \<Rightarrow> u32 \<Rightarrow> ramfs" where
  "ramfs_data_free fs d =
     (let fs = foldl ramfs_inode_free fs (btree_free (invalid_inode fs) (inodes_btree fs))
      in fs\<lparr>kh := heap_free (kh fs) d\<rparr>)"

definition ramfs_read_superblock :: "ramfs \<Rightarrow> (int \<times> ramfs) option" where
  "ramfs_read_superblock fs =
     do { (ret, d, fs) \<leftarrow> ramfs_data_new fs;
          if ret \<noteq> 0 then Some (ret, fs)
          else do { (ret, root_ino, fs) \<leftarrow> ramfs_make_directory fs [] (S_IFDIR OR 0x1ed);
                    if ret \<noteq> 0 then Some (ret, ramfs_data_free fs d)
                    else Some (0, fs\<lparr>sb_root_ino := root_ino\<rparr>) } }"

text \<open>The length of a name is kept in eight bits.  The structure takes 264 bytes, 255 of them for the name.\<close>

record dirent =
  d_ino :: u32
  d_reclen :: nat
  d_type :: nat
  d_namlen :: nat
  d_name :: string

definition dirent_type :: "u32 \<Rightarrow> nat" where
  "dirent_type mode =
     (let m = S_FMT mode in
      if m = S_IFREG then 8 else if m = S_IFDIR then 4 else if m = S_IFLNK then 10 else if m = S_IFCHR then 2
      else if m = S_IFBLK then 6 else if m = S_IFSOCK then 12 else if m = S_IFIFO then 1 else 0)"

definition ramfs_get_direntry :: "ramfs \<Rightarrow> u32 \<Rightarrow> u32 \<Rightarrow> int \<times> u32 \<times> dirent option" where
  "ramfs_get_direntry fs dirnode iter =
     (let dir_idata = ramfs_idata_by_inode fs dirnode in
      if dir_idata = 0 then (errno_code EKERN, iter, None)
      else if \<not> S_ISDIR (i_mode (idatas fs dir_idata)) then (errno_code ENOTDIR, iter, None)
      else case ramfs_dir_step (dirs fs (i_data (idatas fs dir_idata))) iter of
             None \<Rightarrow> (errno_code EKERN, iter, None)
           | Some (de, iter) \<Rightarrow>
               let idata = ramfs_idata_by_inode fs (de_ino de); namlen = strlen (de_name de) mod 256 in
               (0, iter, Some \<lparr>d_ino = de_ino de, d_reclen = 264 - 255 + namlen + 1,
                              d_type = (if idata = 0 then 0 else dirent_type (i_mode (idatas fs idata))), d_namlen = namlen,
                              d_name = strncpy (de_name de) 255\<rparr>))"

section \<open>Reading and writing\<close>

definition block_bytes :: "ramfs \<Rightarrow> inode \<Rightarrow> nat \<Rightarrow> nat \<Rightarrow> nat \<Rightarrow> u8 list" where
  "block_bytes fs idata blkindex offset n =
     (let blkdata = ramfs_block_by_index fs idata blkindex in
      if blkdata \<noteq> 0 then mem_read (mem fs) (blkdata + of_nat offset) n else replicate n 0)"

text \<open>\<open>nread\<close> bytes were read before; the result is what follows, as much as fits in \<open>buflen\<close> bytes.\<close>

function read_blocks :: "ramfs \<Rightarrow> inode \<Rightarrow> nat \<Rightarrow> nat \<Rightarrow> nat \<Rightarrow> nat \<Rightarrow> u8 list" where
  "read_blocks fs idata pos buflen blkindex nread =
     (if nread + 4096 \<le> buflen \<and> as_int (pos + nread + 4096) \<le> i_size idata then
        block_bytes fs idata blkindex 0 4096 @ read_blocks fs idata pos buflen (blkindex + 1) (nread + 4096)
      else if nread < buflen \<and> as_int (pos + nread) < i_size idata then
        let tocopy = buflen - nread;
            tocopy = (if as_int (pos + nread + tocopy) > i_size idata then nat (i_size idata - int (pos + nread)) else tocopy)
        in block_bytes fs idata blkindex 0 tocopy
      else [])"
  by pat_completeness auto
termination by (relation "measure (\<lambda>(_, _, _, buflen, _, nread). buflen - nread)") auto

declare read_blocks.simps [simp del]

definition ramfs_read_inode :: "ramfs \<Rightarrow> u32 \<Rightarrow> nat \<Rightarrow> nat \<Rightarrow> int \<times> u8 list" where
  "ramfs_read_inode fs ino pos buflen =
     (let p = ramfs_idata_by_inode fs ino; idata = idatas fs p in
      if p = 0 then (errno_code ENOENT, [])
      else if int pos \<ge> i_size idata then (0, [])
      else
        let blkindex = pos div 4096; offset = pos mod 4096 in
        if offset \<noteq> 0 then
          let nread = 4096 - offset;
              nread = (if nread > buflen then buflen else nread);
              nread = (if int nread > i_size idata then nat (i_size idata) else nread)
          in (0, block_bytes fs idata blkindex offset nread @ read_blocks fs idata pos buflen (blkindex + 1) nread)
        else (0, read_blocks fs idata pos buflen blkindex 0))"

definition store_block :: "ramfs \<Rightarrow> u32 \<Rightarrow> nat \<Rightarrow> nat \<Rightarrow> u8 list \<Rightarrow> ramfs option" where
  "store_block fs p blkindex offset bs =
     (let (blkdata, fs) = ramfs_block_by_index_or_new fs p blkindex in
      if blkdata = 0 then None else Some (fs\<lparr>mem := mem_write (mem fs) (blkdata + of_nat offset) bs\<rparr>))"

text \<open>\<open>rest\<close> is what is still to be written, \<open>nwrite\<close> how much was; \<open>EIO\<close> when there is no block.\<close>

function write_blocks :: "ramfs \<Rightarrow> u32 \<Rightarrow> nat \<Rightarrow> u8 list \<Rightarrow> nat \<Rightarrow> int \<times> nat \<times> ramfs" where
  "write_blocks fs p blkindex rest nwrite =
     (if 4096 \<le> length rest then
        case store_block fs p blkindex 0 (take 4096 rest) of
          None \<Rightarrow> (errno_code EIO, nwrite, fs)
        | Some fs \<Rightarrow> write_blocks fs p (blkindex + 1) (drop 4096 rest) (nwrite + 4096)
      else if rest \<noteq> [] then
        case store_block fs p blkindex 0 rest of
          None \<Rightarrow> (errno_code EIO, nwrite, fs)
        | Some fs \<Rightarrow> (0, nwrite + length rest, fs)
      else (0, nwrite, fs))"
  by pat_completeness auto
termination by (relation "measure (\<lambda>(_, _, _, rest, _). length rest)") auto

declare write_blocks.simps [simp del]

definition ramfs_write_inode :: "ramfs \<Rightarrow> u32 \<Rightarrow> nat \<Rightarrow> u8 list \<Rightarrow> int \<times> nat \<times> ramfs" where
  "ramfs_write_inode fs ino pos buf =
     (let p = ramfs_idata_by_inode fs ino in
      if p = 0 then (errno_code ENOENT, 0, fs)
      else
        let blkindex = pos div 4096; offset = pos mod 4096;
            (ret, nwrite, fs) =
              (if offset \<noteq> 0 then
                 let n = min (4096 - offset) (length buf) in
                 case store_block fs p blkindex offset (take n buf) of
                   None \<Rightarrow> (errno_code EIO, 0, fs)
                 | Some fs \<Rightarrow> write_blocks fs p (blkindex + 1) (drop n buf) n
               else write_blocks fs p blkindex buf 0);
            newend = as_int (pos + length buf)
        in (ret, nwrite, if newend > i_size (idatas fs p) then upd_idata (i_size_update (\<lambda>_. newend)) p fs else fs))"

definition ramfs_trunc_inode :: int where
  "ramfs_trunc_inode = errno_code ETODO"

end
