(* ===== verification/Devices.thy ===== *)
theory Devices
  imports Vfs_Types
begin

text \<open>
  Devices and device classes of \<^verbatim>\<open>src/fs/devices.c\<close>.  The operations of a device are fields of its record; they
  act on a state \<open>'w\<close> of all devices, which the drivers own.  A missing operation is \<open>None\<close>.  A block obtained for
  reading is a function from offsets to bytes, one obtained for writing is the function that stores bytes in it.
\<close>

section \<open>Devices\<close>

datatype devicetype_e = DEV_CHR | DEV_BLK

record 'w device =
  dev_type :: devicetype_e
  dev_clss :: u32
  dev_no :: u32
  dev_get_roblock :: "('w \<Rightarrow> int \<Rightarrow> nat \<Rightarrow> u8) option"
  dev_get_rwblock :: "('w \<Rightarrow> int \<Rightarrow> nat \<Rightarrow> u8 list \<Rightarrow> 'w) option"
  dev_forget_block :: "('w \<Rightarrow> int \<Rightarrow> 'w) option"
  dev_size_of_block :: "('w \<Rightarrow> u32) option"
  dev_size_in_blocks :: "('w \<Rightarrow> int) option"
  dev_read_buf :: "('w \<Rightarrow> nat \<Rightarrow> int \<Rightarrow> int \<times> u8 list \<times> 'w) option"
  dev_write_buf :: "('w \<Rightarrow> u8 list \<Rightarrow> int \<Rightarrow> int \<times> nat \<times> 'w) option"
  dev_has_data :: "('w \<Rightarrow> bool) option"

definition forget :: "'w device \<Rightarrow> 'w \<Rightarrow> int \<Rightarrow> 'w" where
  "forget dev w b = (case dev_forget_block dev of None \<Rightarrow> w | Some f \<Rightarrow> f w b)"

section \<open>Reading a block device\<close>

text \<open>\<open>None\<close> is the jump to the error exit with \<open>ENXIO\<close>.  After the block was fetched the code tests its number
  instead of its address; a null address is copied from like any other, so a block is given by the bytes at the address
  that was returned, whatever it is.\<close>

definition read_block ::
    "'w device \<Rightarrow> ('w \<Rightarrow> int \<Rightarrow> nat \<Rightarrow> u8) \<Rightarrow> int \<Rightarrow> 'w \<Rightarrow> int \<Rightarrow> nat \<Rightarrow> nat \<Rightarrow> (u8 list \<times> 'w) option" where
  "read_block dev get maxblock w curblock off n =
     (if curblock \<ge> maxblock then None
      else let blockdata = get w curblock in
           if curblock = 0 then None
           else Some (map blockdata [off..<off + n], forget dev w curblock))"

fun read_full ::
    "'w device \<Rightarrow> ('w \<Rightarrow> int \<Rightarrow> nat \<Rightarrow> u8) \<Rightarrow> int \<Rightarrow> nat \<Rightarrow> 'w \<Rightarrow> int \<Rightarrow> nat \<Rightarrow> bool \<times> u8 list \<times> 'w \<times> int" where
  "read_full dev get maxblock blksz w curblock 0 = (True, [], w, curblock)"
| "read_full dev get maxblock blksz w curblock (Suc n) =
     (case read_block dev get maxblock w curblock 0 blksz of
        None \<Rightarrow> (False, [], w, curblock)
      | Some (bs, w) \<Rightarrow>
          let (ok, rest, w, curblock) = read_full dev get maxblock blksz w (curblock + 1) n in (ok, bs @ rest, w, curblock))"

text \<open>The bytes are those stored at the buffer, as many as the code counts.\<close>

definition bdev_blocking_read :: "'w device \<Rightarrow> 'w \<Rightarrow> int \<Rightarrow> u32 \<Rightarrow> int \<times> u8 list \<times> 'w" where
  "bdev_blocking_read dev w pos buflen =
     (case (dev_size_of_block dev, dev_size_in_blocks dev, dev_get_roblock dev) of
        (Some size_of_block, Some size_in_blocks, Some get) \<Rightarrow>
          let blksz = size_of_block w;
              maxblock = size_in_blocks w;
              startoffset = of_int pos mod blksz;
              startbytes = (if startoffset \<noteq> 0 then blksz - startoffset else 0);
              nfullblocks = (buflen - startbytes) div blksz;
              finalbytes = (buflen - startbytes) mod blksz;
              curblock = sint (of_int pos div blksz);
              start = (if startbytes = 0 then Some ([], w, curblock)
                       else map_option (\<lambda>(bs, w). (bs, w, curblock + 1))
                              (read_block dev get maxblock w curblock (unat startoffset) (unat startbytes)))
          in case start of
               None \<Rightarrow> (errno_code ENXIO, [], w)
             | Some (bs1, w, curblock) \<Rightarrow>
                 let (ok, bs2, w, curblock) = read_full dev get maxblock (unat blksz) w curblock (unat nfullblocks)
                 in if \<not> ok then (errno_code ENXIO, bs1 @ bs2, w)
                    else if finalbytes = 0 then (0, bs1 @ bs2, w)
                    else case read_block dev get maxblock w curblock 0 (unat finalbytes) of
                           None \<Rightarrow> (errno_code ENXIO, bs1 @ bs2, w)
                         | Some (bs3, w) \<Rightarrow> (0, bs1 @ bs2 @ bs3, w)
      | _ \<Rightarrow> (errno_code ENOSYS, [], w))"

section \<open>Writing a block device\<close>

text \<open>The buffer is a function from offsets to bytes.  The code tests \<^verbatim>\<open>dev_get_roblock\<close> and calls
  \<^verbatim>\<open>dev_get_rwblock\<close>; \<open>None\<close> as the whole result is a call through a null pointer.\<close>

definition write_block ::
    "'w device \<Rightarrow> ('w \<Rightarrow> int \<Rightarrow> nat \<Rightarrow> u8 list \<Rightarrow> 'w) \<Rightarrow> int \<Rightarrow> 'w \<Rightarrow> int \<Rightarrow> nat \<Rightarrow> u8 list \<Rightarrow> 'w option" where
  "write_block dev rw maxblock w curblock off bs =
     (if curblock \<ge> maxblock then None
      else let blockdata = rw w curblock in
           if curblock = 0 then None else Some (forget dev (blockdata off bs) curblock))"

fun write_full ::
    "'w device \<Rightarrow> ('w \<Rightarrow> int \<Rightarrow> nat \<Rightarrow> u8 list \<Rightarrow> 'w) \<Rightarrow> int \<Rightarrow> nat \<Rightarrow> (nat \<Rightarrow> u8) \<Rightarrow> 'w \<Rightarrow> int \<Rightarrow> nat \<Rightarrow> nat \<Rightarrow>
       bool \<times> nat \<times> 'w \<times> int" where
  "write_full dev rw maxblock blksz buf w curblock done 0 = (True, done, w, curblock)"
| "write_full dev rw maxblock blksz buf w curblock done (Suc n) =
     (case write_block dev rw maxblock w curblock 0 (map buf [done..<done + blksz]) of
        None \<Rightarrow> (False, done, w, curblock)
      | Some w \<Rightarrow> write_full dev rw maxblock blksz buf w (curblock + 1) (done + blksz) n)"

definition bdev_blocking_write ::
    "'w device \<Rightarrow> 'w \<Rightarrow> int \<Rightarrow> (nat \<Rightarrow> u8) \<Rightarrow> u32 \<Rightarrow> (int \<times> nat \<times> 'w) option" where
  "bdev_blocking_write dev w pos buf buflen =
     (case (dev_size_of_block dev, dev_size_in_blocks dev, dev_get_roblock dev) of
        (Some size_of_block, Some size_in_blocks, Some _) \<Rightarrow>
          let blksz = size_of_block w;
              maxblock = size_in_blocks w;
              startoffset = of_int pos mod blksz;
              startbytes = (if startoffset \<noteq> 0 then blksz - startoffset else 0);
              nfullblocks = (buflen - startbytes) div blksz;
              finalbytes = (buflen - startbytes) mod blksz;
              curblock = sint (of_int pos div blksz)
          in if startbytes = 0 \<and> nfullblocks = 0 \<and> finalbytes = 0 then Some (0, 0, w)
             else case dev_get_rwblock dev of
               None \<Rightarrow> if curblock \<ge> maxblock then Some (errno_code ENXIO, 0, w) else None
             | Some rw \<Rightarrow>
                 (case (if startbytes = 0 then Some (0, w, curblock)
                        else map_option (\<lambda>w. (unat startbytes, w, curblock + 1))
                               (write_block dev rw maxblock w curblock (unat startoffset) (map buf [0..<unat startbytes]))) of
                    None \<Rightarrow> Some (errno_code ENXIO, 0, w)
                  | Some (done, w, curblock) \<Rightarrow>
                      let (ok, done, w, curblock) =
                            write_full dev rw maxblock (unat blksz) buf w curblock done (unat nfullblocks)
                      in if \<not> ok then Some (errno_code ENXIO, done, w)
                         else if finalbytes = 0 then Some (0, done, w)
                         else case write_block dev rw maxblock w curblock 0 (map buf [done..<done + unat finalbytes]) of
                                None \<Rightarrow> Some (errno_code ENXIO, done, w)
                              | Some w \<Rightarrow> Some (0, done + unat finalbytes, w))
      | _ \<Rightarrow> Some (errno_code ENOSYS, 0, w))"

section \<open>Device classes\<close>

text \<open>The classes of this file read one global, the table of memory devices, which \<open>get_device\<close> is given.\<close>

record 'w devclass =
  dc_type :: devicetype_e
  dc_maj :: u32
  get_device :: "('w device option list \<Rightarrow> u32 \<Rightarrow> 'w device option) option"
  init_devclass :: "('w device option list \<Rightarrow> 'w device option list) option"

record 'w devtable =
  theChrDeviceTable :: "'w devclass option list"
  theBlkDeviceTable :: "'w devclass option list"
  ramchrdevs :: "'w device option list"

definition chr0devclass_get_device :: "'w device option list \<Rightarrow> u32 \<Rightarrow> 'w device option" where
  "chr0devclass_get_device ram mindev = None"

definition chr0_device_family :: "'w devclass" where
  "chr0_device_family = \<lparr>dc_type = DEV_CHR, dc_maj = 0, get_device = Some chr0devclass_get_device, init_devclass = None\<rparr>"

definition get_ram_char_device :: "'w device option list \<Rightarrow> u32 \<Rightarrow> 'w device option" where
  "get_ram_char_device ram num = (if num \<ge> 12 then None else ram ! unat num)"

definition init_ram_char_devices :: "'w device \<Rightarrow> 'w device option list \<Rightarrow> 'w device option list" where
  "init_ram_char_devices kmsg ram = ram[11 := Some kmsg]"

definition chr1_device_family :: "'w device \<Rightarrow> 'w devclass" where
  "chr1_device_family kmsg =
     \<lparr>dc_type = DEV_CHR, dc_maj = 1, get_device = Some get_ram_char_device,
      init_devclass = Some (init_ram_char_devices kmsg)\<rparr>"

definition get_ram_block_device :: "'w device option list \<Rightarrow> u32 \<Rightarrow> 'w device option" where
  "get_ram_block_device ram mindev = None"

definition blk1_device_family :: "'w devclass" where
  "blk1_device_family = \<lparr>dc_type = DEV_BLK, dc_maj = 1, get_device = Some get_ram_block_device, init_devclass = None\<rparr>"

definition devclass_register :: "'w devclass \<Rightarrow> 'w devtable \<Rightarrow> 'w devtable" where
  "devclass_register dclss t =
     (let maj = unat (dc_maj dclss);
          t = (case dc_type dclss of
                 DEV_CHR \<Rightarrow> t\<lparr>theChrDeviceTable := (theChrDeviceTable t)[maj := Some dclss]\<rparr>
               | DEV_BLK \<Rightarrow> t\<lparr>theBlkDeviceTable := (theBlkDeviceTable t)[maj := Some dclss]\<rparr>)
      in case init_devclass dclss of None \<Rightarrow> t | Some f \<Rightarrow> t\<lparr>ramchrdevs := f (ramchrdevs t)\<rparr>)"

definition device_by_devno :: "'w devtable \<Rightarrow> devicetype_e \<Rightarrow> u64 \<Rightarrow> 'w device option" where
  "device_by_devno t ty devno =
     (let maj = gnu_dev_major devno; mnr = gnu_dev_minor devno;
          table = (case ty of DEV_CHR \<Rightarrow> theChrDeviceTable t | DEV_BLK \<Rightarrow> theBlkDeviceTable t);
          limit = (case ty of DEV_CHR \<Rightarrow> 30 | DEV_BLK \<Rightarrow> 12)
      in if maj \<ge> limit then None
         else case table ! unat maj of
                None \<Rightarrow> None
              | Some dclss \<Rightarrow> (case get_device dclss of None \<Rightarrow> None | Some g \<Rightarrow> g (ramchrdevs t) mnr))"

definition no_devices :: "'w devtable" where
  "no_devices = \<lparr>theChrDeviceTable = replicate 30 None, theBlkDeviceTable = replicate 12 None, ramchrdevs = replicate 12 None\<rparr>"

text \<open>The class of virtual consoles is that of \<^verbatim>\<open>screen.c\<close>, the class of terminals that of \<^verbatim>\<open>tty.c\<close>.\<close>

definition dev_setup :: "'w device \<Rightarrow> 'w devclass \<Rightarrow> 'w devclass \<Rightarrow> 'w devtable \<Rightarrow> 'w devtable" where
  "dev_setup kmsg vcs tty t =
     devclass_register tty (devclass_register vcs (devclass_register (chr1_device_family kmsg)
       (devclass_register chr0_device_family t)))"

section \<open>Reading is transparent\<close>

text \<open>Byte \<open>i\<close> of a device with blocks of \<open>bs\<close> bytes.\<close>

definition dev_byte :: "('w \<Rightarrow> int \<Rightarrow> nat \<Rightarrow> u8) \<Rightarrow> 'w \<Rightarrow> nat \<Rightarrow> nat \<Rightarrow> u8" where
  "dev_byte get w bs i = get w (int (i div bs)) (i mod bs)"

lemma block_bytes_dev:
  assumes "off + n \<le> bs"
  shows "map (get w (int c)) [off..<off + n] = map (dev_byte get w bs) [c * bs + off..<c * bs + off + n]"
proof (rule nth_equalityI)
  fix i assume "i < length (map (get w (int c)) [off..<off + n])"
  then have "off + i < bs" "i < n" using assms by auto
  then show "map (get w (int c)) [off..<off + n] ! i = map (dev_byte get w bs) [c * bs + off..<c * bs + off + n] ! i"
    by (simp add: dev_byte_def add.assoc)
qed simp

lemma map_upt_append: "a \<le> b \<Longrightarrow> b \<le> c \<Longrightarrow> map f [a..<b] @ map f [b..<c] = map f [a..<c]"
  using upt_add_eq_append [of a b "c - b"] by (simp flip: map_append)

lemma read_block_dev:
  assumes "\<And>w b. get (forget dev w b) = get w" "0 < c" "int c < maxblock" "off + n \<le> bs"
  shows "\<exists>w'. read_block dev get maxblock w (int c) off n =
    Some (map (dev_byte get w bs) [c * bs + off..<c * bs + off + n], w') \<and> get w' = get w"
  using assms block_bytes_dev [of off n bs get w c] by (simp add: read_block_def)

lemma read_full_dev:
  assumes "\<And>w b. get (forget dev w b) = get w"
  shows "0 < c \<Longrightarrow> int (c + n) \<le> maxblock \<Longrightarrow>
    \<exists>w'. read_full dev get maxblock bs w (int c) n =
      (True, map (dev_byte get w bs) [c * bs..<(c + n) * bs], w', int (c + n)) \<and> get w' = get w"
proof (induction n arbitrary: c w)
  case (Suc n)
  obtain w1 where w1: "read_block dev get maxblock w (int c) 0 bs =
      Some (map (dev_byte get w bs) [c * bs + 0..<c * bs + 0 + bs], w1)" "get w1 = get w"
    using read_block_dev [OF assms, of c maxblock 0 bs bs w] Suc.prems by auto
  obtain w2 where w2: "read_full dev get maxblock bs w1 (int (Suc c)) n =
      (True, map (dev_byte get w1 bs) [Suc c * bs..<(Suc c + n) * bs], w2, int (Suc c + n))" "get w2 = get w1"
    using Suc.IH [of "Suc c" w1] Suc.prems by auto
  have "dev_byte get w1 bs = dev_byte get w bs" using w1(2) by (simp add: dev_byte_def fun_eq_iff)
  then show ?case
    using w1 w2 map_upt_append [of "c * bs" "Suc c * bs" "(Suc c + n) * bs" "dev_byte get w bs"]
    by (simp add: add.commute)
qed simp

section \<open>Properties\<close>

text \<open>C33. Reading a block device is transparent: a read that begins after block 0, reaches the end of the block it begins
  in and stays on the device returns exactly the bytes of the device in that range, whatever the block boundaries,
  if dropping a cached block does not change the contents of the device.\<close>

theorem bdev_read_correct:
  assumes ops: "dev_size_of_block dev = Some sb" "dev_size_in_blocks dev = Some nb" "dev_get_roblock dev = Some get"
    and keep: "\<And>w b. get (forget dev w b) = get w"
    and bs: "bs = unat (sb w)" "0 < bs" and pos: "bs \<le> pos" "pos mod bs = 0 \<or> bs \<le> pos mod bs + unat buflen"
    and fits: "int (pos + unat buflen) \<le> int bs * nb w" "pos + unat buflen < 2 ^ 31"
  shows "\<exists>w'. bdev_blocking_read dev w (int pos) buflen =
    (0, map (dev_byte get w bs) [pos..<pos + unat buflen], w') \<and> get w' = get w"
proof -
  define p where "p = (of_int (int pos) :: u32)"
  have p: "unat p = pos" using fits(2) by (simp add: p_def unat_of_nat_u32)
  define c off where "c = pos div bs" and "off = pos mod bs"
  have po: "pos = c * bs + off" "off < bs" "0 < c" using bs pos(1) by (simp_all add: c_def off_def div_greater_zero_iff)
  define so where "so = p mod sb w"
  have so: "unat so = off" by (simp add: so_def unat_mod p bs off_def)
  have "c < 2 ^ 31" using fits(2) div_le_dividend [of pos bs] unfolding c_def by linarith
  then have cur: "sint (p div sb w) = int c" using p bs(1) by (simp add: sint_u32 unat_div c_def)
  define st where "st = (if so \<noteq> 0 then sb w - so else 0)"
  have st: "unat st = (if off = 0 then 0 else bs - off)"
  proof (cases "off = 0")
    case False
    then have z: "so \<noteq> 0" using so by auto
    have "so \<le> sb w" using so po(2) bs(1) by (simp add: word_le_nat_alt)
    then show ?thesis using False z so bs(1) unat_sub [of so "sb w"] by (simp add: st_def)
  qed (use so in \<open>simp add: st_def unat_eq_zero\<close>)
  have "st = 0 \<longleftrightarrow> unat st = 0" by (simp add: unat_eq_zero)
  then have stz: "st = 0 \<longleftrightarrow> off = 0" using st po(2) by simp
  define rest where "rest = unat (buflen - st)"
  have rest: "rest = unat buflen - unat st" "unat st \<le> unat buflen"
  proof -
    show le: "unat st \<le> unat buflen" using pos(2) st po(2) unfolding off_def [symmetric] by (simp split: if_splits)
    then show "rest = unat buflen - unat st" using unat_sub [of st buflen] by (simp add: rest_def word_le_nat_alt)
  qed
  define n r where "n = unat ((buflen - st) div sb w)" and "r = unat ((buflen - st) mod sb w)"
  have nr: "rest = n * bs + r" "r < bs" using bs by (simp_all add: n_def r_def unat_div unat_mod rest_def)
  have rz: "(buflen - st) mod sb w = 0 \<longleftrightarrow> r = 0" by (simp add: r_def unat_eq_zero)
  define c1 where "c1 = (if off = 0 then c else c + 1)"
  have c1: "c1 * bs = pos + unat st" "0 < c1" using po st by (simp_all add: c1_def)
  have "pos + unat buflen = (c1 + n) * bs + r" using c1 nr rest by (simp add: algebra_simps)
  then have top: "int ((c1 + n) * bs + r) \<le> nb w * int bs" using fits(1) by (simp add: mult.commute)
  have n: "int (c1 + n) \<le> nb w"
  proof (rule mult_right_le_imp_le)
    show "int (c1 + n) * int bs \<le> nb w * int bs" using top by simp
  qed (use bs(2) in simp)
  have r: "int (c1 + n) < nb w" if "r \<noteq> 0"
  proof (rule mult_right_less_imp_less)
    show "int (c1 + n) * int bs < nb w * int bs" using top that by simp
  qed simp
  obtain w1 where w1: "(if st = 0 then Some ([], w, int c)
        else map_option (\<lambda>(bs, w). (bs, w, int c + 1)) (read_block dev get (nb w) w (int c) (unat so) (unat st))) =
      Some (map (dev_byte get w bs) [pos..<pos + unat st], w1, int c1)" "get w1 = get w"
  proof (cases "off = 0")
    case True
    then show ?thesis using that [of w] stz st by (simp add: c1_def)
  next
    case False
    then have "int c < nb w" "off + (bs - off) \<le> bs" using n po(2) by (simp_all add: c1_def)
    from read_block_dev [OF keep po(3) this, of w] show ?thesis
      using False that stz st so po(1) by (auto simp: c1_def)
  qed
  obtain w2 where w2: "read_full dev get (nb w) bs w1 (int c1) n =
      (True, map (dev_byte get w1 bs) [c1 * bs..<(c1 + n) * bs], w2, int (c1 + n))" "get w2 = get w1"
    using read_full_dev [OF keep c1(2) n] by blast
  have b1: "dev_byte get w1 bs = dev_byte get w bs" and b2: "dev_byte get w2 bs = dev_byte get w bs"
    using w1(2) w2(2) by (simp_all add: dev_byte_def fun_eq_iff)
  have e: "bdev_blocking_read dev w (int pos) buflen =
      (case map (dev_byte get w bs) [pos..<pos + unat st] @ map (dev_byte get w bs) [c1 * bs..<(c1 + n) * bs] of bs12 \<Rightarrow>
        if r = 0 then (0, bs12, w2)
        else case read_block dev get (nb w) w2 (int (c1 + n)) 0 r of
               None \<Rightarrow> (errno_code ENXIO, bs12, w2) | Some (bs3, w) \<Rightarrow> (0, bs12 @ bs3, w))"
    unfolding bdev_blocking_read_def ops Let_def prod.case option.case p_def [symmetric] so_def [symmetric] st_def [symmetric]
      cur n_def [symmetric] r_def [symmetric] bs(1) [symmetric] w1(1) w2(1) b1 rz
    by (simp split: option.split)
  have len: "pos + unat buflen = (c1 + n) * bs + r" using c1 nr rest by (simp add: algebra_simps)
  have le: "pos \<le> c1 * bs" "c1 * bs \<le> (c1 + n) * bs" using c1(1) by linarith (rule mult_le_mono1, simp)
  have b12: "map (dev_byte get w bs) [pos..<pos + unat st] @ map (dev_byte get w bs) [c1 * bs..<(c1 + n) * bs] =
      map (dev_byte get w bs) [pos..<(c1 + n) * bs]"
    unfolding c1(1) [symmetric] by (rule map_upt_append [OF le])
  show ?thesis
  proof (cases "r = 0")
    case True
    then show ?thesis using e b12 len w1(2) w2(2) by simp
  next
    case False
    then obtain w3 where w3: "read_block dev get (nb w) w2 (int (c1 + n)) 0 r =
        Some (map (dev_byte get w2 bs) [(c1 + n) * bs + 0..<(c1 + n) * bs + 0 + r], w3)" "get w3 = get w2"
      using read_block_dev [OF keep _ r, of 0 r bs w2] c1(2) nr(2) by auto
    have "map (dev_byte get w bs) [pos..<(c1 + n) * bs] @ map (dev_byte get w bs) [(c1 + n) * bs..<(c1 + n) * bs + r] =
        map (dev_byte get w bs) [pos..<pos + unat buflen]"
      unfolding len by (rule map_upt_append) (use le in linarith, simp)
    then show ?thesis using False e b12 w3 w1(2) w2(2) b2 by simp
  qed
qed

text \<open>A device of eight blocks of four bytes; byte \<open>i\<close> of the device is \<open>i\<close>.\<close>

definition ex_get :: "unit \<Rightarrow> int \<Rightarrow> nat \<Rightarrow> u8" where
  "ex_get w b i = of_nat (4 * nat b + i)"

definition ex_disk :: "unit device" where
  "ex_disk = \<lparr>dev_type = DEV_BLK, dev_clss = 1, dev_no = 0, dev_get_roblock = Some ex_get,
     dev_get_rwblock = None, dev_forget_block = None, dev_size_of_block = Some (\<lambda>_. 4),
     dev_size_in_blocks = Some (\<lambda>_. 8), dev_read_buf = None, dev_write_buf = None, dev_has_data = None\<rparr>"

theorem bdev_read_correct_witness:
  "fst (bdev_blocking_read ex_disk () 6 9) = 0 \<and> fst (snd (bdev_blocking_read ex_disk () 6 9)) = [6, 7, 8, 9, 10, 11, 12, 13, 14]"
proof -
  have "\<exists>w'. bdev_blocking_read ex_disk () (int 6) 9 = (0, map (dev_byte ex_get () 4) [6..<6 + unat (9 :: u32)], w') \<and> ex_get w' = ex_get ()"
    by (rule bdev_read_correct [of ex_disk "\<lambda>_. 4" "\<lambda>_. 8"]) (simp_all add: ex_disk_def)
  moreover have "map (dev_byte ex_get () 4) [6..<6 + unat (9 :: u32)] = [6, 7, 8, 9, 10, 11, 12, 13, 14]"
    by (simp add: dev_byte_def ex_get_def upt_conv_Cons)
  ultimately show ?thesis by auto
qed

end
