(* ===== verification/Vfs.thy ===== *)
theory Vfs
  imports Ramfs Devices
begin

text \<open>
  The virtual file system of \<^verbatim>\<open>src/fs/vfs.c\<close>: registered file systems, mount points, and the operations on paths
  and inodes that dispatch to a file system's operations or to a device.  The circular list of file systems is a
  list from its head on.  \<^verbatim>\<open>vfs_mount\<close> can only mount the root, so there is one file system state.  Operations that
  allocate give \<open>None\<close> when a heap search does not return.
\<close>

section \<open>File systems and mount points\<close>

text \<open>An operation a file system does not have is \<open>None\<close>.  \<open>unlink_inode\<close> is also given the characters in front of
  its path, nearest first, which \<^verbatim>\<open>vfs_path_dirname_len\<close> may read.\<close>

record fs_ops =
  read_superblock :: "(ramfs \<Rightarrow> (int \<times> ramfs) option) option"
  make_directory :: "(ramfs \<Rightarrow> string \<Rightarrow> u32 \<Rightarrow> (int \<times> u32 \<times> ramfs) option) option"
  make_inode :: "(ramfs \<Rightarrow> u32 \<Rightarrow> u32 \<Rightarrow> (int \<times> u32 \<times> ramfs) option) option"
  free_inode :: "(ramfs \<Rightarrow> u32 \<Rightarrow> int \<times> ramfs) option"
  inode_get :: "(ramfs \<Rightarrow> u32 \<Rightarrow> int \<times> inode option) option"
  inode_set :: "(ramfs \<Rightarrow> u32 \<Rightarrow> inode \<Rightarrow> int \<times> ramfs) option"
  read_inode :: "(ramfs \<Rightarrow> u32 \<Rightarrow> nat \<Rightarrow> nat \<Rightarrow> int \<times> u8 list) option"
  write_inode :: "(ramfs \<Rightarrow> u32 \<Rightarrow> nat \<Rightarrow> u8 list \<Rightarrow> int \<times> nat \<times> ramfs) option"
  trunc_inode :: "int option"
  get_direntry :: "(ramfs \<Rightarrow> u32 \<Rightarrow> u32 \<Rightarrow> int \<times> u32 \<times> dirent option) option"
  lookup_inode :: "(ramfs \<Rightarrow> string \<Rightarrow> nat \<Rightarrow> int \<times> u32) option"
  link_inode :: "(ramfs \<Rightarrow> u32 \<Rightarrow> u32 \<Rightarrow> string \<Rightarrow> nat \<Rightarrow> (int \<times> ramfs) option) option"
  unlink_inode :: "(ramfs \<Rightarrow> string \<Rightarrow> string \<Rightarrow> nat \<Rightarrow> int \<times> ramfs) option"

record fsdriver =
  fs_name :: string
  fs_id :: u32
  fs_oper :: fs_ops

definition ramfs_fsops :: fs_ops where
  "ramfs_fsops =
     \<lparr>read_superblock = Some ramfs_read_superblock, make_directory = Some ramfs_make_directory,
      make_inode = Some ramfs_make_node, free_inode = None, inode_get = Some ramfs_inode_get,
      inode_set = Some ramfs_inode_set, read_inode = Some ramfs_read_inode, write_inode = Some ramfs_write_inode,
      trunc_inode = Some ramfs_trunc_inode, get_direntry = Some ramfs_get_direntry,
      lookup_inode = Some ramfs_lookup_inode, link_inode = Some ramfs_link_inode, unlink_inode = Some ramfs_unlink_inode\<rparr>"

definition RAMFS_ID :: u32 where "RAMFS_ID = 0x004d4152"

definition ramfs_driver :: fsdriver where
  "ramfs_driver = \<lparr>fs_name = ''ramfs'', fs_id = RAMFS_ID, fs_oper = ramfs_fsops\<rparr>"

datatype mountnode = Mount (sb_addr: u32) (sb_dev: u64) (sb_fs: fsdriver) (sb_mntpath: string) (sb_children: "mountnode list")

text \<open>\<open>stack_idata\<close> is what a local inode holds before it is filled.\<close>

record 'w vfs =
  theFileSystems :: "fsdriver list"
  theRootMnt :: "mountnode option"
  fsys :: ramfs
  devtab :: "'w devtable"
  devstate :: 'w
  stack_idata :: inode

abbreviation sb_ops :: "mountnode \<Rightarrow> fs_ops" where "sb_ops sb \<equiv> fs_oper (sb_fs sb)"

definition vfs_register_filesystem :: "fsdriver \<Rightarrow> 'w vfs \<Rightarrow> 'w vfs" where
  "vfs_register_filesystem drv v = v\<lparr>theFileSystems := theFileSystems v @ [drv]\<rparr>"

definition vfs_filesystem_by_id :: "'w vfs \<Rightarrow> u32 \<Rightarrow> fsdriver option" where
  "vfs_filesystem_by_id v i = find (\<lambda>drv. fs_id drv = i) (theFileSystems v)"

section \<open>Paths\<close>

fun match_children :: "mountnode \<Rightarrow> mountnode list \<Rightarrow> string \<Rightarrow> mountnode \<times> string option" where
  "match_children parent [] path = (parent, None)"
| "match_children parent (child # brothers) path =
     (let n = strlen (sb_mntpath child) in
      if strncmp path (sb_mntpath child) n = 0 then
        let nextpath = drop n path in
        if chr0 nextpath = NUL then (parent, None)
        else (child, Some (dropWhile (\<lambda>c. c = FS_SEP) nextpath))
      else match_children parent brothers path)"

definition vfs_match_mountpath :: "mountnode \<Rightarrow> string \<Rightarrow> mountnode \<times> string option" where
  "vfs_match_mountpath parent path = match_children parent (sb_children parent) path"

lemma match_children_child: "match_children parent cs path = (m, Some nextpath) \<Longrightarrow> m \<in> set cs"
  by (induction cs) (auto simp: Let_def split: if_splits)

lemma child_smaller: "m \<in> set (sb_children mnt) \<Longrightarrow> size m < size mnt"
  using size_list_estimation' [of m "sb_children mnt" "size m" size] by (cases mnt) auto

function mount_walk :: "mountnode \<Rightarrow> string \<Rightarrow> mountnode \<times> string" where
  "mount_walk mnt path =
     (case vfs_match_mountpath mnt path of
        (chld, Some nextpath) \<Rightarrow> mount_walk chld nextpath
      | (_, None) \<Rightarrow> (mnt, path))"
  by pat_completeness auto
termination
  by (relation "measure (size \<circ> fst)")
    (auto simp: vfs_match_mountpath_def dest!: match_children_child [OF sym] intro: child_smaller)

declare mount_walk.simps [simp del]

definition vfs_mountnode_by_path :: "'w vfs \<Rightarrow> string \<Rightarrow> int \<times> (mountnode \<times> string) option" where
  "vfs_mountnode_by_path v path =
     (case theRootMnt v of
        None \<Rightarrow> (errno_code EBADF, None)
      | Some mnt \<Rightarrow>
          if chr0 path = NUL then (errno_code EINVAL, None)
          else if chr0 path \<noteq> FS_SEP then (errno_code EINVAL, None)
          else (0, Some (mount_walk mnt (tl path))))"

text \<open>The characters of \<open>path\<close> in front of its end \<open>rel\<close>, nearest first; the byte before a path is taken to be no
  separator.  \<open>at_offset\<close> is the string at an offset from \<open>rel\<close>, which may be negative.\<close>

definition before :: "string \<Rightarrow> string \<Rightarrow> string" where
  "before path rel = rev (take (length path - length rel) path)"

definition at_offset :: "string \<Rightarrow> string \<Rightarrow> int \<Rightarrow> string" where
  "at_offset bef rel d = (if d \<ge> 0 then drop (nat d) rel else rev (take (nat (- d)) bef) @ rel)"

definition vfs_lookup :: "'w vfs \<Rightarrow> string \<Rightarrow> int \<times> mountnode option \<times> u32" where
  "vfs_lookup v path =
     (case vfs_mountnode_by_path v path of
        (ret, None) \<Rightarrow> (ret, None, 0)
      | (_, Some (sb, fspath)) \<Rightarrow>
          (case lookup_inode (sb_ops sb) of
             None \<Rightarrow> (errno_code ENOSYS, None, 0)
           | Some lookup \<Rightarrow> let (ret, ino) = lookup (fsys v) fspath SIZE_MAX in (ret, Some sb, ino)))"

section \<open>Mounting\<close>

definition vfs_mount :: "'w vfs \<Rightarrow> u64 \<Rightarrow> string \<Rightarrow> u32 \<Rightarrow> (int \<times> 'w vfs) option" where
  "vfs_mount v source target opts_fs_id =
     (if Option.is_none (theRootMnt v) then
        if chr0 target \<noteq> FS_SEP \<or> chr0 (tl target) \<noteq> NUL then Some (-1, v)
        else case vfs_filesystem_by_id v opts_fs_id of
               None \<Rightarrow> Some (-2, v)
             | Some drv \<Rightarrow>
                 do { (sb, h) \<leftarrow> kmalloc (kh (fsys v)) 48;
                      let v = v\<lparr>fsys := (fsys v)\<lparr>kh := h\<rparr>\<rparr>;
                      if sb = 0 then Some (-3, v)
                      else do { read_sb \<leftarrow> read_superblock (fs_oper drv);
                                (ret, f) \<leftarrow> read_sb ((fsys v)\<lparr>sb_parent := 0\<rparr>);
                                let v = v\<lparr>fsys := f\<rparr>;
                                if ret \<noteq> 0 then Some (-4, v)
                                else Some (0, v\<lparr>theRootMnt := Some (Mount sb source drv [] [])\<rparr>) } }
      else Some (errno_code ETODO, v))"

definition vfs_mkdir :: "'w vfs \<Rightarrow> string \<Rightarrow> u32 \<Rightarrow> (int \<times> 'w vfs) option" where
  "vfs_mkdir v path mode =
     (let mode = (mode AND NOT 0xf000) OR S_IFDIR in
      case vfs_mountnode_by_path v path of
        (_, None) \<Rightarrow> Some (errno_code ENOENT, v)
      | (_, Some (sb, localpath)) \<Rightarrow>
          (case make_directory (sb_ops sb) of
             None \<Rightarrow> Some (errno_code EBADF, v)
           | Some mkdir \<Rightarrow> do { (ret, _, f) \<leftarrow> mkdir (fsys v) localpath mode; Some (ret, v\<lparr>fsys := f\<rparr>) }))"

section \<open>Inodes\<close>

definition vfs_inode_get :: "'w vfs \<Rightarrow> mountnode \<Rightarrow> u32 \<Rightarrow> int \<times> inode option" where
  "vfs_inode_get v sb ino =
     (case inode_get (sb_ops sb) of
        None \<Rightarrow> (errno_code ENOSYS, None)
      | Some get \<Rightarrow> get (fsys v) ino)"

text \<open>The new contents are only compared with the old ones; the old ones are written back.\<close>

definition vfs_inode_set :: "'w vfs \<Rightarrow> mountnode \<Rightarrow> u32 \<Rightarrow> inode \<Rightarrow> int \<times> 'w vfs" where
  "vfs_inode_set v sb ino inobuf =
     (case (inode_get (sb_ops sb), inode_set (sb_ops sb)) of
        (Some get, Some put) \<Rightarrow>
          (case get (fsys v) ino of
             (ret, None) \<Rightarrow> (ret, v)
           | (_, Some idata) \<Rightarrow>
               if S_FMT (i_mode idata) \<noteq> S_FMT (i_mode inobuf) then (errno_code EINVAL, v)
               else if i_no idata \<noteq> i_no inobuf then (errno_code EINVAL, v)
               else if i_data idata \<noteq> i_data inobuf then (errno_code EINVAL, v)
               else let (ret, f) = put (fsys v) ino idata in (ret, v\<lparr>fsys := f\<rparr>))
      | _ \<Rightarrow> (errno_code ENOSYS, v))"

definition mknod_in :: "'w vfs \<Rightarrow> mountnode \<Rightarrow> u32 \<Rightarrow> u32 \<Rightarrow> u64 \<Rightarrow> string \<Rightarrow> (int \<times> 'w vfs) option" where
  "mknod_in v sb dirino mode dev name =
     (case (make_inode (sb_ops sb), link_inode (sb_ops sb)) of
        (Some mk, Some link) \<Rightarrow>
          do { (ret, ino, f) \<leftarrow> mk (fsys v) mode (if S_ISCHR mode \<or> S_ISBLK mode then ucast dev else 0);
               let v = v\<lparr>fsys := f\<rparr>;
               if ret \<noteq> 0 then Some (ret, v)
               else do { (ret, f) \<leftarrow> link (fsys v) ino dirino (dropWhile (\<lambda>c. c = FS_SEP) name) SIZE_MAX;
                         let v = v\<lparr>fsys := f\<rparr>;
                         Some (ret, if ret = 0 then v
                                    else case free_inode (sb_ops sb) of
                                           None \<Rightarrow> v
                                         | Some free \<Rightarrow> v\<lparr>fsys := snd (free (fsys v) ino)\<rparr>) } }
      | _ \<Rightarrow> Some (errno_code ENOSYS, v))"

text \<open>The length of the directory part becomes a \<^verbatim>\<open>size_t\<close> in the lookup.\<close>

definition vfs_mknod :: "'w vfs \<Rightarrow> string \<Rightarrow> u32 \<Rightarrow> u64 \<Rightarrow> (int \<times> 'w vfs) option" where
  "vfs_mknod v path mode dev =
     (if S_ISDIR mode then Some (errno_code EINVAL, v)
      else if S_ISLNK mode then Some (errno_code EINVAL, v)
      else
        let mode = (if S_FMT mode = 0 then mode OR S_IFREG else mode) in
        case vfs_mountnode_by_path v path of
          (ret, None) \<Rightarrow> Some (ret, v)
        | (_, Some (sb, fspath)) \<Rightarrow>
            if Option.is_none (make_inode (sb_ops sb)) then Some (errno_code ENOSYS, v)
            else if Option.is_none (link_inode (sb_ops sb)) then Some (errno_code ENOSYS, v)
            else case lookup_inode (sb_ops sb) of
                   None \<Rightarrow> Some (errno_code ENOSYS, v)
                 | Some lookup \<Rightarrow>
                     let dirnamelen = vfs_path_dirname_len (before path fspath) fspath SIZE_MAX;
                         (ret, dirino) = lookup (fsys v) fspath (nat (dirnamelen mod 2 ^ 32));
                         idata = (case vfs_inode_get v sb dirino of (_, Some i) \<Rightarrow> i | (_, None) \<Rightarrow> stack_idata v)
                     in if ret \<noteq> 0 then Some (ret, v)
                        else if \<not> S_ISDIR (i_mode idata) then Some (errno_code ENOTDIR, v)
                        else mknod_in v sb dirino mode dev (at_offset (before path fspath) fspath dirnamelen))"

section \<open>Reading and writing\<close>

text \<open>Positions in regular files are not negative: \<^verbatim>\<open>sys_open\<close> and \<^verbatim>\<open>sys_lseek\<close> see to that.\<close>

definition vfs_inode_read :: "'w vfs \<Rightarrow> mountnode \<Rightarrow> u32 \<Rightarrow> int \<Rightarrow> nat \<Rightarrow> int \<times> u8 list \<times> 'w vfs" where
  "vfs_inode_read v sb ino pos buflen =
     (case (inode_get (sb_ops sb), read_inode (sb_ops sb)) of
        (Some get, Some rd) \<Rightarrow>
          (case get (fsys v) ino of
             (ret, None) \<Rightarrow> (ret, [], v)
           | (_, Some idata) \<Rightarrow>
               let fmt = S_FMT (i_mode idata) in
               if fmt = S_IFCHR then
                 (case device_by_devno (devtab v) DEV_CHR (inode_devno idata) of
                    None \<Rightarrow> (errno_code ENODEV, [], v)
                  | Some dev \<Rightarrow>
                      (case dev_read_buf dev of
                         None \<Rightarrow> (errno_code ENOSYS, [], v)
                       | Some f \<Rightarrow> let (ret, bs, w) = f (devstate v) buflen pos in (ret, bs, v\<lparr>devstate := w\<rparr>)))
               else if fmt = S_IFBLK then
                 (case device_by_devno (devtab v) DEV_BLK (inode_devno idata) of
                    None \<Rightarrow> (errno_code ENODEV, [], v)
                  | Some dev \<Rightarrow>
                      let (ret, bs, w) = bdev_blocking_read dev (devstate v) pos (of_nat buflen)
                      in (ret, bs, v\<lparr>devstate := w\<rparr>))
               else if fmt = S_IFSOCK \<or> fmt = S_IFIFO \<or> fmt = S_IFLNK then (errno_code ETODO, [], v)
               else if fmt = S_IFDIR then (errno_code EISDIR, [], v)
               else if fmt = S_IFREG then
                 if pos \<ge> i_size idata then (0, [], v)
                 else let (ret, bs) = rd (fsys v) ino (nat pos) buflen in (ret, bs, v)
               else (errno_code EKERN, [], v))
      | _ \<Rightarrow> (errno_code ENOSYS, [], v))"

definition vfs_inode_write :: "'w vfs \<Rightarrow> mountnode \<Rightarrow> u32 \<Rightarrow> int \<Rightarrow> u8 list \<Rightarrow> int \<times> nat \<times> 'w vfs" where
  "vfs_inode_write v sb ino pos buf =
     (case (inode_get (sb_ops sb), write_inode (sb_ops sb)) of
        (Some get, Some wr) \<Rightarrow>
          (case get (fsys v) ino of
             (ret, None) \<Rightarrow> (ret, 0, v)
           | (_, Some idata) \<Rightarrow>
               let fmt = S_FMT (i_mode idata) in
               if fmt = S_IFREG then let (ret, n, f) = wr (fsys v) ino (nat pos) buf in (ret, n, v\<lparr>fsys := f\<rparr>)
               else if fmt = S_IFDIR then (errno_code EISDIR, 0, v)
               else if fmt = S_IFBLK then (errno_code ETODO, 0, v)
               else if fmt = S_IFCHR then
                 (case device_by_devno (devtab v) DEV_CHR (inode_devno idata) of
                    None \<Rightarrow> (errno_code ENODEV, 0, v)
                  | Some dev \<Rightarrow>
                      (case dev_write_buf dev of
                         None \<Rightarrow> (errno_code ENOSYS, 0, v)
                       | Some f \<Rightarrow> let (ret, n, w) = f (devstate v) buf pos in (ret, n, v\<lparr>devstate := w\<rparr>)))
               else if fmt = S_IFLNK \<or> fmt = S_IFSOCK \<or> fmt = S_IFIFO then (errno_code ETODO, 0, v)
               else (errno_code EKERN, 0, v))
      | _ \<Rightarrow> (errno_code ENOSYS, 0, v))"

definition vfs_inode_trunc :: "mountnode \<Rightarrow> int" where
  "vfs_inode_trunc sb = (case trunc_inode (sb_ops sb) of None \<Rightarrow> errno_code ENOSYS | Some r \<Rightarrow> r)"

record stat =
  st_dev :: u64
  st_ino :: u32
  st_mode :: u32
  st_nlink :: u32
  st_rdev :: u64
  st_size :: int

definition vfs_inode_stat :: "'w vfs \<Rightarrow> mountnode \<Rightarrow> u32 \<Rightarrow> int \<times> stat option" where
  "vfs_inode_stat v sb ino =
     (case vfs_inode_get v sb ino of
        (ret, None) \<Rightarrow> (ret, None)
      | (_, Some idata) \<Rightarrow>
          (0, Some \<lparr>st_dev = sb_dev sb, st_ino = ino, st_mode = i_mode idata, st_nlink = i_nlinks idata,
                    st_rdev = (if S_ISCHR (i_mode idata) \<or> S_ISBLK (i_mode idata) then inode_devno idata else 0),
                    st_size = i_size idata\<rparr>))"

definition vfs_stat :: "'w vfs \<Rightarrow> string \<Rightarrow> int \<times> stat option" where
  "vfs_stat v path =
     (case vfs_lookup v path of
        (ret, None, _) \<Rightarrow> (ret, None)
      | (ret, Some sb, ino) \<Rightarrow> if ret \<noteq> 0 then (ret, None) else vfs_inode_stat v sb ino)"

section \<open>Links\<close>

definition vfs_hardlink :: "'w vfs \<Rightarrow> string \<Rightarrow> string \<Rightarrow> (int \<times> 'w vfs) option" where
  "vfs_hardlink v path newpath =
     (case (vfs_mountnode_by_path v path, vfs_mountnode_by_path v newpath) of
        ((ret, None), _) \<Rightarrow> Some (ret, v)
      | ((_, Some _), (ret, None)) \<Rightarrow> Some (ret, v)
      | ((_, Some (sb, fspath)), (_, Some (sbn, new_fspath))) \<Rightarrow>
          if sb_addr sb \<noteq> sb_addr sbn then Some (errno_code EXDEV, v)
          else (case (lookup_inode (sb_ops sb), link_inode (sb_ops sb)) of
             (Some lookup, Some link) \<Rightarrow>
               let (ret, ino) = lookup (fsys v) fspath SIZE_MAX;
                   dlen = vfs_path_dirname_len (before newpath new_fspath) new_fspath SIZE_MAX;
                   (ret', dirino) = lookup (fsys v) new_fspath (nat dlen)
               in if ret \<noteq> 0 then Some (ret, v)
                  else if dlen < 0 then Some (errno_code EINVAL, v)
                  else if ret' \<noteq> 0 then Some (ret', v)
                  else do { (ret, f) \<leftarrow> link (fsys v) ino dirino (dropWhile (\<lambda>c. c = FS_SEP) (drop (nat dlen) new_fspath)) SIZE_MAX;
                            Some (ret, v\<lparr>fsys := f\<rparr>) }
           | _ \<Rightarrow> Some (errno_code ENOSYS, v)))"

definition vfs_unlink :: "'w vfs \<Rightarrow> string \<Rightarrow> int \<times> 'w vfs" where
  "vfs_unlink v path =
     (case vfs_mountnode_by_path v path of
        (ret, None) \<Rightarrow> (ret, v)
      | (_, Some (sb, fspath)) \<Rightarrow>
          (case unlink_inode (sb_ops sb) of
             None \<Rightarrow> (errno_code ENOSYS, v)
           | Some unlink \<Rightarrow>
               let (ret, f) = unlink (fsys v) (before path fspath) fspath SIZE_MAX in (ret, v\<lparr>fsys := f\<rparr>)))"

definition vfs_rename :: "'w vfs \<Rightarrow> string \<Rightarrow> string \<Rightarrow> (int \<times> 'w vfs) option" where
  "vfs_rename v oldpath newpath =
     do { (ret, v) \<leftarrow> vfs_hardlink v oldpath newpath;
          if ret \<noteq> 0 then Some (ret, v) else Some (vfs_unlink v oldpath) }"

text \<open>The entries that \<^verbatim>\<open>print_ls\<close> prints; \<open>Inl\<close> is the error it stops at.\<close>

partial_function (option) ls_loop :: "(u32 \<Rightarrow> int \<times> u32 \<times> dirent option) \<Rightarrow> u32 \<Rightarrow> (int \<times> dirent list) option" where
  "ls_loop next iter =
     (case next iter of
        (ret, _, None) \<Rightarrow> Some (ret, [])
      | (_, iter, Some de) \<Rightarrow>
          if iter = 0 then Some (0, [de])
          else do { (ret, des) \<leftarrow> ls_loop next iter; Some (ret, de # des) })"

definition print_ls :: "'w vfs \<Rightarrow> string \<Rightarrow> (int \<times> dirent list) option" where
  "print_ls v path =
     (case vfs_lookup v path of
        (ret, None, _) \<Rightarrow> Some (ret, [])
      | (ret, Some sb, ino) \<Rightarrow>
          if ret \<noteq> 0 then Some (ret, [])
          else do { next \<leftarrow> get_direntry (sb_ops sb); ls_loop (next (fsys v) ino) 0 })"

text \<open>A file with given contents; errors are only logged.\<close>

definition build_file_from_string :: "'w vfs \<Rightarrow> string \<Rightarrow> u8 list \<Rightarrow> 'w vfs option" where
  "build_file_from_string v path s =
     do { (ret, v) \<leftarrow> vfs_mknod v path 0x1a4 0;
          if ret \<noteq> 0 then Some v
          else case vfs_lookup v path of
                 (ret, Some sb, ino) \<Rightarrow> if ret \<noteq> 0 then Some v else Some (snd (snd (vfs_inode_write v sb ino 0 s)))
               | (_, None, _) \<Rightarrow> Some v }"

end
