(* ===== verification/Process.thy ===== *)
theory Process
  imports Tasks Vfs
begin

text \<open>
  The process table and the file descriptors of \<^verbatim>\<open>src/core/process.c\<close>.  A process is at the address of its task, which
  is its first member, so the current task is the current process.
\<close>

section \<open>State\<close>

definition NPROC_MAX :: int where "NPROC_MAX = 10"
definition N_PROCESS_FDS :: int where "N_PROCESS_FDS = 20"
definition PID_INIT :: int where "PID_INIT = 1"
definition PID_COSECD :: int where "PID_COSECD = 2"

record filedescr =
  fd_sb :: "mountnode option"
  fd_ino :: u32
  fd_flags :: u32
  fd_pos :: int

record process =
  ps_userstack :: u32
  ps_heap_end :: u32
  ps_pid :: int
  ps_ppid :: int
  ps_tty :: u32
  ps_umask :: u32
  ps_cwd :: string
  ps_fds :: "filedescr list"

record 'w kern =
  kvfs :: "'w vfs"
  ksched :: sched
  procs :: "u32 \<Rightarrow> process"
  theProcessTable :: "u32 list"

section \<open>Processes\<close>

fun first_null :: "u32 list \<Rightarrow> int \<Rightarrow> int" where
  "first_null [] i = 0"
| "first_null (p # ps) i = (if p = 0 then i else first_null ps (i + 1))"

definition alloc_pid :: "'w kern \<Rightarrow> int" where
  "alloc_pid k = first_null (tl (theProcessTable k)) 1"

text \<open>\<open>None\<close> when the table is read out of its bounds.\<close>

definition proc_by_pid :: "'w kern \<Rightarrow> int \<Rightarrow> u32 option" where
  "proc_by_pid k pid =
     (if pid > NPROC_MAX then Some 0
      else if 0 \<le> pid \<and> pid < NPROC_MAX then Some (theProcessTable k ! nat pid) else None)"

definition current_proc :: "'w kern \<Rightarrow> u32" where
  "current_proc k = theCurrentTask (ksched k)"

text \<open>\<open>None\<close> when there is no current process.\<close>

definition current_pid :: "'w kern \<Rightarrow> int option" where
  "current_pid k = (if current_proc k = 0 then None else Some (ps_pid (procs k (current_proc k))))"

definition sys_getpid :: "'w kern \<Rightarrow> int option" where
  "sys_getpid k = current_pid k"

section \<open>File descriptors\<close>

fun first_free_fd :: "filedescr list \<Rightarrow> int \<Rightarrow> int" where
  "first_free_fd [] i = -1"
| "first_free_fd (fd # fds) i = (if fd_ino fd < 1 then i else first_free_fd fds (i + 1))"

definition alloc_fd_for_pid :: "'w kern \<Rightarrow> int \<Rightarrow> int option" where
  "alloc_fd_for_pid k pid =
     do { p \<leftarrow> proc_by_pid k pid;
          Some (if p = 0 then errno_code EKERN else first_free_fd (ps_fds (procs k p)) 0) }"

text \<open>A file descriptor of a process: the address of the process and the index; \<open>Some None\<close> is the null pointer.\<close>

definition get_filedescr_for_pid :: "'w kern \<Rightarrow> int \<Rightarrow> int \<Rightarrow> (u32 \<times> nat) option option" where
  "get_filedescr_for_pid k pid fd =
     do { p \<leftarrow> proc_by_pid k pid;
          Some (if p = 0 then None
                else if \<not> (0 \<le> fd \<and> fd < N_PROCESS_FDS) then None
                else Some (p, nat fd)) }"

definition get_fd :: "'w kern \<Rightarrow> u32 \<times> nat \<Rightarrow> filedescr" where
  "get_fd k f = ps_fds (procs k (fst f)) ! snd f"

definition upd_proc :: "u32 \<Rightarrow> (process \<Rightarrow> process) \<Rightarrow> 'w kern \<Rightarrow> 'w kern" where
  "upd_proc p g k = k\<lparr>procs := (procs k)(p := g (procs k p))\<rparr>"

definition upd_fd :: "u32 \<times> nat \<Rightarrow> (filedescr \<Rightarrow> filedescr) \<Rightarrow> 'w kern \<Rightarrow> 'w kern" where
  "upd_fd f g k = upd_proc (fst f) (\<lambda>p. p\<lparr>ps_fds := (ps_fds p)[snd f := g (ps_fds p ! snd f)]\<rparr>) k"

section \<open>Life cycle\<close>

text \<open>\<open>set_foreground\<close> stands for the terminals' \<^verbatim>\<open>tty_set_foreground_procgroup\<close> on the devices' state.\<close>

definition process_attach_tty ::
    "('w \<Rightarrow> u32 \<Rightarrow> int \<Rightarrow> int \<times> 'w) \<Rightarrow> u32 \<Rightarrow> string \<Rightarrow> 'w kern \<Rightarrow> int \<times> 'w kern" where
  "process_attach_tty set_foreground proc ttyfile k =
     (case vfs_lookup (kvfs k) ttyfile of
        (ret, sb, ino) \<Rightarrow>
          if ret \<noteq> 0 then (ret, k)
          else
            let std = \<lambda>fd. fd\<lparr>fd_sb := sb, fd_ino := ino, fd_pos := -1\<rparr>;
                k = upd_fd (proc, 2) std (upd_fd (proc, 1) std (upd_fd (proc, 0) std k))
            in case sb of
                 None \<Rightarrow> (0, k)
               | Some sb \<Rightarrow>
                   (case vfs_inode_stat (kvfs k) sb ino of
                      (ret, None) \<Rightarrow> (ret, k)
                    | (_, Some st) \<Rightarrow>
                        if \<not> S_ISCHR (st_mode st) then (errno_code ENOTTY, k)
                        else let (ret, w) = set_foreground (devstate (kvfs k)) (gnu_dev_minor (st_rdev st)) (ps_pid (procs k proc))
                             in (ret, k\<lparr>kvfs := (kvfs k)\<lparr>devstate := w\<rparr>\<rparr>)))"

text \<open>\<open>None\<close> when the kernel panics in the switch.\<close>

definition sys_exit :: "int \<Rightarrow> 'w kern \<Rightarrow> 'w kern option" where
  "sys_exit status k =
     do { let exited = (\<lambda>t. t\<lparr>tk_tss := (tk_tss t)\<lparr>tss_eax := word_of_int status\<rparr>, tk_state := TS_EXITED\<rparr>);
          s \<leftarrow> task_yield (upd_task (current_proc k) exited (ksched k));
          Some (k\<lparr>ksched := s\<rparr>) }"

end
