(* ===== verification/Paging.thy ===== *)
theory Paging
  imports Phys_Mem
begin

text \<open>
  Page tables (\<^verbatim>\<open>src/mem/paging.c\<close>).  Physical pages that are used as directories or tables are a
  store from the physical address of the page and an entry index to the 32-bit entry.  The kernel
  reaches the page \<open>p\<close> at \<^term>\<open>va p\<close>, in the direct map, which ends with the first gigabyte: beyond it \<^const>\<open>va\<close>
  wraps around and the code would touch another page.  The results below are for memory within that gigabyte, and show
  that the pages in use stay within it.  The hardware walk is specified by \<open>mmu_walk\<close>.
\<close>

section \<open>Entries\<close>

definition PDE_SHIFT :: nat where "PDE_SHIFT = 22"
definition PTE_SHIFT :: nat where "PTE_SHIFT = 12"
definition N_PDE :: nat where "N_PDE = 1024"

type_synonym page_entries = "u32 \<Rightarrow> u32"
type_synonym page_tables = "u32 \<Rightarrow> page_entries"

text \<open>The bit fields of \<^verbatim>\<open>pde_t\<close> and \<^verbatim>\<open>pte_t\<close>.\<close>

definition entry_index :: "u32 \<Rightarrow> u32" where "entry_index w = drop_bit 12 w"
definition entry_present :: "u32 \<Rightarrow> bool" where "entry_present w \<longleftrightarrow> bit w 0"
definition entry_hugepage :: "u32 \<Rightarrow> bool" where "entry_hugepage w \<longleftrightarrow> bit w 7"
definition set_index :: "u32 \<Rightarrow> u32 \<Rightarrow> u32" where
  "set_index w i = (w AND 0xFFF) OR push_bit 12 i"

section \<open>Boot-time directory\<close>

record memory_map =
  base_addr_low :: u32
  base_addr_high :: u32
  length_low :: u32
  length_high :: u32
  mm_type :: u32

definition map_start :: "memory_map \<Rightarrow> u64" where
  "map_start m = push_bit 32 (ucast (base_addr_high m)) + ucast (base_addr_low m)"

definition map_len :: "memory_map \<Rightarrow> u64" where
  "map_len m = push_bit 32 (ucast (length_high m)) + ucast (length_low m)"

text \<open>The inner loop: the first map entry that meets the 4 MB at \<open>pptr\<close>.\<close>

definition covers :: "u32 \<Rightarrow> memory_map \<Rightarrow> bool" where
  "covers pptr m \<longleftrightarrow> \<not> ucast (pptr + 0x400000) \<le> map_start m \<and> \<not> map_start m + map_len m \<le> ucast pptr"

definition setup_pde :: "memory_map list \<Rightarrow> u32 \<Rightarrow> u32 option" where
  "setup_pde maps i =
     (let pptr = i * 0x400000 in
      case find (covers pptr) maps of
        None \<Rightarrow> None
      | Some m \<Rightarrow> Some (pptr OR 0x83 OR (if mm_type m \<noteq> 1 then 0x10 else 0)))"

definition setup_step :: "memory_map list \<Rightarrow> page_entries \<Rightarrow> nat \<Rightarrow> page_entries" where
  "setup_step maps dir i =
     (case setup_pde maps (of_nat i) of
        None \<Rightarrow> dir
      | Some pde \<Rightarrow>
          let dir' = dir(of_nat i := pde); ik = i + unat KERN_OFF div 2 ^ PDE_SHIFT
          in if ik < N_PDE then dir'(of_nat ik := pde) else dir')"

definition paging_setup :: "page_entries \<Rightarrow> memory_map list \<Rightarrow> page_entries" where
  "paging_setup initial_pgdir maps =
     foldl (setup_step maps) initial_pgdir [0..<unat KERN_OFF div 2 ^ PDE_SHIFT]"

section \<open>Directories of processes\<close>

definition pagedir_alloc :: "page_entries \<Rightarrow> pmem \<Rightarrow> page_tables \<Rightarrow> u32 \<times> pmem \<times> page_tables" where
  "pagedir_alloc thePageDirectory pm tabs =
     (let (pagedir, pm') = pmem_alloc pm 1;
          vpde = (\<lambda>_. 0);
          kpde_offset = drop_bit PDE_SHIFT KERN_OFF;
          vpde = (\<lambda>i. if kpde_offset \<le> i \<and> unat i < N_PDE then thePageDirectory i else vpde i);
          vpde = vpde(0 := thePageDirectory 0)
      in (pagedir, pm', tabs(pagedir := vpde)))"

text \<open>The two allocations of \<^verbatim>\<open>pagedir_get_or_new\<close>; a failed \<^verbatim>\<open>assert\<close> returns null.\<close>

definition get_or_new_table :: "pmem \<Rightarrow> page_tables \<Rightarrow> u32 \<Rightarrow> u32 \<Rightarrow> u32 option \<times> pmem \<times> page_tables" where
  "get_or_new_table pm tabs pagedir pde_index =
     (let pde = tabs pagedir pde_index in
      if pde \<noteq> 0 then (Some (push_bit PTE_SHIFT (entry_index pde)), pm, tabs)
      else
        let (pagetbl, pm1) = pmem_alloc pm 1 in
        if pagetbl = 0 then (None, pm1, tabs)
        else
          let tabs1 = tabs(pagetbl := (\<lambda>_. 0));
              pde = set_index 0x1F (drop_bit 12 pagetbl)
          in (Some pagetbl, pm1, tabs1(pagedir := (tabs1 pagedir)(pde_index := pde))))"

definition pagedir_get_or_new :: "pmem \<Rightarrow> page_tables \<Rightarrow> u32 \<Rightarrow> u32 \<Rightarrow> u32 \<Rightarrow> u32 \<times> pmem \<times> page_tables" where
  "pagedir_get_or_new pm tabs pagedir vaddr pte_mask =
     (if \<not> vaddr < KERN_OFF then (0, pm, tabs)
      else
        let pte_index = drop_bit PTE_SHIFT vaddr AND 0x3FF;
            pde_index = drop_bit PDE_SHIFT vaddr
        in case get_or_new_table pm tabs pagedir pde_index of
             (None, pm1, tabs1) \<Rightarrow> (0, pm1, tabs1)
           | (Some pagetbl, pm1, tabs1) \<Rightarrow>
               let pte = tabs1 pagetbl pte_index in
               if pte \<noteq> 0 then (pte AND 0xFFFFF000, pm1, tabs1)
               else
                 let (page, pm2) = pmem_alloc pm1 1 in
                 if page = 0 then (0, pm2, tabs1)
                 else
                   let pte = set_index (pte_mask OR 0x5) (drop_bit 12 page)
                   in (pte AND 0xFFFFF000, pm2, tabs1(pagetbl := (tabs1 pagetbl)(pte_index := pte))))"

section \<open>The hardware\<close>

text \<open>Address translation of the i386 with 4 MB pages enabled.\<close>

definition mmu_walk :: "page_tables \<Rightarrow> page_entries \<Rightarrow> u32 \<Rightarrow> u32 option" where
  "mmu_walk tabs dir vaddr =
     (let pde = dir (drop_bit 22 vaddr) in
      if \<not> entry_present pde then None
      else if entry_hugepage pde then Some ((pde AND 0xFFC00000) OR (vaddr AND 0x3FFFFF))
      else
        let pte = tabs (pde AND 0xFFFFF000) (drop_bit 12 vaddr AND 0x3FF) in
        if entry_present pte then Some ((pte AND 0xFFFFF000) OR (vaddr AND 0xFFF)) else None)"

section \<open>Entries of page-aligned frames\<close>

lemma page_mask: "(0xFFFFF000 :: u32) = NOT (mask 12)"
  by (simp add: mask_eq_exp_minus_1)

lemma page_base:
  assumes "unat (p :: u32) mod 4096 = 0"
  shows "p AND 0xFFFFF000 = p" and "push_bit 12 (drop_bit 12 p) = p"
proof -
  have z: "p AND mask 12 = 0" using assms unat_mask_and [of p 12] by (simp flip: unat_eq_0)
  then show 1: "p AND 0xFFFFF000 = p" unfolding page_mask word_and_not_self by simp
  have "push_bit 12 (drop_bit 12 p) = p AND 0xFFFFF000"
    unfolding page_mask by (rule bit_word_eqI) (auto simp: bit_simps)
  with 1 show "push_bit 12 (drop_bit 12 p) = p" by simp
qed

lemma set_index_page:
  assumes "unat p mod 4096 = 0"
  shows "set_index w (drop_bit 12 p) AND 0xFFFFF000 = p"
    and "push_bit 12 (entry_index (set_index w (drop_bit 12 p))) = p"
    and "entry_present (set_index w (drop_bit 12 p)) = bit w 0"
    and "entry_hugepage (set_index w (drop_bit 12 p)) = bit w 7"
proof -
  have s: "set_index w (drop_bit 12 p) = (w AND 0xFFF) OR p"
    unfolding set_index_def page_base(2) [OF assms] ..
  have m: "(0xFFF :: u32) = mask 12" by (simp add: mask_eq_exp_minus_1)
  have z: "p AND mask 12 = 0" using assms unat_mask_and [of p 12] by (simp flip: unat_eq_0)
  have low: "\<not> bit p i" if "i < 12" for i using arg_cong [OF z, of "\<lambda>x. bit x i"] that by (auto simp: bit_simps)
  show 1: "set_index w (drop_bit 12 p) AND 0xFFFFF000 = p"
    unfolding s m page_mask by (rule bit_word_eqI) (auto simp: bit_simps, meson low not_less)
  have "push_bit 12 (entry_index x) = x AND 0xFFFFF000" for x
    unfolding page_mask entry_index_def by (rule bit_word_eqI) (auto simp: bit_simps)
  with 1 show "push_bit 12 (entry_index (set_index w (drop_bit 12 p))) = p" by simp
  show "entry_present (set_index w (drop_bit 12 p)) = bit w 0"
    "entry_hugepage (set_index w (drop_bit 12 p)) = bit w 7"
    unfolding s m entry_present_def entry_hugepage_def using low by (auto simp: bit_simps)
qed

lemma push_entry_index: "push_bit 12 (entry_index x) = x AND 0xFFFFF000"
  unfolding page_mask entry_index_def by (rule bit_word_eqI) (auto simp: bit_simps)

section \<open>Well-formed directories\<close>

definition frame_ok :: "pmem \<Rightarrow> u32 \<Rightarrow> bool" where
  "frame_ok pm a \<longleftrightarrow> unat a mod 4096 = 0 \<and> 0 < unat a \<and> unat a < 4096 * unat (theEdgeOfAllocatedMemory pm)"

text \<open>
  The user part of a directory, above the first 4 MB (which every directory maps as one huge page):
  every entry is empty or names a table of its own, and every entry of such a table is empty or
  names an allocated frame.
\<close>

definition user_index :: "u32 \<Rightarrow> bool" where
  "user_index i \<longleftrightarrow> 1 \<le> i \<and> i < 768"

definition table_ok :: "pmem \<Rightarrow> page_entries \<Rightarrow> bool" where
  "table_ok pm t \<longleftrightarrow> (\<forall>k. t k \<noteq> 0 \<longrightarrow> entry_present (t k) \<and> frame_ok pm (t k AND 0xFFFFF000))"

definition pde_ok :: "pmem \<Rightarrow> page_tables \<Rightarrow> u32 \<Rightarrow> u32 \<Rightarrow> bool" where
  "pde_ok pm tabs pd w \<longleftrightarrow>
     entry_present w \<and> \<not> entry_hugepage w \<and> frame_ok pm (w AND 0xFFFFF000) \<and>
     w AND 0xFFFFF000 \<noteq> pd \<and> table_ok pm (tabs (w AND 0xFFFFF000))"

definition pd_ok :: "pmem \<Rightarrow> page_tables \<Rightarrow> u32 \<Rightarrow> bool" where
  "pd_ok pm tabs pd \<longleftrightarrow> frame_ok pm pd \<and>
     (\<forall>i. user_index i \<and> tabs pd i \<noteq> 0 \<longrightarrow>
        pde_ok pm tabs pd (tabs pd i) \<and>
        (\<forall>j. user_index j \<and> tabs pd j \<noteq> 0 \<and> tabs pd j AND 0xFFFFF000 = tabs pd i AND 0xFFFFF000 \<longrightarrow> j = i))"

lemma frame_ok_mono:
  "frame_ok pm a \<Longrightarrow> unat (theEdgeOfAllocatedMemory pm) \<le> unat (theEdgeOfAllocatedMemory pm') \<Longrightarrow> frame_ok pm' a"
  by (simp add: frame_ok_def)

lemma user_vaddr:
  assumes "0x400000 \<le> v" "v < KERN_OFF"
  shows "user_index (drop_bit 22 v)"
proof -
  have u: "unat (drop_bit 22 v) = unat v div 4194304"
    by (simp add: drop_bit_eq_div unat_div)
  have "4194304 \<le> unat v" "unat v < 3221225472"
    using assms by (auto simp: KERN_OFF_def word_le_nat_alt word_less_nat_alt)
  then show ?thesis unfolding user_index_def word_le_nat_alt word_less_nat_alt u by auto
qed

text \<open>A fresh frame is past every frame in use, so it is neither a directory nor a table.\<close>

lemma pmem_alloc_frame:
  assumes "pmem_inv pm" "pmem_alloc pm 1 = (p, pm')" "p \<noteq> 0"
  shows "pmem_inv pm'" "frame_ok pm' p" "\<not> frame_ok pm p" "unat p mod 4096 = 0"
    "unat (theEdgeOfAllocatedMemory pm) \<le> unat (theEdgeOfAllocatedMemory pm')"
    "unat p = 4096 * unat (theEdgeOfAllocatedMemory pm)"
proof -
  have "unat p = 4096 * unat (theEdgeOfAllocatedMemory pm) \<and> pmem_inv pm' \<and>
      unat (theEdgeOfAllocatedMemory pm') = unat (theEdgeOfAllocatedMemory pm) + 1"
    using assms(3) by (auto intro: pmem_alloc_cases [OF assms(1) _ _ assms(2)])
  moreover have "0 < unat p" using assms(3) by (simp add: unat_gt_0)
  ultimately show "pmem_inv pm'" "frame_ok pm' p" "\<not> frame_ok pm p" "unat p mod 4096 = 0"
    "unat (theEdgeOfAllocatedMemory pm) \<le> unat (theEdgeOfAllocatedMemory pm')"
    "unat p = 4096 * unat (theEdgeOfAllocatedMemory pm)"
    by (auto simp: frame_ok_def)
qed

lemma pmem_alloc_full:
  assumes "pmem_inv pm" "pmem_alloc pm 1 = (0, pm')"
  shows "pm' = pm"
  using assms(1) _ _ assms(2) by (cases rule: pmem_alloc_cases) auto

lemma table_ok_mono:
  "table_ok pm t \<Longrightarrow> unat (theEdgeOfAllocatedMemory pm) \<le> unat (theEdgeOfAllocatedMemory pm') \<Longrightarrow> table_ok pm' t"
  by (auto simp: table_ok_def intro: frame_ok_mono)

lemma pd_okD:
  assumes "pd_ok pm tabs pd" "user_index i" "tabs pd i \<noteq> 0"
  shows "pde_ok pm tabs pd (tabs pd i)"
    and "\<And>j. user_index j \<Longrightarrow> tabs pd j \<noteq> 0 \<Longrightarrow> tabs pd j AND 0xFFFFF000 = tabs pd i AND 0xFFFFF000 \<Longrightarrow> j = i"
  using assms by (auto simp: pd_ok_def)

section \<open>Getting or making a mapping\<close>

lemma get_or_new_table:
  assumes inv: "pmem_inv pm" and ok: "pd_ok pm tabs pd" and i: "user_index i"
    and r: "get_or_new_table pm tabs pd i = (Some t, pm', tabs')"
  shows "pmem_inv pm'" "pd_ok pm' tabs' pd" "tabs' pd i \<noteq> 0" "tabs' pd i AND 0xFFFFF000 = t"
    "unat (theEdgeOfAllocatedMemory pm) \<le> unat (theEdgeOfAllocatedMemory pm')"
    "\<And>j. user_index j \<Longrightarrow> tabs pd j \<noteq> 0 \<Longrightarrow>
       tabs' pd j = tabs pd j \<and> tabs' (tabs pd j AND 0xFFFFF000) = tabs (tabs pd j AND 0xFFFFF000)"
    "tabs pd i = 0 \<Longrightarrow> tabs' t = (\<lambda>_. 0)"
proof -
  have "pmem_inv pm' \<and> pd_ok pm' tabs' pd \<and> tabs' pd i \<noteq> 0 \<and> tabs' pd i AND 0xFFFFF000 = t \<and>
    unat (theEdgeOfAllocatedMemory pm) \<le> unat (theEdgeOfAllocatedMemory pm') \<and>
    (\<forall>j. user_index j \<and> tabs pd j \<noteq> 0 \<longrightarrow>
       tabs' pd j = tabs pd j \<and> tabs' (tabs pd j AND 0xFFFFF000) = tabs (tabs pd j AND 0xFFFFF000)) \<and>
    (tabs pd i = 0 \<longrightarrow> tabs' t = (\<lambda>_. 0))"
  proof (cases "tabs pd i = 0")
    case False
    then have "t = tabs pd i AND 0xFFFFF000" "pm' = pm" "tabs' = tabs"
      using r by (auto simp: get_or_new_table_def Let_def push_entry_index PTE_SHIFT_def)
    with False inv ok show ?thesis by auto
  next
    case True
    obtain p pm1 where a: "pmem_alloc pm 1 = (p, pm1)" by fastforce
    let ?w = "set_index 0x1F (drop_bit 12 p)"
    have p: "p \<noteq> 0" "t = p" "pm' = pm1"
      "tabs' = (tabs(p := \<lambda>_. 0))(pd := ((tabs(p := \<lambda>_. 0)) pd)(i := ?w))"
      using r True a by (auto simp: get_or_new_table_def Let_def split: if_splits)
    note al = pmem_alloc_frame [OF inv a p(1)]
    note w = set_index_page [OF al(4)]
    have fpd: "frame_ok pm pd" using ok by (simp add: pd_ok_def)
    have ne: "pd \<noteq> p" using fpd al(3) by auto
    have tabs': "tabs' pd = (tabs pd)(i := ?w)" "tabs' p = (\<lambda>_. 0)" "\<And>q. q \<noteq> pd \<Longrightarrow> q \<noteq> p \<Longrightarrow> tabs' q = tabs q"
      using ne by (auto simp: p(4))
    have w0: "?w \<noteq> 0" "pde_ok pm1 tabs' pd ?w"
      using w(1) [of "0x1F"] p(1) al(2) ne w(3,4) [of "0x1F"] tabs'(2)
      by (auto simp: pde_ok_def table_ok_def bit_numeral_rec)
    have other: "pde_ok pm1 tabs' pd (tabs pd j)" "tabs pd j AND 0xFFFFF000 \<noteq> p"
        "tabs' (tabs pd j AND 0xFFFFF000) = tabs (tabs pd j AND 0xFFFFF000)"
      if j: "user_index j" "tabs pd j \<noteq> 0" for j
    proof -
      have o: "pde_ok pm tabs pd (tabs pd j)" using pd_okD(1) [OF ok j] .
      then show n: "tabs pd j AND 0xFFFFF000 \<noteq> p" using al(3) by (auto simp: pde_ok_def)
      then show t: "tabs' (tabs pd j AND 0xFFFFF000) = tabs (tabs pd j AND 0xFFFFF000)"
        using o by (intro tabs'(3)) (auto simp: pde_ok_def)
      show "pde_ok pm1 tabs' pd (tabs pd j)"
        using o al(5) by (auto simp: pde_ok_def t intro: frame_ok_mono table_ok_mono)
    qed
    have "pd_ok pm1 tabs' pd"
      unfolding pd_ok_def tabs'(1) fun_upd_apply
      using w0 other w(1) [of "0x1F"] pd_okD(2) [OF ok] frame_ok_mono [OF fpd al(5)] by auto
    then show ?thesis
      using al(1,5) other w0 w(1) True ne by (auto simp: p(2,3) tabs')
  qed
  then show "pmem_inv pm'" "pd_ok pm' tabs' pd" "tabs' pd i \<noteq> 0" "tabs' pd i AND 0xFFFFF000 = t"
    "unat (theEdgeOfAllocatedMemory pm) \<le> unat (theEdgeOfAllocatedMemory pm')"
    "\<And>j. user_index j \<Longrightarrow> tabs pd j \<noteq> 0 \<Longrightarrow>
       tabs' pd j = tabs pd j \<and> tabs' (tabs pd j AND 0xFFFFF000) = tabs (tabs pd j AND 0xFFFFF000)"
    "tabs pd i = 0 \<Longrightarrow> tabs' t = (\<lambda>_. 0)"
    by blast+
qed

lemma get_or_new_table_None:
  assumes "pmem_inv pm" "get_or_new_table pm tabs pd i = (None, pm', tabs')"
  shows "pm' = pm" "tabs' = tabs" "\<exists>q. pmem_alloc pm 1 = (0, q)"
proof -
  obtain p pm1 where a: "pmem_alloc pm 1 = (p, pm1)" by fastforce
  with assms(2) have "p = 0" "pm' = pm1" "tabs' = tabs"
    by (auto simp: get_or_new_table_def Let_def split: if_splits)
  with a pmem_alloc_full [OF assms(1), of pm1] show "pm' = pm" "tabs' = tabs" "\<exists>q. pmem_alloc pm 1 = (0, q)"
    by auto
qed

text \<open>Storing a good entry in a table.\<close>

lemma pd_ok_set_pte:
  assumes ok: "pd_ok pm tabs pd" and i: "user_index i" "tabs pd i \<noteq> 0"
    and w: "entry_present w" "frame_ok pm (w AND 0xFFFFF000)"
    and t: "t = tabs pd i AND 0xFFFFF000"
  shows "pd_ok pm (tabs(t := (tabs t)(k := w))) pd"
proof -
  have ti: "pde_ok pm tabs pd (tabs pd i)" using pd_okD(1) [OF ok i] .
  then have ne: "t \<noteq> pd" by (auto simp: t pde_ok_def)
  have "pde_ok pm (tabs(t := (tabs t)(k := w))) pd x" if "pde_ok pm tabs pd x" for x
    using that w ti by (auto simp: pde_ok_def table_ok_def t)
  then show ?thesis using ok ne unfolding pd_ok_def by auto
qed

lemma pd_ok_mono:
  assumes "pd_ok pm tabs pd" "unat (theEdgeOfAllocatedMemory pm) \<le> unat (theEdgeOfAllocatedMemory pm')"
  shows "pd_ok pm' tabs pd"
  using assms frame_ok_mono [OF _ assms(2)] table_ok_mono [OF _ assms(2)] by (auto simp: pd_ok_def pde_ok_def)

lemma mmu_walk_user:
  assumes ok: "pd_ok pm tabs pd" and v: "0x400000 \<le> v" "v < KERN_OFF"
  shows "mmu_walk tabs (tabs pd) v =
    (let w = tabs pd (drop_bit 22 v); x = tabs (w AND 0xFFFFF000) (drop_bit 12 v AND 0x3FF)
     in if w = 0 \<or> x = 0 then None else Some ((x AND 0xFFFFF000) OR (v AND 0xFFF)))"
proof (cases "tabs pd (drop_bit 22 v) = 0")
  case False
  then have "pde_ok pm tabs pd (tabs pd (drop_bit 22 v))" using pd_okD(1) [OF ok user_vaddr [OF v]] by blast
  then show ?thesis using False
    by (auto simp: mmu_walk_def Let_def pde_ok_def table_ok_def entry_present_def)
qed (simp add: mmu_walk_def entry_present_def)

text \<open>What \<^verbatim>\<open>pagedir_get_or_new\<close> promises about its result.\<close>

definition mapped :: "pmem \<Rightarrow> page_tables \<Rightarrow> u32 \<Rightarrow> u32 \<Rightarrow> u32 \<Rightarrow> pmem \<Rightarrow> page_tables \<Rightarrow> bool" where
  "mapped pm tabs pd v p pm' tabs' \<longleftrightarrow>
     pmem_inv pm' \<and> pd_ok pm' tabs' pd \<and>
     (if p = 0 then fst (pmem_alloc pm' 1) = 0
      else mmu_walk tabs' (tabs' pd) v = Some (p OR (v AND 0xFFF)) \<and>
        (mmu_walk tabs (tabs pd) v = None \<longrightarrow> frame_ok pm' p \<and> \<not> frame_ok pm p)) \<and>
     (\<forall>u x. 0x400000 \<le> u \<and> u < KERN_OFF \<and> mmu_walk tabs (tabs pd) u = Some x \<longrightarrow>
        mmu_walk tabs' (tabs' pd) u = Some x)"

text \<open>Filling an empty entry of a table that is there.\<close>

lemma mapped_new_page:
  assumes inv: "pmem_inv pm" and ok: "pd_ok pm tabs pd" and v: "0x400000 \<le> v" "v < KERN_OFF"
    and t: "tabs pd (drop_bit 22 v) \<noteq> 0" "t = tabs pd (drop_bit 22 v) AND 0xFFFFF000"
    and k: "tabs t (drop_bit 12 v AND 0x3FF) = 0"
    and a: "pmem_alloc pm 1 = (page, pm')" "page \<noteq> 0" and w: "bit w 0"
  shows "mapped pm tabs pd v page pm'
    (tabs(t := (tabs t)(drop_bit 12 v AND 0x3FF := set_index w (drop_bit 12 page))))"
proof -
  let ?k = "drop_bit 12 v AND 0x3FF" and ?x = "set_index w (drop_bit 12 page)"
  let ?tabs = "tabs(t := (tabs t)(?k := ?x))"
  note i = user_vaddr [OF v] and al = pmem_alloc_frame [OF inv a]
  note x = set_index_page [OF al(4), of w]
  have ok2: "pd_ok pm' ?tabs pd"
    by (rule pd_ok_set_pte [OF pd_ok_mono [OF ok al(5)] i t(1) _ _ t(2)]) (use x al(2) w in auto)
  have npd: "t \<noteq> pd" using pd_okD(1) [OF ok i t(1)] by (auto simp: pde_ok_def t(2))
  then have pd': "?tabs pd = tabs pd" by simp
  have x0: "?x \<noteq> 0" using x(1) a(2) by auto
  have "mmu_walk ?tabs (?tabs pd) v = Some (page OR (v AND 0xFFF))"
    unfolding mmu_walk_user [OF ok2 v] unfolding pd' using t(1) x0 x(1) by (simp add: Let_def t(2) [symmetric])
  moreover have "mmu_walk ?tabs (?tabs pd) u = Some y"
    if u: "0x400000 \<le> u" "u < KERN_OFF" "mmu_walk tabs (tabs pd) u = Some y" for u y
    using u(3) k unfolding mmu_walk_user [OF ok2 u(1,2)] mmu_walk_user [OF ok u(1,2)] unfolding pd'
    by (auto simp: Let_def split: if_splits)
  ultimately show ?thesis using al(1,2,3) ok2 a(2) unfolding mapped_def by auto
qed

lemma mapped_trans:
  assumes "mapped pm1 tabs1 pd v p pm' tabs'"
    and "unat (theEdgeOfAllocatedMemory pm) \<le> unat (theEdgeOfAllocatedMemory pm1)"
    and "\<And>u x. 0x400000 \<le> u \<Longrightarrow> u < KERN_OFF \<Longrightarrow> mmu_walk tabs (tabs pd) u = Some x \<Longrightarrow>
      mmu_walk tabs1 (tabs1 pd) u = Some x"
    and "mmu_walk tabs (tabs pd) v = None \<Longrightarrow> mmu_walk tabs1 (tabs1 pd) v = None"
  shows "mapped pm tabs pd v p pm' tabs'"
  using assms frame_ok_mono [OF _ assms(2)] unfolding mapped_def by (auto split: if_splits)

text \<open>Once the table is there.\<close>

lemma mapped_table:
  assumes inv: "pmem_inv pm" and ok: "pd_ok pm tabs pd" and v: "0x400000 \<le> v" "v < KERN_OFF"
    and t: "tabs pd (drop_bit 22 v) \<noteq> 0" "t = tabs pd (drop_bit 22 v) AND 0xFFFFF000"
    and r: "r = (let pte = tabs t (drop_bit 12 v AND 0x3FF) in
               if pte \<noteq> 0 then (pte AND 0xFFFFF000, pm, tabs)
               else
                 let (page, pm2) = pmem_alloc pm 1 in
                 if page = 0 then (0, pm2, tabs)
                 else
                   let pte = set_index (msk OR 0x5) (drop_bit 12 page)
                   in (pte AND 0xFFFFF000, pm2, tabs(t := (tabs t)(drop_bit 12 v AND 0x3FF := pte))))"
  shows "mapped pm tabs pd v (fst r) (fst (snd r)) (snd (snd r))"
proof (cases "tabs t (drop_bit 12 v AND 0x3FF) = 0")
  case False
  have "mmu_walk tabs (tabs pd) v = Some ((tabs t (drop_bit 12 v AND 0x3FF) AND 0xFFFFF000) OR (v AND 0xFFF))"
    unfolding mmu_walk_user [OF ok v] using t False by (simp add: Let_def)
  moreover have "frame_ok pm (tabs t (drop_bit 12 v AND 0x3FF) AND 0xFFFFF000)"
    using pd_okD(1) [OF ok user_vaddr [OF v] t(1)] False by (auto simp: pde_ok_def table_ok_def t(2))
  ultimately show ?thesis using False inv ok unfolding mapped_def r by (auto simp: Let_def frame_ok_def)
next
  case True
  obtain page pm2 where a: "pmem_alloc pm 1 = (page, pm2)" by fastforce
  show ?thesis
  proof (cases "page = 0")
    case z: True
    then have "pm2 = pm" using a pmem_alloc_full [OF inv] by simp
    then show ?thesis using True z a inv ok unfolding mapped_def r by (auto simp: Let_def)
  next
    case nz: False
    have "unat page mod 4096 = 0" using pmem_alloc_frame(4) [OF inv a nz] .
    moreover have "bit (msk OR 0x5) 0" by (simp add: bit_simps bit_numeral_rec)
    ultimately show ?thesis
      using mapped_new_page [OF inv ok v t True a nz, of "msk OR 0x5"] True nz a
      unfolding r by (simp add: Let_def set_index_page(1))
  qed
qed

lemma get_or_new_ok:
  assumes inv: "pmem_inv pm" and ok: "pd_ok pm tabs pd" and v: "0x400000 \<le> v" "v < KERN_OFF"
    and r: "pagedir_get_or_new pm tabs pd v msk = (p, pm', tabs')"
  shows "mapped pm tabs pd v p pm' tabs'"
proof -
  let ?i = "drop_bit 22 v" and ?k = "drop_bit 12 v AND 0x3FF"
  note i = user_vaddr [OF v]
  obtain t pm1 tabs1 where g: "get_or_new_table pm tabs pd ?i = (t, pm1, tabs1)" by (metis prod_cases3)
  show ?thesis
  proof (cases t)
    case None
    note n = get_or_new_table_None [OF inv g [unfolded None]]
    have "p = 0" "pm' = pm" "tabs' = tabs"
      using r g None n v by (auto simp: pagedir_get_or_new_def PDE_SHIFT_def PTE_SHIFT_def)
    then show ?thesis using n inv ok by (auto simp: mapped_def)
  next
    case (Some t')
    note g1 = get_or_new_table [OF inv ok i g [unfolded Some]]
    note t' = g1(4) [symmetric]
    have walk1: "mmu_walk tabs1 (tabs1 pd) u = Some x"
      if u: "0x400000 \<le> u" "u < KERN_OFF" "mmu_walk tabs (tabs pd) u = Some x" for u x
      using u(3) g1(6) [OF user_vaddr [OF u(1,2)]]
      unfolding mmu_walk_user [OF ok u(1,2)] mmu_walk_user [OF g1(2) u(1,2)]
      by (auto simp: Let_def split: if_splits)
    have "tabs1 t' ?k = 0" if "mmu_walk tabs (tabs pd) v = None"
      using that g1(6) [OF i] g1(7) unfolding mmu_walk_user [OF ok v]
      by (cases "tabs pd ?i = 0") (auto simp: Let_def t' split: if_splits)
    then have none: "mmu_walk tabs1 (tabs1 pd) v = None" if "mmu_walk tabs (tabs pd) v = None"
      using that unfolding mmu_walk_user [OF g1(2) v] by (simp add: Let_def t' [symmetric])
    have "mapped pm1 tabs1 pd v p pm' tabs'"
      using mapped_table [OF g1(1,2) v g1(3) t' refl, of msk] r g Some v
      by (simp add: pagedir_get_or_new_def PDE_SHIFT_def PTE_SHIFT_def Let_def)
    then show ?thesis by (rule mapped_trans [OF _ g1(5) walk1 none])
  qed
qed

section \<open>The direct map\<close>

definition pde_of :: "memory_map list \<Rightarrow> page_entries \<Rightarrow> nat \<Rightarrow> nat \<Rightarrow> u32" where
  "pde_of maps d i j = (case setup_pde maps (of_nat i) of None \<Rightarrow> d (of_nat j) | Some w \<Rightarrow> w)"

lemma of_nat_u32_eq: "i < 2 ^ 32 \<Longrightarrow> j < 2 ^ 32 \<Longrightarrow> (of_nat i :: u32) = of_nat j \<longleftrightarrow> i = j"
  by (simp add: word_unat_eq_iff unat_of_nat_u32)

lemma paging_setup_prefix:
  assumes "n \<le> 768" "j < 1024"
  shows "foldl (setup_step maps) d [0..<n] (of_nat j) =
    (if j < n then pde_of maps d j j else if 768 \<le> j \<and> j < 768 + n then pde_of maps d (j - 768) j else d (of_nat j))"
  using assms(1)
proof (induction n)
  case (Suc n)
  then have ih: "foldl (setup_step maps) d [0..<n] (of_nat j) =
      (if j < n then pde_of maps d j j else if 768 \<le> j \<and> j < 768 + n then pde_of maps d (j - 768) j else d (of_nat j))"
    by simp
  have "setup_step maps f n (of_nat j) =
      (case setup_pde maps (of_nat n) of None \<Rightarrow> f (of_nat j)
       | Some w \<Rightarrow> if j = n \<or> j = n + 768 then w else f (of_nat j))" for f
    using assms(2) Suc.prems
    by (auto simp: setup_step_def Let_def KERN_OFF_def PDE_SHIFT_def N_PDE_def of_nat_u32_eq
        simp del: of_nat_add of_nat_Suc split: option.split)
  then show ?case
    using ih Suc.prems
    by (cases "j = n + 768"; cases "j = n")
      (auto simp: pde_of_def less_Suc_eq simp del: of_nat_diff of_nat_add split: option.split)
qed auto

lemma paging_setup_dir:
  assumes "i < 256" "setup_pde maps (of_nat i) = Some w"
  shows "paging_setup d maps (of_nat i) = w" "paging_setup d maps (of_nat (i + 768)) = w"
proof -
  have ps: "paging_setup d maps = foldl (setup_step maps) d [0..<768]"
    by (simp add: paging_setup_def KERN_OFF_def PDE_SHIFT_def)
  show "paging_setup d maps (of_nat i) = w" "paging_setup d maps (of_nat (i + 768)) = w"
    using assms paging_setup_prefix [of 768 i maps d] paging_setup_prefix [of 768 "i + 768" maps d]
    unfolding ps by (auto simp: pde_of_def simp del: of_nat_add)
qed

lemma huge_mask: "(0xFFC00000 :: u32) = NOT (mask 22)" "(0x3FFFFF :: u32) = mask 22"
  by (simp_all add: mask_eq_exp_minus_1)

lemma huge_entry:
  assumes i: "i < 1024" and w: "w = of_nat i * 0x400000 OR 0x83 OR (if c then 0x10 else 0)"
  shows "entry_present w" "entry_hugepage w" "w AND 0xFFC00000 = of_nat i * 0x400000"
proof -
  have p: "of_nat i * 0x400000 = push_bit 22 (of_nat i :: u32)" by (simp add: push_bit_eq_mult mult.commute)
  show "entry_present w" "entry_hugepage w"
    by (auto simp: w p entry_present_def entry_hugepage_def bit_simps bit_numeral_rec)
  have "push_bit 22 (of_nat i :: u32) AND 0xFFC00000 = push_bit 22 (of_nat i)"
    unfolding huge_mask by (rule bit_word_eqI) (auto simp: bit_simps)
  then show "w AND 0xFFC00000 = of_nat i * 0x400000"
    unfolding w p by (simp add: bit.conj_disj_distrib2)
qed

lemma drop_bit_22: "drop_bit 22 (v :: u32) = of_nat (unat v div 4194304)"
  by (simp add: word_unat_eq_iff drop_bit_eq_div unat_div unat_of_nat_u32 u32_bound less_imp_diff_less
      div_le_dividend [THEN order.strict_trans1])

lemma setup_pde_covered:
  assumes m: "m \<in> set maps" and p: "unat (map_start m) \<le> unat p" "unat p < unat (map_start m) + unat (map_len m)"
    "unat (map_start m) + unat (map_len m) < 2 ^ 64" "unat p < 2 ^ 31"
  shows "\<exists>c. setup_pde maps (of_nat (unat p div 4194304)) =
    Some (of_nat (unat p div 4194304) * 0x400000 OR 0x83 OR (if c then 0x10 else 0))"
proof -
  define i where "i = unat p div 4194304"
  have i: "i < 512" "4194304 * i \<le> unat p" "unat p < 4194304 * i + 4194304" using p(4) by (auto simp: i_def)
  have ui: "unat (of_nat i * 0x400000 :: u32) = 4194304 * i"
    using i by (simp add: unat_mult_nowrap unat_of_nat_u32)
  have ui2: "unat (of_nat i * 0x400000 + 0x400000 :: u32) = 4194304 * i + 4194304"
    using i ui by (simp add: unat_add_nowrap)
  have s: "unat (map_start m + map_len m) = unat (map_start m) + unat (map_len m)"
    using p(3) unat_add_lem [of "map_start m" "map_len m"] by simp
  have uc: "unat (ucast x :: u64) = unat (x :: u32)" for x
    using u32_bound [of x] by (simp add: unsigned_ucast_eq take_bit_nat_eq_self)
  have "covers (of_nat i * 0x400000) m"
    unfolding covers_def word_le_nat_alt uc ui ui2 s using p i by simp
  then obtain m' where "find (covers (of_nat i * 0x400000)) maps = Some m'"
    using m by (cases "find (covers (of_nat i * 0x400000)) maps") (auto simp: find_None_iff)
  then show ?thesis by (auto simp: setup_pde_def Let_def i_def intro: exI [of _ "mm_type m' \<noteq> 1"])
qed

lemma huge_split:
  assumes "i = unat (p :: u32) div 4194304"
  shows "of_nat i * 0x400000 OR (p AND 0x3FFFFF) = p"
proof -
  have "of_nat i * 0x400000 = p AND NOT (mask 22)"
  proof -
    have "of_nat i * 0x400000 = push_bit 22 (drop_bit 22 p)"
      by (simp add: drop_bit_22 assms push_bit_eq_mult mult.commute)
    then show ?thesis by (simp add: bit_word_eqI bit_simps, intro bit_word_eqI) (auto simp: bit_simps)
  qed
  then show ?thesis unfolding huge_mask by (intro bit_word_eqI) (auto simp: bit_simps)
qed

lemma pmem_alloc_mono:
  assumes "pmem_inv fa" "pmem_alloc fa 1 = (p, fa')"
  shows "pmem_inv fa' \<and> theEndOfUpperMemory fa' = theEndOfUpperMemory fa \<and>
    unat (theEdgeOfAllocatedMemory fa) \<le> unat (theEdgeOfAllocatedMemory fa')"
  using assms(1) _ _ assms(2) by (cases rule: pmem_alloc_cases) (use assms(1) in auto)

lemma get_or_new_mono:
  assumes inv: "pmem_inv fa" and r: "pagedir_get_or_new fa tabs pd v msk = (p, fa', tabs')"
  shows "theEndOfUpperMemory fa' = theEndOfUpperMemory fa \<and>
    unat (theEdgeOfAllocatedMemory fa) \<le> unat (theEdgeOfAllocatedMemory fa')"
proof (cases "v < KERN_OFF")
  case True
  obtain t pm1 tabs1 where g: "get_or_new_table fa tabs pd (drop_bit PDE_SHIFT v) = (t, pm1, tabs1)" by (metis prod.exhaust)
  obtain q pm2 where a: "pmem_alloc fa 1 = (q, pm2)" by fastforce
  obtain q1 pm3 where b: "pmem_alloc pm1 1 = (q1, pm3)" by fastforce
  have c: "pm1 = fa \<or> pm1 = pm2" using g a by (auto simp: get_or_new_table_def Let_def split: if_splits)
  have d: "fa' = pm1 \<or> fa' = pm3"
    using r True g b by (cases t) (auto simp: pagedir_get_or_new_def Let_def split: if_splits)
  have 1: "pmem_inv pm1 \<and> theEndOfUpperMemory pm1 = theEndOfUpperMemory fa \<and>
      unat (theEdgeOfAllocatedMemory fa) \<le> unat (theEdgeOfAllocatedMemory pm1)"
    using c inv pmem_alloc_mono [OF inv a] by auto
  then show ?thesis using d pmem_alloc_mono [OF _ b] by auto
qed (use r in \<open>simp add: pagedir_get_or_new_def\<close>)

text \<open>The kernel reaches a frame through the direct map when its kernel address does not wrap around.\<close>

definition in_reach :: "u32 \<Rightarrow> bool" where
  "in_reach p \<longleftrightarrow> unat (va p) = unat p + unat KERN_OFF"

lemma frame_in_reach:
  assumes "pmem_inv pm" "unat (theEndOfUpperMemory pm) \<le> 0x40000" "frame_ok pm p"
  shows "in_reach p"
proof -
  have "unat p < 0x40000000" using assms unfolding pmem_inv_def frame_ok_def by linarith
  then show ?thesis by (simp add: in_reach_def va_def KERN_OFF_def unat_add_nowrap)
qed

section \<open>Properties\<close>

text \<open>C21. With physical memory of at most 1 GB, asking for a page at a user address above the first 4 MB keeps the
  directory good and every existing translation.  A non-null answer is the frame the hardware then finds at that address,
  and it is a fresh frame if nothing was mapped there; null is answered only when memory is exhausted.  The directory
  and all its tables stay where the kernel reaches them through \<^verbatim>\<open>__va\<close>.\<close>

theorem pagedir_get_or_new_correct:
  assumes "pmem_inv pm" and "pd_ok pm tabs pd" and "0x400000 \<le> v" and "v < KERN_OFF"
    and "unat (theEndOfUpperMemory pm) \<le> 0x40000"
    and "pagedir_get_or_new pm tabs pd v msk = (p, pm', tabs')"
  shows "pmem_inv pm' \<and> pd_ok pm' tabs' pd \<and>
    (if p = 0 then fst (pmem_alloc pm' 1) = 0
     else mmu_walk tabs' (tabs' pd) v = Some (p OR (v AND 0xFFF)) \<and>
       (mmu_walk tabs (tabs pd) v = None \<longrightarrow> frame_ok pm' p \<and> \<not> frame_ok pm p)) \<and>
    (\<forall>u x. 0x400000 \<le> u \<and> u < KERN_OFF \<and> mmu_walk tabs (tabs pd) u = Some x \<longrightarrow>
       mmu_walk tabs' (tabs' pd) u = Some x) \<and>
    in_reach pd \<and> (\<forall>i. user_index i \<and> tabs' pd i \<noteq> 0 \<longrightarrow> in_reach (tabs' pd i AND 0xFFFFF000))"
proof -
  have m: "mapped pm tabs pd v p pm' tabs'" using get_or_new_ok [OF assms(1-4,6)] .
  then have ok: "pmem_inv pm'" "pd_ok pm' tabs' pd" by (simp_all add: mapped_def)
  have "unat (theEndOfUpperMemory pm') \<le> 0x40000" using get_or_new_mono [OF assms(1,6)] assms(5) by simp
  note reach = frame_in_reach [OF ok(1) this]
  have "in_reach pd" "\<forall>i. user_index i \<and> tabs' pd i \<noteq> 0 \<longrightarrow> in_reach (tabs' pd i AND 0xFFFFF000)"
    using ok(2) reach by (auto simp: pd_ok_def pde_ok_def)
  then show ?thesis using m unfolding mapped_def by blast
qed

theorem pagedir_get_or_new_correct_witness:
  "\<exists>pm' tabs'. pagedir_get_or_new \<lparr>theEdgeOfAllocatedMemory = 300, theEndOfUpperMemory = 1000\<rparr> (\<lambda>_ _. 0)
       0x12B000 0x8048123 2 = (0x12D000, pm', tabs') \<and>
     mmu_walk tabs' (tabs' 0x12B000) 0x8048123 = Some 0x12D123"
proof -
  let ?pm = "\<lparr>theEdgeOfAllocatedMemory = 300, theEndOfUpperMemory = 1000\<rparr> :: pmem"
  have "fst (pagedir_get_or_new ?pm (\<lambda>_ _. 0) 0x12B000 0x8048123 2) = 0x12D000"
    by (simp add: pagedir_get_or_new_def get_or_new_table_def pmem_alloc_def PAGE_BYTES_def KERN_OFF_def Let_def
        PDE_SHIFT_def PTE_SHIFT_def set_index_def)
  then obtain pm' tabs' where
    r: "pagedir_get_or_new ?pm (\<lambda>_ _. 0) 0x12B000 0x8048123 2 = (0x12D000, pm', tabs')"
    by (metis prod.collapse)
  have "pmem_inv ?pm" "pd_ok ?pm (\<lambda>_ _. 0) 0x12B000"
    by (simp_all add: pmem_inv_def pd_ok_def frame_ok_def)
  with r show ?thesis
    using pagedir_get_or_new_correct [of ?pm "\<lambda>_ _. 0" "0x12B000" "0x8048123" 2 "0x12D000" pm' tabs']
    by (simp add: KERN_OFF_def)
qed

text \<open>C24. After \<^verbatim>\<open>paging_setup\<close> every physical address below 1 GB that lies in a region of the memory
  map translates to itself, and so does its kernel alias \<^verbatim>\<open>__va\<close>.\<close>

theorem paging_setup_direct_map:
  assumes "m \<in> set maps" and "unat (map_start m) \<le> unat p" and "unat p < unat (map_start m) + unat (map_len m)"
    and "unat (map_start m) + unat (map_len m) < 2 ^ 64" and "p < 0x40000000"
  shows "mmu_walk tabs (paging_setup d maps) p = Some p \<and> mmu_walk tabs (paging_setup d maps) (va p) = Some p"
proof -
  have p: "unat p < 2 ^ 30" using assms(5) by (simp add: word_less_nat_alt)
  define i where "i = unat p div 4194304"
  have i: "i < 256" using p by (auto simp: i_def)
  obtain c where w: "setup_pde maps (of_nat i) = Some (of_nat i * 0x400000 OR 0x83 OR (if c then 0x10 else 0))"
    using setup_pde_covered [OF assms(1-4)] p unfolding i_def by auto
  note e = huge_entry [OF _ refl, of i c] and dir = paging_setup_dir [OF i w, of d]
  have v: "unat (va p) = unat p + 3221225472" using p by (simp add: va_def KERN_OFF_def unat_add_nowrap)
  have di: "drop_bit 22 p = of_nat i" "drop_bit 22 (va p) = of_nat (i + 768)"
  proof -
    have "(unat p + 3221225472) div 4194304 = i + 768" unfolding i_def by linarith
    then show "drop_bit 22 p = of_nat i" "drop_bit 22 (va p) = of_nat (i + 768)"
      unfolding drop_bit_22 v by (simp_all only: i_def)
  qed
  have low: "va p AND 0x3FFFFF = p AND 0x3FFFFF"
  proof -
    have "va p AND mask 22 = p AND mask 22"
      unfolding word_unat_eq_iff unat_mask_and v using mod_mult_self2 [of "unat p" "2 ^ 22" 768] by simp
    then show ?thesis by (simp add: huge_mask)
  qed
  show ?thesis
    using e i huge_split [OF i_def] unfolding mmu_walk_def Let_def di dir low by (simp only: if_True simp_thms) simp
qed

theorem paging_setup_direct_map_witness:
  "mmu_walk (\<lambda>_ _. 0)
     (paging_setup (\<lambda>_. 0) [\<lparr>base_addr_low = 0x100000, base_addr_high = 0, length_low = 0x7F00000, length_high = 0,
        mm_type = 1\<rparr>]) 0xC0234567 = Some 0x234567"
  using paging_setup_direct_map [of "\<lparr>base_addr_low = 0x100000, base_addr_high = 0, length_low = 0x7F00000,
      length_high = 0, mm_type = 1\<rparr>" "[\<lparr>base_addr_low = 0x100000, base_addr_high = 0, length_low = 0x7F00000,
      length_high = 0, mm_type = 1\<rparr>]" "0x234567" "\<lambda>_ _. 0" "\<lambda>_. 0"]
  by (simp add: map_start_def map_len_def va_def KERN_OFF_def)

end
