(* ===== verification/Paging_Walk.thy ===== *)
theory Paging_Walk
  imports Paging
begin

text \<open>
  What \<^verbatim>\<open>pagedir_get_or_new\<close> does to every translation: it maps one page and no other.
\<close>

lemma page_split:
  "drop_bit 12 (u :: u32) = drop_bit 12 v \<longleftrightarrow> drop_bit 22 u = drop_bit 22 v \<and> drop_bit 12 u AND 0x3FF = drop_bit 12 v AND 0x3FF"
proof
  assume a: "drop_bit 22 u = drop_bit 22 v \<and> drop_bit 12 u AND 0x3FF = drop_bit 12 v AND 0x3FF"
  have m: "(0x3FF :: u32) = mask 10" by (simp add: mask_eq_exp_minus_1)
  show "drop_bit 12 u = drop_bit 12 v"
  proof (rule bit_word_eqI)
    fix n assume n: "n < LENGTH(32)"
    have d: "bit (drop_bit 22 u) (n - 10) = bit (drop_bit 22 v) (n - 10)" "bit (drop_bit 12 u AND mask 10) n = bit (drop_bit 12 v AND mask 10) n"
      using a by (simp_all add: m)
    show "bit (drop_bit 12 u) n = bit (drop_bit 12 v) n"
    proof (cases "n < 10")
      case True
      then show ?thesis using d(2) n by (simp add: bit_simps)
    next
      case False
      then have "22 + (n - 10) = 12 + n" by simp
      then show ?thesis using d(1) by (simp add: bit_simps)
    qed
  qed
next
  assume a: "drop_bit 12 u = drop_bit 12 v"
  have "drop_bit 22 x = drop_bit 10 (drop_bit 12 x)" for x :: u32 by simp
  then show "drop_bit 22 u = drop_bit 22 v \<and> drop_bit 12 u AND 0x3FF = drop_bit 12 v AND 0x3FF" using a by metis
qed

lemma table_walk_other:
  assumes inv: "pmem_inv pm" and ok: "pd_ok pm tabs pd" and v: "0x400000 \<le> v" "v < KERN_OFF"
    and g: "get_or_new_table pm tabs pd (drop_bit 22 v) = (Some t, pm1, tabs1)"
    and u: "0x400000 \<le> u" "u < KERN_OFF"
  shows "mmu_walk tabs1 (tabs1 pd) u = mmu_walk tabs (tabs pd) u"
proof -
  note g1 = get_or_new_table [OF inv ok user_vaddr [OF v] g]
  show ?thesis
  proof (cases "tabs pd (drop_bit 22 u) = 0")
    case False
    then show ?thesis
      using g1(6) [OF user_vaddr [OF u]] unfolding mmu_walk_user [OF ok u] mmu_walk_user [OF g1(2) u] by simp
  next
    case True
    show ?thesis
    proof (cases "drop_bit 22 u = drop_bit 22 v")
      case same: True
      then have "tabs1 t = (\<lambda>_. 0)" using g1(7) True by simp
      then show ?thesis
        unfolding mmu_walk_user [OF ok u] mmu_walk_user [OF g1(2) u] using True g1(4) by (simp add: Let_def same)
    next
      case False
      obtain p pm' where a: "pmem_alloc pm 1 = (p, pm')" by fastforce
      have "p \<noteq> 0 \<Longrightarrow> pd \<noteq> p" using pmem_alloc_frame(3) [OF inv a] ok by (auto simp: pd_ok_def)
      then have "tabs1 pd (drop_bit 22 u) = 0"
        using True False g a by (auto simp: get_or_new_table_def Let_def split: if_splits)
      then show ?thesis unfolding mmu_walk_user [OF ok u] mmu_walk_user [OF g1(2) u] using True by simp
    qed
  qed
qed

lemma new_page_walk:
  assumes ok: "pd_ok pm tabs pd" "pd_ok pm' (tabs(t := (tabs t)(k := x))) pd" and v: "0x400000 \<le> v" "v < KERN_OFF"
    and t: "tabs pd (drop_bit 22 v) \<noteq> 0" "t = tabs pd (drop_bit 22 v) AND 0xFFFFF000"
    and k: "k = drop_bit 12 v AND 0x3FF" and x: "x \<noteq> 0" "x AND 0xFFFFF000 = page"
    and u: "0x400000 \<le> u" "u < KERN_OFF"
  shows "mmu_walk (tabs(t := (tabs t)(k := x))) ((tabs(t := (tabs t)(k := x))) pd) u =
    (if drop_bit 12 u = drop_bit 12 v then Some (page OR (u AND 0xFFF)) else mmu_walk tabs (tabs pd) u)"
proof -
  have npd: "t \<noteq> pd" using pd_okD(1) [OF ok(1) user_vaddr [OF v] t(1)] by (auto simp: pde_ok_def t(2))
  then have pd': "(tabs(t := (tabs t)(k := x))) pd = tabs pd" by simp
  have inj: "drop_bit 22 u = drop_bit 22 v" if "tabs pd (drop_bit 22 u) \<noteq> 0" "tabs pd (drop_bit 22 u) AND 0xFFFFF000 = t"
    using pd_okD(2) [OF ok(1) user_vaddr [OF v] t(1) user_vaddr [OF u] that(1)] that(2) t(2) by simp
  show ?thesis
  proof (cases "drop_bit 22 u = drop_bit 22 v")
    case True
    show ?thesis
      unfolding mmu_walk_user [OF ok(2) u] mmu_walk_user [OF ok(1) u] unfolding pd' page_split True
      using t(1) x npd by (simp add: Let_def k t(2) [symmetric])
  next
    case False
    then have "tabs pd (drop_bit 22 u) = 0 \<or> tabs pd (drop_bit 22 u) AND 0xFFFFF000 \<noteq> t" using inj by blast
    then show ?thesis
      unfolding mmu_walk_user [OF ok(2) u] mmu_walk_user [OF ok(1) u] unfolding pd' page_split
      using False by (auto simp: Let_def)
  qed
qed

text \<open>The exact effect on every user address above the first 4 MB.\<close>

lemma get_or_new_walk:
  assumes inv: "pmem_inv pm" and ok: "pd_ok pm tabs pd" and v: "0x400000 \<le> v" "v < KERN_OFF"
    and r: "pagedir_get_or_new pm tabs pd v msk = (p, pm', tabs')" "p \<noteq> 0" and u: "0x400000 \<le> u" "u < KERN_OFF"
  shows "mmu_walk tabs' (tabs' pd) u = (if drop_bit 12 u = drop_bit 12 v then Some (p OR (u AND 0xFFF)) else mmu_walk tabs (tabs pd) u)"
proof -
  let ?i = "drop_bit 22 v" and ?k = "drop_bit 12 v AND 0x3FF"
  have m: "mapped pm tabs pd v p pm' tabs'" by (rule get_or_new_ok [OF inv ok v r(1)])
  obtain t pm1 tabs1 where g: "get_or_new_table pm tabs pd ?i = (Some t, pm1, tabs1)"
    using r v by (auto simp: pagedir_get_or_new_def PDE_SHIFT_def PTE_SHIFT_def Let_def split: option.splits prod.splits)
  note g1 = get_or_new_table [OF inv ok user_vaddr [OF v] g]
  note w1 = table_walk_other [OF inv ok v g u]
  show ?thesis
  proof (cases "tabs1 t ?k = 0")
    case False
    then have "p = tabs1 t ?k AND 0xFFFFF000" "tabs' = tabs1"
      using r g v by (auto simp: pagedir_get_or_new_def PDE_SHIFT_def PTE_SHIFT_def Let_def)
    moreover have "mmu_walk tabs1 (tabs1 pd) u = Some ((tabs1 t ?k AND 0xFFFFF000) OR (u AND 0xFFF))" if "drop_bit 12 u = drop_bit 12 v"
      using that g1(3,4) False unfolding page_split by (simp add: mmu_walk_user [OF g1(2) u] Let_def)
    ultimately show ?thesis using w1 by simp
  next
    case True
    obtain page pm2 where a: "pmem_alloc pm1 1 = (page, pm2)" by fastforce
    let ?x = "set_index (msk OR 0x5) (drop_bit 12 page)"
    have np: "page \<noteq> 0" "p = ?x AND 0xFFFFF000" "pm' = pm2" "tabs' = tabs1(t := (tabs1 t)(?k := ?x))"
      using r g v a True by (auto simp: pagedir_get_or_new_def PDE_SHIFT_def PTE_SHIFT_def Let_def split: if_splits)
    have x: "?x \<noteq> 0" using np(2) r(2) by auto
    have "pd_ok pm' tabs' pd" using m by (simp add: mapped_def)
    from new_page_walk [OF g1(2) this [unfolded np(4)] v g1(3) g1(4) [symmetric] refl x np(2) [symmetric] u]
    show ?thesis unfolding np(4) w1 .
  qed
qed

end
