(* ===== verification/Proc_Mem.thy ===== *)
theory Proc_Mem
  imports Process Paging_Walk
begin

text \<open>
  The memory of processes in \<^verbatim>\<open>src/core/process.c\<close>: growing the stack and the heap, and loading the segments of an ELF
  image.  The state is the frame allocator, the page tables and the bytes of memory at their kernel addresses.  The
  page loops that may not end for all inputs are \<open>None\<close> when they do not.
\<close>

section \<open>State\<close>

record umem =
  um_pm :: pmem
  um_tabs :: page_tables
  um_mem :: bytemem

definition user_mask :: u32 where
  "user_mask = 2 OR 4"

definition get_page :: "u32 \<Rightarrow> u32 \<Rightarrow> umem \<Rightarrow> u32 \<times> umem" where
  "get_page pagedir vaddr u =
     (let (paddr, pm, tabs) = pagedir_get_or_new (um_pm u) (um_tabs u) pagedir vaddr user_mask
      in (paddr, u\<lparr>um_pm := pm, um_tabs := tabs\<rparr>))"

text \<open>What the processor reads at a user address.\<close>

definition user_byte :: "umem \<Rightarrow> u32 \<Rightarrow> u32 \<Rightarrow> u8 option" where
  "user_byte u pagedir v = map_option (\<lambda>p. um_mem u (va p)) (mmu_walk (um_tabs u) (um_tabs u pagedir) v)"

section \<open>Stack and heap\<close>

definition USER_STACK_TOP :: u32 where "USER_STACK_TOP = KERN_OFF - PAGE_BYTES"

partial_function (option) grow_loop :: "u32 \<Rightarrow> u32 \<Rightarrow> u32 \<Rightarrow> umem \<Rightarrow> (int \<times> u32 \<times> umem) option" where
  "grow_loop pagedir faultaddr userstack u =
     (if userstack > faultaddr then
        let ustack = userstack - PAGE_BYTES;
            (paddr, u) = get_page pagedir ustack u
        in if paddr = 0 then Some (-1, userstack, u)
           else grow_loop pagedir faultaddr ustack (u\<lparr>um_mem := memset (um_mem u) (va paddr) 0 PAGE_BYTES\<rparr>)
      else Some (0, userstack, u))"

definition process_grow_stack :: "u32 \<Rightarrow> process \<Rightarrow> u32 \<Rightarrow> umem \<Rightarrow> (int \<times> process \<times> umem) option" where
  "process_grow_stack pagedir proc faultaddr u =
     do { (ret, userstack, u) \<leftarrow> grow_loop pagedir faultaddr (ps_userstack proc) u;
          Some (ret, proc\<lparr>ps_userstack := userstack\<rparr>, u) }"

lemma get_page_user: "get_page pagedir vaddr u = (paddr, u') \<Longrightarrow> paddr \<noteq> 0 \<Longrightarrow> vaddr < KERN_OFF"
  by (auto simp: get_page_def pagedir_get_or_new_def split: if_splits prod.splits)

lemma page_step: "vaddr < KERN_OFF \<Longrightarrow> unat (vaddr + PAGE_BYTES) = unat vaddr + 4096"
  by (subst unat_add_nowrap) (simp_all add: word_less_nat_alt KERN_OFF_def PAGE_BYTES_def)

text \<open>The heap loop always ends: no page is given above the user's part of memory.\<close>

function brk_loop :: "u32 \<Rightarrow> u32 \<Rightarrow> u32 \<Rightarrow> umem \<Rightarrow> u32 option \<times> umem" where
  "brk_loop pagedir brk vaddr u =
     (if vaddr < brk then
        case get_page pagedir vaddr u of
          (paddr, u') \<Rightarrow> if paddr = 0 then (None, u') else brk_loop pagedir brk (vaddr + PAGE_BYTES) u'
      else (Some vaddr, u))"
  by pat_completeness auto
termination
proof (relation "measure (\<lambda>(_, _, vaddr, _). 2 ^ 32 - unat vaddr)")
  fix pagedir brk vaddr :: u32 and u x :: umem and paddr u' assume a: "vaddr < brk" "(paddr, u') = get_page pagedir vaddr u" "paddr \<noteq> 0"
  then have "vaddr < KERN_OFF" using get_page_user [OF a(2) [symmetric]] by simp
  then show "((pagedir, brk, vaddr + PAGE_BYTES, u'), (pagedir, brk, vaddr, u)) \<in> measure (\<lambda>(_, _, vaddr, _). 2 ^ 32 - unat vaddr)"
    using page_step [of vaddr] u32_bound [of vaddr] by simp
qed simp

declare brk_loop.simps [simp del]

definition sys_brk :: "u32 \<Rightarrow> process \<Rightarrow> u32 \<Rightarrow> umem \<Rightarrow> u32 \<times> process \<times> umem" where
  "sys_brk pagedir proc brk u =
     (if brk = 0 then (ps_heap_end proc, proc, u)
      else case brk_loop pagedir brk (ps_heap_end proc) u of
             (None, u) \<Rightarrow> (0, proc, u)
           | (Some vaddr, u) \<Rightarrow> (vaddr, proc\<lparr>ps_heap_end := vaddr\<rparr>, u))"

section \<open>ELF segments\<close>

record elf32_phdr =
  p_type :: u32
  p_offset :: u32
  p_vaddr :: u32
  p_paddr :: u32
  p_filesz :: u32
  p_memsz :: u32
  p_flags :: u32
  p_align :: u32

text \<open>Filling the bytes of a page from the image and with zeroes behind them.\<close>

definition fill_page :: "bytemem \<Rightarrow> u32 \<Rightarrow> u32 \<Rightarrow> u32 \<Rightarrow> u32 \<Rightarrow> bytemem" where
  "fill_page m page src bytes_to_copy len =
     memset (memcpy m page src bytes_to_copy) (page + bytes_to_copy) 0 (len - bytes_to_copy)"

definition load_first :: "elf32_phdr \<Rightarrow> u32 \<Rightarrow> u32 \<Rightarrow> umem \<Rightarrow> (int \<times> umem) + (u32 \<times> umem)" where
  "load_first hdr elfmem pagedir u =
     (if p_vaddr hdr AND 0xFFF \<noteq> 0 then
        let vaddr = p_vaddr hdr AND 0xFFFFF000;
            voff = p_vaddr hdr AND 0xFFF;
            sz = PAGE_BYTES - voff;
            (paddr, u) = get_page pagedir vaddr u
        in if paddr = 0 then Inl (- errno_code ENOMEM, u)
           else
             let bytes_to_copy = (if sz > p_filesz hdr then p_filesz hdr else sz)
             in Inr (sz, u\<lparr>um_mem := fill_page (um_mem u) (va paddr + voff) (elfmem + p_offset hdr) bytes_to_copy sz\<rparr>)
      else Inr (0, u))"

partial_function (option) load_pages :: "elf32_phdr \<Rightarrow> u32 \<Rightarrow> u32 \<Rightarrow> u32 \<Rightarrow> umem \<Rightarrow> (int \<times> umem) option" where
  "load_pages hdr elfmem pagedir off u =
     (if off < p_memsz hdr then
        let (paddr, u) = get_page pagedir (p_vaddr hdr + off) u in
        if paddr = 0 then Some (- errno_code ENOMEM, u)
        else
          let bytes_to_copy = (if off < p_filesz hdr then
                                 if p_filesz hdr - off > PAGE_BYTES then PAGE_BYTES else p_filesz hdr - off
                               else 0)
          in load_pages hdr elfmem pagedir (off + PAGE_BYTES)
               (u\<lparr>um_mem := fill_page (um_mem u) (va paddr) (elfmem + p_offset hdr + off) bytes_to_copy PAGE_BYTES\<rparr>)
      else Some (0, u))"

definition process_segment_from_memory :: "elf32_phdr \<Rightarrow> u32 \<Rightarrow> u32 \<Rightarrow> umem \<Rightarrow> (int \<times> umem) option" where
  "process_segment_from_memory hdr elfmem pagedir u =
     (if p_align hdr \<noteq> PAGE_BYTES then Some (- errno_code EINVAL, u)
      else case load_first hdr elfmem pagedir u of
             Inl r \<Rightarrow> Some r
           | Inr (off, u) \<Rightarrow> load_pages hdr elfmem pagedir off u)"

end
