(* ===== verification/Elf_Load.thy ===== *)
theory Elf_Load
  imports Proc_Mem
begin

text \<open>
  Loading an ELF segment puts its bytes, and zeroes behind them, at its user addresses.
\<close>

section \<open>Pages\<close>

lemma page_of: "drop_bit 12 (a :: u32) = drop_bit 12 b \<longleftrightarrow> unat a div 4096 = unat b div 4096"
proof -
  have "unat (drop_bit 12 x) = unat x div 4096" for x :: u32 by (simp add: drop_bit_eq_div unat_div)
  then show ?thesis by (metis word_unat_eq_iff)
qed

lemma frame_offset:
  assumes "unat (p :: u32) mod 4096 = 0"
  shows "unat (p OR (a AND 0xFFF)) = unat p + unat a mod 4096"
proof -
  have m: "(0xFFF :: u32) = mask 12" by (simp add: mask_eq_exp_minus_1)
  have z: "p AND mask 12 = 0" using assms unat_mask_and [of p 12] by (simp flip: unat_eq_0)
  have low: "\<not> bit p i" if "i < 12" for i using arg_cong [OF z, of "\<lambda>x. bit x i"] that by (auto simp: bit_simps)
  have "p OR (a AND mask 12) = p + (a AND mask 12)"
    by (rule disjunctive_add [symmetric]) (use low in \<open>auto simp: bit_simps\<close>)
  moreover have "unat (a AND mask 12) = unat a mod 4096" by (simp add: unat_mask_and)
  moreover have "unat p + unat a mod 4096 < 2 ^ 32"
  proof -
    obtain k where k: "unat p = 4096 * k" using assms by (meson mod_eq_0_iff_dvd dvdE)
    then have "k < 1048576" using u32_bound [of p] by simp
    moreover have "unat a mod 4096 < 4096" by simp
    ultimately show ?thesis unfolding k by simp
  qed
  ultimately show ?thesis unfolding m by (simp add: unat_add_nowrap)
qed

lemma page_base_unat: "unat (a AND 0xFFFFF000 :: u32) = 4096 * (unat a div 4096)"
proof -
  have "a AND 0xFFFFF000 = a - (a AND mask 12)" unfolding page_mask by (rule word_and_not_self)
  moreover have "unat (a AND mask 12) = unat a mod 4096" by (simp add: unat_mask_and)
  ultimately have "unat (a AND 0xFFFFF000) = unat a - unat a mod 4096" by (simp add: unat_sub_nowrap)
  then show ?thesis by (simp add: minus_mod_eq_mult_div)
qed

section \<open>Filling\<close>

lemma unat_minus_u32: "(x :: u32) \<noteq> 0 \<Longrightarrow> unat (- x) = 2 ^ 32 - unat x"
proof -
  assume x: "x \<noteq> 0"
  have "unat (x + - x) = (unat x + unat (- x)) mod 2 ^ 32" by (subst unat_word_ariths(1)) simp
  then have "(unat x + unat (- x)) mod 2 ^ 32 = 0" by simp
  then obtain j where j: "unat x + unat (- x) = 2 ^ 32 * j" by (meson mod_eq_0_iff_dvd dvdE)
  have "0 < unat x" using x by (simp add: unat_gt_0)
  then have "0 < j" "j < 2" using j u32_bound [of x] u32_bound [of "- x"] by (auto intro: gr0I)
  then have "j = 1" by simp
  then show "unat (- x) = 2 ^ 32 - unat x" using j by simp
qed

lemma fill_page_eq:
  assumes "btc = 0 \<or> unat src + btc \<le> unat page" "unat page + len \<le> 2 ^ 32" "btc \<le> len" "len < 2 ^ 32"
  shows "fill_page m page src (of_nat btc) (of_nat len) a =
    (if unat (a - page) < btc then m (src + (a - page)) else if unat (a - page) < len then 0 else m a)"
proof -
  define k where "k = unat (a - page)"
  have b: "unat (of_nat btc :: u32) = btc" "unat (of_nat len :: u32) = len" using assms(3,4) by (simp_all add: unat_of_nat_u32)
  have l: "unat (of_nat len - of_nat btc :: u32) = len - btc" using b assms(3) by (simp add: unat_sub_nowrap)
  have c: "memcpy m page src (of_nat btc) = copied m page src btc"
    using memcpy_eq_copied [of src "of_nat btc" page m] assms(1) u32_bound [of page] u32_bound [of src] linear [of "unat page" "unat src"] unfolding b(1) by auto
  have d: "unat (a - (page + of_nat btc)) < len - btc \<longleftrightarrow> btc \<le> k \<and> k < len"
  proof (cases "btc \<le> k")
    case True
    then have "unat (a - page - of_nat btc) = k - btc" using b(1) by (simp add: unat_sub_nowrap k_def)
    then show ?thesis using True by (auto simp: algebra_simps)
  next
    case False
    define w where "w = (of_nat (btc - k) :: u32)"
    have e: "a - (page + of_nat btc) = - w" using False by (simp add: w_def of_nat_diff k_def algebra_simps)
    have w: "unat w = btc - k" unfolding w_def by (rule unat_of_nat_u32) (use assms(3,4) in simp)
    then have "w \<noteq> 0" using False by auto
    from unat_minus_u32 [OF this] have "unat (- w) = 2 ^ 32 - (btc - k)" unfolding w .
    then show ?thesis unfolding e using False assms(3,4) by simp
  qed
  show ?thesis unfolding fill_page_def memset_eq l c d copied_range_def k_def [symmetric] using assms(3) by auto
qed

lemma fill_page_below:
  assumes "btc = 0 \<or> unat src + btc \<le> unat page" "unat page + len \<le> 2 ^ 32" "btc \<le> len" "len < 2 ^ 32" "unat a < unat page"
  shows "fill_page m page src (of_nat btc) (of_nat len) a = m a"
proof -
  have "page - a \<noteq> 0" using assms(5) by auto
  from unat_minus_u32 [OF this] have "unat (a - page) = 2 ^ 32 - (unat page - unat a)"
    using assms(5) by (simp add: unat_sub_nowrap)
  then have "len \<le> unat (a - page)" using assms(2,5) by simp
  then show ?thesis unfolding fill_page_eq [OF assms(1-4)] using assms(3) by simp
qed

section \<open>Getting a page\<close>

text \<open>A page at an address that has none.\<close>

abbreviation edge :: "umem \<Rightarrow> nat" where
  "edge u \<equiv> unat (theEdgeOfAllocatedMemory (um_pm u))"

abbreviation walk :: "umem \<Rightarrow> u32 \<Rightarrow> u32 \<Rightarrow> u32 option" where
  "walk u pd v \<equiv> mmu_walk (um_tabs u) (um_tabs u pd) v"

definition um_ok :: "umem \<Rightarrow> u32 \<Rightarrow> bool" where
  "um_ok u pd \<longleftrightarrow> pmem_inv (um_pm u) \<and> pd_ok (um_pm u) (um_tabs u) pd \<and> unat (theEndOfUpperMemory (um_pm u)) \<le> 0x40000"

lemma get_page_fresh:
  assumes ok: "um_ok u pd" and v: "0x400000 \<le> v" "v < KERN_OFF" and r: "get_page pd v u = (p, u')"
  shows "um_ok u' pd" "um_mem u' = um_mem u" "edge u \<le> edge u'" "edge u' \<le> 0x40000"
    "p = 0 \<Longrightarrow> fst (pmem_alloc (um_pm u') 1) = 0"
    "\<And>a x. 0x400000 \<le> a \<Longrightarrow> a < KERN_OFF \<Longrightarrow> walk u pd a = Some x \<Longrightarrow> walk u' pd a = Some x"
    "p \<noteq> 0 \<Longrightarrow> walk u pd v = None \<Longrightarrow> unat p mod 4096 = 0 \<and> 4096 * edge u \<le> unat p \<and> unat p < 4096 * edge u'"
    "\<And>a. p \<noteq> 0 \<Longrightarrow> 0x400000 \<le> a \<Longrightarrow> a < KERN_OFF \<Longrightarrow>
       walk u' pd a = (if unat a div 4096 = unat v div 4096 then Some (p OR (a AND 0xFFF)) else walk u pd a)"
proof -
  note o = ok [unfolded um_ok_def]
  obtain fa' tabs' where g: "pagedir_get_or_new (um_pm u) (um_tabs u) pd v user_mask = (p, fa', tabs')"
      "u' = u\<lparr>um_pm := fa', um_tabs := tabs'\<rparr>"
    using r by (auto simp: get_page_def Let_def split: prod.splits)
  have m: "mapped (um_pm u) (um_tabs u) pd v p fa' tabs'" using o get_or_new_ok [OF _ _ v g(1)] by blast
  have mono: "theEndOfUpperMemory fa' = theEndOfUpperMemory (um_pm u)" "edge u \<le> unat (theEdgeOfAllocatedMemory fa')"
    using o get_or_new_mono [OF _ g(1)] by auto
  then show "um_ok u' pd" "um_mem u' = um_mem u" "edge u \<le> edge u'" "edge u' \<le> 0x40000"
    using m o by (auto simp: um_ok_def g(2) mapped_def pmem_inv_def)
  show "p = 0 \<Longrightarrow> fst (pmem_alloc (um_pm u') 1) = 0" using m by (simp add: mapped_def g(2))
  show "walk u' pd a = Some x" if "0x400000 \<le> a" "a < KERN_OFF" "walk u pd a = Some x" for a x
    using m that unfolding mapped_def g(2) by simp
  show "p \<noteq> 0 \<Longrightarrow> walk u pd v = None \<Longrightarrow> unat p mod 4096 = 0 \<and> 4096 * edge u \<le> unat p \<and> unat p < 4096 * edge u'"
    using m by (auto simp: mapped_def frame_ok_def g(2))
  show "walk u' pd a = (if unat a div 4096 = unat v div 4096 then Some (p OR (a AND 0xFFF)) else walk u pd a)"
    if "p \<noteq> 0" "0x400000 \<le> a" "a < KERN_OFF" for a
    using get_or_new_walk [OF _ _ v g(1) that] o unfolding page_of by (simp add: g(2))
qed

lemma walk_page:
  assumes "um_ok u pd" and a: "0x400000 \<le> a" "a < KERN_OFF" and b: "0x400000 \<le> b" "b < KERN_OFF"
    and p: "unat a div 4096 = unat b div 4096" and n: "walk u pd a = None"
  shows "walk u pd b = None"
proof -
  have ok: "pd_ok (um_pm u) (um_tabs u) pd" using assms(1) by (simp add: um_ok_def)
  have "drop_bit 22 a = drop_bit 22 b" "drop_bit 12 a AND 0x3FF = drop_bit 12 b AND 0x3FF"
    using p unfolding page_of [symmetric] page_split by auto
  then show ?thesis using n unfolding mmu_walk_user [OF ok a] mmu_walk_user [OF ok b] by (simp add: Let_def split: if_splits)
qed

lemma walk_edge:
  assumes "um_ok u pd" and a: "0x400000 \<le> a" "a < KERN_OFF" and w: "walk u pd a = Some p"
  shows "unat p < 4096 * edge u"
proof -
  have ok: "pd_ok (um_pm u) (um_tabs u) pd" using assms(1) by (simp add: um_ok_def)
  let ?w = "um_tabs u pd (drop_bit 22 a)"
  let ?x = "um_tabs u (?w AND 0xFFFFF000) (drop_bit 12 a AND 0x3FF)"
  have x: "?w \<noteq> 0" "?x \<noteq> 0" "p = (?x AND 0xFFFFF000) OR (a AND 0xFFF)"
    using w unfolding mmu_walk_user [OF ok a] by (auto simp: Let_def split: if_splits)
  then have "frame_ok (um_pm u) (?x AND 0xFFFFF000)"
    using pd_okD(1) [OF ok user_vaddr [OF a]] by (auto simp: pde_ok_def table_ok_def)
  then obtain k where k: "unat (?x AND 0xFFFFF000) = 4096 * k" "k < edge u" "unat (?x AND 0xFFFFF000) mod 4096 = 0"
    by (auto simp: frame_ok_def elim!: dvdE)
  have "unat a mod 4096 < 4096" by simp
  then show ?thesis unfolding x(3) frame_offset [OF k(3)] k(1) using k(2) by linarith
qed

section \<open>Segments\<close>

definition seg_byte :: "elf32_phdr \<Rightarrow> u32 \<Rightarrow> umem \<Rightarrow> nat \<Rightarrow> u8" where
  "seg_byte hdr elfmem u i = (if i < unat (p_filesz hdr) then um_mem u (elfmem + p_offset hdr + of_nat i) else 0)"

definition seg_ok :: "elf32_phdr \<Rightarrow> u32 \<Rightarrow> u32 \<Rightarrow> umem \<Rightarrow> bool" where
  "seg_ok hdr elfmem pd u \<longleftrightarrow> um_ok u pd \<and> 0x400000 \<le> p_vaddr hdr \<and> 0 < p_memsz hdr \<and>
     unat (p_vaddr hdr) + unat (p_memsz hdr) \<le> unat KERN_OFF \<and> p_filesz hdr \<le> p_memsz hdr \<and>
     unat (elfmem + p_offset hdr) + unat (p_filesz hdr) \<le> unat KERN_OFF + 4096 * edge u \<and>
     (\<forall>i < unat (p_memsz hdr). walk u pd (p_vaddr hdr + of_nat i) = None)"

definition seg_inv :: "elf32_phdr \<Rightarrow> u32 \<Rightarrow> u32 \<Rightarrow> umem \<Rightarrow> nat \<Rightarrow> umem \<Rightarrow> bool" where
  "seg_inv hdr elfmem pd u0 off u \<longleftrightarrow> um_ok u pd \<and> edge u0 \<le> edge u \<and>
     (\<forall>a x. 0x400000 \<le> a \<longrightarrow> a < KERN_OFF \<longrightarrow> walk u0 pd a = Some x \<longrightarrow> walk u pd a = Some x) \<and>
     (\<forall>a. unat a < unat KERN_OFF + 4096 * edge u0 \<longrightarrow> um_mem u a = um_mem u0 a) \<and>
     (\<forall>i < unat (p_memsz hdr). if off \<le> i then walk u pd (p_vaddr hdr + of_nat i) = None
        else \<exists>p. walk u pd (p_vaddr hdr + of_nat i) = Some p \<and> unat p < 4096 * edge u \<and>
          um_mem u (va p) = seg_byte hdr elfmem u0 i)"

lemma seg_address:
  assumes "seg_ok hdr elfmem pd u" "i < unat (p_memsz hdr)"
  shows "unat (p_vaddr hdr + of_nat i) = unat (p_vaddr hdr) + i" "0x400000 \<le> p_vaddr hdr + of_nat i" "p_vaddr hdr + of_nat i < KERN_OFF"
proof -
  have b: "unat (p_vaddr hdr) + i < 3221225472" "4194304 \<le> unat (p_vaddr hdr)"
    using assms by (auto simp: seg_ok_def KERN_OFF_def word_le_nat_alt)
  then have "unat (of_nat i :: u32) = i" by (simp add: unat_of_nat_u32)
  then show u: "unat (p_vaddr hdr + of_nat i) = unat (p_vaddr hdr) + i" using b by (simp add: unat_add_nowrap)
  show "0x400000 \<le> p_vaddr hdr + of_nat i" "p_vaddr hdr + of_nat i < KERN_OFF"
    using b unfolding word_le_nat_alt word_less_nat_alt u by (simp_all add: KERN_OFF_def)
qed

lemma va_unat: "unat p < 0x40000000 \<Longrightarrow> unat (va p) = unat p + 3221225472"
  by (simp add: va_def KERN_OFF_def unat_add_nowrap)

lemma user_page:
  assumes "0x400000 \<le> (a :: u32)" "a < KERN_OFF" "unat v div 4096 = unat a div 4096"
  shows "0x400000 \<le> v" "v < KERN_OFF"
proof -
  have "4194304 \<le> unat a" "unat a < 3221225472" using assms(1,2) by (simp_all add: word_le_nat_alt word_less_nat_alt KERN_OFF_def)
  then have "1024 \<le> unat a div 4096 \<and> unat a div 4096 < 786432"
    by (simp add: less_eq_div_iff_mult_less_eq div_less_iff_less_mult)
  then have "4194304 \<le> unat v \<and> unat v < 3221225472"
    unfolding assms(3) [symmetric] by (simp add: less_eq_div_iff_mult_less_eq div_less_iff_less_mult)
  then show "0x400000 \<le> v" "v < KERN_OFF" by (simp_all add: word_le_nat_alt word_less_nat_alt KERN_OFF_def)
qed

lemma same_page:
  assumes "off \<le> j"
  shows "(s + j) div 4096 = (s + off) div (4096 :: nat) \<longleftrightarrow> j < off + (4096 - (s + off) mod 4096)"
proof -
  obtain k where k: "j = off + k" using assms le_Suc_ex by blast
  define q c where "q = (s + off) div 4096" and "c = (s + off) mod 4096"
  then have c: "s + off = 4096 * q + c" "c < 4096" by simp_all
  have "(4096 * q + (c + k)) div 4096 = q \<longleftrightarrow> c + k < 4096" by (simp add: div_eq_0_iff)
  moreover have "s + j = 4096 * q + (c + k)" using c k by simp
  ultimately show ?thesis unfolding q_def [symmetric] c_def [symmetric] using c(2) k by auto
qed

lemma same_page_offset:
  assumes "off \<le> j" "j < off + (4096 - (s + off) mod 4096)"
  shows "(s + j) mod 4096 = (s + off) mod (4096 :: nat) + (j - off)"
proof -
  have "(s + j) div 4096 = (s + off) div 4096" using assms same_page by simp
  then show ?thesis using div_mult_mod_eq [of "s + j" 4096] div_mult_mod_eq [of "s + off" 4096] assms(1) by linarith
qed

text \<open>Mapping and filling the page of the next byte.\<close>

lemma seg_fill:
  assumes s: "seg_ok hdr elfmem pd u0" and p: "unat p mod 4096 = 0" "4096 * edge u0 \<le> unat p" "unat p < 4096 * e" "e \<le> 0x40000"
    and m: "\<forall>a. unat a < unat KERN_OFF + 4096 * edge u0 \<longrightarrow> m a = um_mem u0 a" and r: "r < 4096"
    and btc: "btc = min (4096 - r) (unat (p_filesz hdr) - off)"
    and m': "m' = fill_page m (va p + of_nat r) (elfmem + p_offset hdr + of_nat off) (of_nat btc) (of_nat (4096 - r))"
  shows "k < 4096 - r \<Longrightarrow> unat q = unat p + r + k \<Longrightarrow> m' (va q) = seg_byte hdr elfmem u0 (off + k)"
    and "unat a < unat KERN_OFF + unat p \<Longrightarrow> m' a = m a"
proof -
  obtain j where j: "unat p = 4096 * j" using p(1) by (meson mod_eq_0_iff_dvd dvdE)
  have pe: "unat p + 4096 \<le> 4096 * e" using p(3) unfolding j by simp
  have r': "unat (of_nat r :: u32) = r" using r by (simp add: unat_of_nat_u32)
  have d: "unat (va p + of_nat r) = unat p + 3221225472 + r"
    using pe p(4) r by (simp add: unat_add_nowrap va_unat r')
  let ?src = "elfmem + p_offset hdr + of_nat off :: u32"
  have im: "unat (elfmem + p_offset hdr) + unat (p_filesz hdr) \<le> 3221225472 + 4096 * edge u0"
    using s by (simp add: seg_ok_def KERN_OFF_def)
  have src: "unat (?src + of_nat k) = unat (elfmem + p_offset hdr) + off + k" "off + k < unat (p_filesz hdr)" if "k < btc" for k
  proof -
    have k: "off + k < unat (p_filesz hdr)" using that unfolding btc by linarith
    have "unat (elfmem + p_offset hdr) + (off + k) < 2 ^ 32" using k im p(2) pe p(4) by simp
    moreover have "unat (of_nat (off + k) :: u32) = off + k" by (rule unat_of_nat_u32) (use calculation in simp)
    ultimately have "unat (elfmem + p_offset hdr + of_nat (off + k)) = unat (elfmem + p_offset hdr) + (off + k)"
      by (simp only: unat_add_nowrap)
    then show "unat (?src + of_nat k) = unat (elfmem + p_offset hdr) + off + k" "off + k < unat (p_filesz hdr)"
      using k by (simp_all add: add.assoc)
  qed
  have f1: "btc = 0 \<or> unat ?src + btc \<le> unat (va p + of_nat r)" using src [of 0] btc im p(2) unfolding d by fastforce
  have f2: "unat (va p + of_nat r) + (4096 - r) \<le> 2 ^ 32" "btc \<le> 4096 - r" "4096 - r < (2 :: nat) ^ 32"
    using pe p(4) r btc unfolding d by auto
  show "m' (va q) = seg_byte hdr elfmem u0 (off + k)" if k: "k < 4096 - r" "unat q = unat p + r + k"
  proof -
    have "unat (va q) = unat (va p + of_nat r) + k" unfolding d using k pe p(4) by (simp add: va_unat)
    then have e: "unat (va q - (va p + of_nat r)) = k" by (simp add: unat_sub_nowrap)
    have ke: "va q - (va p + of_nat r) = of_nat k" unfolding e [symmetric] by simp
    have sk: "m (?src + of_nat k) = um_mem u0 (elfmem + p_offset hdr + of_nat (off + k))" if "k < btc"
      using m [rule_format, of "?src + of_nat k"] src [OF that] im by (simp add: KERN_OFF_def add.assoc)
    have "off + k < unat (p_filesz hdr) \<longleftrightarrow> k < btc" unfolding btc min_less_iff_conj using k by auto
    then show ?thesis
      unfolding m' fill_page_eq [OF f1 f2] e seg_byte_def unfolding ke using k sk by simp
  qed
  show "m' a = m a" if "unat a < unat KERN_OFF + unat p"
    unfolding m' by (rule fill_page_below [OF f1 f2]) (use that in \<open>simp add: d KERN_OFF_def\<close>)
qed

lemma seg_step:
  assumes s: "seg_ok hdr elfmem pd u0" and inv: "seg_inv hdr elfmem pd u0 off u" and off: "off < unat (p_memsz hdr)"
    and r: "r = unat (p_vaddr hdr + of_nat off) mod 4096" and v: "unat v div 4096 = unat (p_vaddr hdr + of_nat off) div 4096"
    and btc: "btc = min (4096 - r) (unat (p_filesz hdr) - off)" and g: "get_page pd v u = (p, u1)" "p \<noteq> 0"
    and u': "u' = u1\<lparr>um_mem := fill_page (um_mem u1) (va p + of_nat r) (elfmem + p_offset hdr + of_nat off) (of_nat btc) (of_nat (4096 - r))\<rparr>"
  shows "seg_inv hdr elfmem pd u0 (off + (4096 - r)) u'"
proof -
  let ?A = "\<lambda>i. p_vaddr hdr + of_nat i :: u32"
  note i = inv [unfolded seg_inv_def] and A = seg_address [OF s]
  have uv: "0x400000 \<le> v" "v < KERN_OFF" by (rule user_page [OF A(2,3) [OF off] v])+
  have none: "walk u pd v = None"
    by (rule walk_page [OF _ A(2,3) [OF off] uv v [symmetric]]) (use i off in auto)
  have ok: "um_ok u pd" and e0: "edge u0 \<le> edge u" using i by blast+
  note f = get_page_fresh [OF ok uv g(1)]
  have p: "unat p mod 4096 = 0" "4096 * edge u \<le> unat p" "unat p < 4096 * edge u1" using f(7) [OF g(2) none] by auto
  have p0: "4096 * edge u0 \<le> unat p" using p(2) e0 by simp
  have m: "\<forall>a. unat a < unat KERN_OFF + 4096 * edge u0 \<longrightarrow> um_mem u1 a = um_mem u0 a" unfolding f(2) using i by blast
  have r4: "r < 4096" by (simp add: r)
  note F = seg_fill [OF s p(1) p0 p(3) f(4) m r4 btc refl, folded u']
  have old: "um_mem u' (va q) = um_mem u (va q)" if "unat q < 4096 * edge u" for q
    using F(2) [of "va q"] that p(2,3) f(2,4) by (simp add: u' va_unat KERN_OFF_def)
  have at: "if off + (4096 - r) \<le> j then walk u' pd (?A j) = None
      else \<exists>q. walk u' pd (?A j) = Some q \<and> unat q < 4096 * edge u' \<and> um_mem u' (va q) = seg_byte hdr elfmem u0 j"
    if j: "j < unat (p_memsz hdr)" for j
  proof (cases "off \<le> j")
    case False
    then obtain q where q: "walk u pd (?A j) = Some q" "unat q < 4096 * edge u" "um_mem u (va q) = seg_byte hdr elfmem u0 j"
      using i j by (auto split: if_splits)
    then have "walk u' pd (?A j) = Some q" using f(6) [OF A(2,3) [OF j]] by (simp add: u')
    then show ?thesis using False q f(3) old by (auto simp: u')
  next
    case True
    have w: "walk u' pd (?A j) = (if j < off + (4096 - r) then Some (p OR (?A j AND 0xFFF)) else None)"
    proof -
      have "unat (?A j) div 4096 = unat v div 4096 \<longleftrightarrow> j < off + (4096 - r)"
        using True unfolding v r A(1) [OF j] A(1) [OF off] by (rule same_page)
      moreover have "walk u pd (?A j) = None" using i j True by auto
      ultimately show ?thesis using f(8) [OF g(2) A(2,3) [OF j]] by (simp add: u')
    qed
    have "unat (p OR (?A j AND 0xFFF)) = unat p + r + (j - off)" if "j < off + (4096 - r)"
      using same_page_offset [OF True] that unfolding frame_offset [OF p(1)] r A(1) [OF j] A(1) [OF off] by (simp add: add.assoc)
    moreover have "um_mem u' (va (p OR (?A j AND 0xFFF))) = seg_byte hdr elfmem u0 j" if "j < off + (4096 - r)"
      using F(1) [of "j - off", OF _ calculation [OF that]] that True by (simp add: u')
    moreover have "unat p + 4096 \<le> 4096 * edge u'" using p(1,3) by (auto simp: u' elim!: dvdE)
    ultimately show ?thesis using w True by auto
  qed
  have "um_ok u' pd" "edge u0 \<le> edge u'" using f(1,3) e0 by (simp_all add: um_ok_def u')
  moreover have "walk u' pd a = Some x" if "0x400000 \<le> a" "a < KERN_OFF" "walk u0 pd a = Some x" for a x
    using f(6) [OF that(1,2)] i that by (simp add: u')
  moreover have "um_mem u' a = um_mem u0 a" if "unat a < unat KERN_OFF + 4096 * edge u0" for a
    using F(2) [of a] m that p0 by (simp add: u')
  ultimately show ?thesis unfolding seg_inv_def by (intro conjI allI impI at)
qed

text \<open>The end of the loading, with every byte there or no frame left.\<close>

definition kept :: "u32 \<Rightarrow> umem \<Rightarrow> umem \<Rightarrow> bool" where
  "kept pd u0 u \<longleftrightarrow> um_ok u pd \<and>
     (\<forall>a x. 0x400000 \<le> a \<longrightarrow> a < KERN_OFF \<longrightarrow> walk u0 pd a = Some x \<longrightarrow> walk u pd a = Some x) \<and>
     (\<forall>a. unat a < unat KERN_OFF + 4096 * edge u0 \<longrightarrow> um_mem u a = um_mem u0 a)"

definition seg_done :: "elf32_phdr \<Rightarrow> u32 \<Rightarrow> u32 \<Rightarrow> umem \<Rightarrow> int \<Rightarrow> umem \<Rightarrow> bool" where
  "seg_done hdr elfmem pd u0 ret u \<longleftrightarrow>
     (if ret = 0 then seg_inv hdr elfmem pd u0 (unat (p_memsz hdr)) u
      else ret = - errno_code ENOMEM \<and> fst (pmem_alloc (um_pm u) 1) = 0 \<and> kept pd u0 u)"

lemma seg_inv_end: "seg_inv hdr elfmem pd u0 off u \<Longrightarrow> unat (p_memsz hdr) \<le> off \<Longrightarrow> seg_inv hdr elfmem pd u0 (unat (p_memsz hdr)) u"
  unfolding seg_inv_def by (auto split: if_splits)

lemma seg_full:
  assumes s: "seg_ok hdr elfmem pd u0" and inv: "seg_inv hdr elfmem pd u0 off u" and off: "off < unat (p_memsz hdr)"
    and v: "unat v div 4096 = unat (p_vaddr hdr + of_nat off) div 4096" and g: "get_page pd v u = (0, u1)"
  shows "seg_done hdr elfmem pd u0 (- errno_code ENOMEM) u1"
proof -
  note A = seg_address [OF s off]
  have ok: "um_ok u pd" using inv unfolding seg_inv_def by blast
  note f = get_page_fresh [OF ok user_page [OF A(2,3) v] g]
  have "kept pd u0 u1" using inv f(1,6) unfolding kept_def seg_inv_def f(2) by blast
  then show ?thesis using f(5) by (simp add: seg_done_def)
qed

lemma copy_bytes:
  assumes "unat off = k" "unat lim = n"
  shows "(if off < f then if f - off > lim then lim else f - off else 0) = (of_nat (min n (unat f - k)) :: u32)"
proof -
  have e: "unat (of_nat (min n (unat f - k)) :: u32) = min n (unat f - k)"
    using u32_bound [of f] by (intro unat_of_nat_u32) auto
  have "unat (if off < f then if f - off > lim then lim else f - off else 0) = min n (unat f - k)"
    using assms by (auto simp: word_less_nat_alt unat_sub_nowrap)
  then show ?thesis unfolding word_unat_eq_iff e .
qed

lemma load_pages_done:
  assumes s: "seg_ok hdr elfmem pd u0" and "seg_inv hdr elfmem pd u0 off u" and "off < 2 ^ 32 - 4096"
    and "(unat (p_vaddr hdr) + off) mod 4096 = 0"
  shows "\<exists>ret u'. load_pages hdr elfmem pd (of_nat off) u = Some (ret, u') \<and> seg_done hdr elfmem pd u0 ret u'"
  using assms(2-)
proof (induction "unat (p_memsz hdr) - off" arbitrary: off u rule: less_induct)
  case less
  have o: "unat (of_nat off :: u32) = off" using less.prems(2) by (simp add: unat_of_nat_u32)
  obtain p u1 where g: "get_page pd (p_vaddr hdr + of_nat off) u = (p, u1)" by fastforce
  show ?case
  proof (cases "off < unat (p_memsz hdr)")
    case False
    then have "load_pages hdr elfmem pd (of_nat off) u = Some (0, u)"
      by (subst load_pages.simps) (simp add: word_less_nat_alt o)
    then show ?thesis using seg_inv_end [OF less.prems(1)] False by (simp add: seg_done_def)
  next
    case off: True
    have w: "of_nat off < p_memsz hdr" using off by (simp add: word_less_nat_alt o)
    show ?thesis
    proof (cases "p = 0")
      case True
      then have "load_pages hdr elfmem pd (of_nat off) u = Some (- errno_code ENOMEM, u1)"
        by (subst load_pages.simps) (simp add: w g)
      then show ?thesis using seg_full [OF s less.prems(1) off refl g [unfolded True]] by simp
    next
      case False
      define btc where "btc = min (4096 - 0) (unat (p_filesz hdr) - off)"
      define u2 where "u2 = u1\<lparr>um_mem := fill_page (um_mem u1) (va p + of_nat 0) (elfmem + p_offset hdr + of_nat off) (of_nat btc) (of_nat (4096 - 0))\<rparr>"
      have r: "0 = unat (p_vaddr hdr + of_nat off) mod 4096" using less.prems(3) seg_address(1) [OF s off] by simp
      have b: "(if of_nat off < p_filesz hdr then if p_filesz hdr - of_nat off > PAGE_BYTES then PAGE_BYTES else p_filesz hdr - of_nat off
          else 0) = of_nat btc"
        unfolding btc_def by (rule copy_bytes) (use o in \<open>simp_all add: PAGE_BYTES_def\<close>)
      have "load_pages hdr elfmem pd (of_nat off) u = load_pages hdr elfmem pd (of_nat (off + 4096)) u2"
        by (subst load_pages.simps) (simp add: w g False b u2_def PAGE_BYTES_def [symmetric])
      moreover have "seg_inv hdr elfmem pd u0 (off + 4096) u2"
        using seg_step [OF s less.prems(1) off r refl btc_def g False u2_def] by simp
      moreover have "off + 4096 < 2 ^ 32 - 4096" using off s by (auto simp: seg_ok_def KERN_OFF_def word_le_nat_alt)
      moreover have "(unat (p_vaddr hdr) + (off + 4096)) mod 4096 = 0" using less.prems(3) by (simp flip: add.assoc)
      ultimately show ?thesis using less.hyps [of "off + 4096" u2] off by simp
    qed
  qed
qed

lemma load_first_done:
  assumes s: "seg_ok hdr elfmem pd u0"
  shows "case load_first hdr elfmem pd u0 of
      Inl (ret, u) \<Rightarrow> seg_done hdr elfmem pd u0 ret u \<and> ret \<noteq> 0
    | Inr (off, u) \<Rightarrow> \<exists>k < 4096. off = of_nat k \<and> seg_inv hdr elfmem pd u0 k u \<and> (unat (p_vaddr hdr) + k) mod 4096 = 0"
proof -
  have inv: "seg_inv hdr elfmem pd u0 0 u0" using s by (auto simp: seg_inv_def seg_ok_def)
  define r where "r = unat (p_vaddr hdr) mod 4096"
  have m: "unat (p_vaddr hdr AND 0xFFF) = r" using unat_mask_and [of "p_vaddr hdr" 12] by (simp add: r_def mask_eq_exp_minus_1)
  show ?thesis
  proof (cases "p_vaddr hdr AND 0xFFF = 0")
    case True
    then have "unat (p_vaddr hdr) mod 4096 = 0" using m by (simp add: r_def)
    then show ?thesis using True inv by (auto simp: load_first_def intro!: exI [of _ 0])
  next
    case False
    have off: "0 < unat (p_memsz hdr)" using s by (simp add: seg_ok_def word_less_nat_alt)
    have v: "unat (p_vaddr hdr AND 0xFFFFF000) div 4096 = unat (p_vaddr hdr + of_nat 0) div 4096" unfolding page_base_unat by simp
    obtain p u1 where g: "get_page pd (p_vaddr hdr AND 0xFFFFF000) u0 = (p, u1)" by fastforce
    show ?thesis
    proof (cases "p = 0")
      case True
      then show ?thesis
        using seg_full [OF s inv off v g [unfolded True]] False g by (simp add: load_first_def Let_def)
    next
      case np: False
      define btc where "btc = min (4096 - r) (unat (p_filesz hdr) - 0)"
      define u2 where "u2 = u1\<lparr>um_mem := fill_page (um_mem u1) (va p + of_nat r) (elfmem + p_offset hdr) (of_nat btc) (of_nat (4096 - r))\<rparr>"
      have r: "r < 4096" by (simp add: r_def)
      have vr: "p_vaddr hdr AND 0xFFF = of_nat r" unfolding m [symmetric] by simp
      then have sz: "PAGE_BYTES - (p_vaddr hdr AND 0xFFF) = of_nat (4096 - r)" "p_vaddr hdr AND 0xFFF = of_nat r"
        using r by (simp_all add: of_nat_diff PAGE_BYTES_def)
      have c: "(if of_nat (4096 - r) > p_filesz hdr then p_filesz hdr else of_nat (4096 - r)) = (of_nat btc :: u32)"
      proof -
        have n: "unat (of_nat (4096 - r) :: u32) = 4096 - r" by (simp add: unat_of_nat_u32)
        show ?thesis unfolding word_less_nat_alt n btc_def by (cases "unat (p_filesz hdr) < 4096 - r") simp_all
      qed
      have "load_first hdr elfmem pd u0 = Inr (of_nat (4096 - r), u2)"
        unfolding load_first_def Let_def sz(1) c g prod.case if_not_P [OF np] u2_def
        using False by (simp only: sz(2) simp_thms if_True of_nat_0 add_0_right)
      moreover have z: "p_vaddr hdr + of_nat 0 = p_vaddr hdr" "elfmem + p_offset hdr + of_nat 0 = elfmem + p_offset hdr" by simp_all
      moreover have "seg_inv hdr elfmem pd u0 (0 + (4096 - r)) u2"
        by (rule seg_step [OF s inv off _ v btc_def g np]) (unfold z, rule r_def, rule u2_def)
      moreover have "(unat (p_vaddr hdr) + (4096 - r)) mod 4096 = 0"
      proof -
        have "unat (p_vaddr hdr) + (4096 - r) = 4096 * (unat (p_vaddr hdr) div 4096 + 1)"
          using mult_div_mod_eq [of 4096 "unat (p_vaddr hdr)"] r unfolding r_def [symmetric] by simp
        then show ?thesis by (simp only: mod_mult_self1_is_0)
      qed
      moreover have "0 < r" unfolding m [symmetric] using False by (simp add: unat_gt_0)
      ultimately show ?thesis using r by (auto intro!: exI [of _ "4096 - r"])
    qed
  qed
qed

lemma segment_done:
  assumes s: "seg_ok hdr elfmem pd u" and a: "p_align hdr = PAGE_BYTES"
  shows "\<exists>ret u'. process_segment_from_memory hdr elfmem pd u = Some (ret, u') \<and> seg_done hdr elfmem pd u ret u'"
proof (cases "load_first hdr elfmem pd u")
  case (Inl x)
  then show ?thesis using load_first_done [OF s] a by (auto simp: process_segment_from_memory_def)
next
  case (Inr x)
  then obtain k u1 where k: "x = (of_nat k, u1)" "k < 4096" "seg_inv hdr elfmem pd u k u1" "(unat (p_vaddr hdr) + k) mod 4096 = 0"
    using load_first_done [OF s] by (cases x) auto
  have "k < 2 ^ 32 - 4096" using k(2) by simp
  from load_pages_done [OF s k(3) this k(4)] show ?thesis using Inr a k(1) by (simp add: process_segment_from_memory_def)
qed

lemma kept_bytes:
  assumes "um_ok u pd" "kept pd u u'" "0x400000 \<le> v" "v < KERN_OFF" "user_byte u pd v = Some b"
  shows "user_byte u' pd v = Some b"
proof -
  obtain p where p: "walk u pd v = Some p" "b = um_mem u (va p)" using assms(5) by (auto simp: user_byte_def)
  have e: "unat p < 4096 * edge u" by (rule walk_edge [OF assms(1,3,4) p(1)])
  have "edge u \<le> 0x40000" using assms(1) by (simp add: um_ok_def pmem_inv_def)
  then have "unat (va p) < unat KERN_OFF + 4096 * edge u" using e by (simp add: va_unat KERN_OFF_def)
  moreover have "walk u' pd v = Some p" using assms(2-4) p(1) unfolding kept_def by blast
  ultimately show ?thesis using assms(2) unfolding kept_def user_byte_def p(2) by simp
qed

lemma seg_done_kept: "seg_done hdr elfmem pd u ret u' \<Longrightarrow> kept pd u u'"
  unfolding seg_done_def seg_inv_def kept_def by (auto split: if_splits)

section \<open>The heap\<close>

lemma get_page_outside: "\<not> v < KERN_OFF \<Longrightarrow> get_page pd v u = (0, u)"
  by (simp add: get_page_def pagedir_get_or_new_def)

lemma brk_loop_maps:
  assumes "um_ok u pd" "0x400000 \<le> vaddr" "unat vaddr mod 4096 = 0" "brk_loop pd brk vaddr u = (r, u')"
  shows "kept pd u u' \<and> um_mem u' = um_mem u \<and>
    (case r of None \<Rightarrow> KERN_OFF < brk \<or> fst (pmem_alloc (um_pm u') 1) = 0
     | Some e \<Rightarrow> vaddr \<le> e \<and> brk \<le> e \<and> unat e mod 4096 = 0 \<and> (\<forall>a. vaddr \<le> a \<and> a < e \<longrightarrow> a < KERN_OFF \<and> walk u' pd a \<noteq> None))"
  using assms
proof (induction pd brk vaddr u rule: brk_loop.induct)
  case (1 pd brk vaddr u)
  obtain p u1 where g: "get_page pd vaddr u = (p, u1)" by fastforce
  have self: "kept pd u u" using "1.prems"(1) by (simp add: kept_def)
  consider "\<not> vaddr < brk" | "vaddr < brk" "\<not> vaddr < KERN_OFF" | "vaddr < brk" "vaddr < KERN_OFF" by blast
  then show ?case
  proof cases
    case 1
    then show ?thesis using "1.prems" self by (subst (asm) brk_loop.simps) auto
  next
    case 2
    then show ?thesis using "1.prems" self get_page_outside [of vaddr pd u] by (subst (asm) brk_loop.simps) auto
  next
    case 3
    note f = get_page_fresh [OF "1.prems"(1,2) 3(2) g]
    have k1: "kept pd u u1" using f(1,6) by (simp add: kept_def f(2))
    show ?thesis
    proof (cases "p = 0")
      case True
      then show ?thesis using "1.prems"(4) 3(1) g k1 f(2,5) by (subst (asm) brk_loop.simps) auto
    next
      case False
      have st: "unat (vaddr + PAGE_BYTES) = unat vaddr + 4096" by (rule page_step [OF 3(2)])
      have v1: "0x400000 \<le> vaddr + PAGE_BYTES" "unat (vaddr + PAGE_BYTES) mod 4096 = 0"
        using "1.prems"(2,3) st by (simp_all add: word_le_nat_alt)
      have b: "brk_loop pd brk (vaddr + PAGE_BYTES) u1 = (r, u')" using "1.prems"(4) 3(1) g False by (subst (asm) brk_loop.simps) simp
      note h = "1.IH" [OF 3(1) g [symmetric] False f(1) v1 b]
      have k: "kept pd u u'" using k1 h unfolding kept_def by auto
      have here: "walk u' pd a \<noteq> None" if a: "vaddr \<le> a" "unat a < unat vaddr + 4096" for a
      proof -
        have d: "unat a div 4096 = unat vaddr div 4096"
          using same_page [of "0" "unat a - unat vaddr" "unat vaddr"] a "1.prems"(3) by (simp add: word_le_nat_alt)
        have u: "0x400000 \<le> a" "a < KERN_OFF" by (rule user_page [OF "1.prems"(2) 3(2) d])+
        then have "walk u1 pd a = Some (p OR (a AND 0xFFF))" using f(8) [OF False u] d by simp
        then show ?thesis using h u unfolding kept_def by auto
      qed
      have user: "a < KERN_OFF" if "unat a < unat vaddr + 4096" for a
      proof -
        have "unat vaddr div 4096 < 786432" using 3(2) by (simp add: word_less_nat_alt KERN_OFF_def div_less_iff_less_mult)
        then have "unat vaddr + 4096 \<le> 3221225472" using mult_div_mod_eq [of 4096 "unat vaddr"] "1.prems"(3) by simp
        then show ?thesis using that by (simp add: word_less_nat_alt KERN_OFF_def)
      qed
      have "case r of None \<Rightarrow> True
        | Some e \<Rightarrow> vaddr \<le> e \<and> (\<forall>a. vaddr \<le> a \<and> a < e \<longrightarrow> a < KERN_OFF \<and> walk u' pd a \<noteq> None)"
        using h here user st by (auto simp: word_le_nat_alt split: option.splits) (meson not_le)+
      then show ?thesis using h k f(2) by (auto split: option.splits)
    qed
  qed
qed

text \<open>C14. Asking for a heap that ends at \<^verbatim>\<open>brk\<close>, from a heap that ends at a page, either fails, because the end is in the
  kernel's part of memory or no frame is left, and leaves the process as it was, or answers the new end, at or after
  \<^verbatim>\<open>brk\<close> and again at a page, and every address up to it can be used.  In both cases nothing that was mapped changes.\<close>

theorem sys_brk_maps_heap:
  assumes "um_ok u pd" and "0x400000 \<le> ps_heap_end proc" and "unat (ps_heap_end proc) mod 4096 = 0" and "brk \<noteq> 0"
    and "sys_brk pd proc brk u = (e, proc', u')"
  shows "(if proc' = proc \<and> e = 0 then KERN_OFF < brk \<or> fst (pmem_alloc (um_pm u') 1) = 0
     else proc' = proc\<lparr>ps_heap_end := e\<rparr> \<and> brk \<le> e \<and> ps_heap_end proc \<le> e \<and> unat e mod 4096 = 0 \<and>
       (\<forall>a. ps_heap_end proc \<le> a \<and> a < e \<longrightarrow> user_byte u' pd a \<noteq> None)) \<and>
    (\<forall>v b. 0x400000 \<le> v \<and> v < KERN_OFF \<and> user_byte u pd v = Some b \<longrightarrow> user_byte u' pd v = Some b)"
proof -
  obtain r u1 where b: "brk_loop pd brk (ps_heap_end proc) u = (r, u1)" by fastforce
  note l = brk_loop_maps [OF assms(1-3) b]
  have u: "u' = u1" using assms(4,5) b by (cases r) (auto simp: sys_brk_def)
  have "user_byte u' pd v = Some x" if "0x400000 \<le> v" "v < KERN_OFF" "user_byte u pd v = Some x" for v x
    using kept_bytes [OF assms(1) _ that] l u by auto
  moreover have "if proc' = proc \<and> e = 0 then KERN_OFF < brk \<or> fst (pmem_alloc (um_pm u') 1) = 0
     else proc' = proc\<lparr>ps_heap_end := e\<rparr> \<and> brk \<le> e \<and> ps_heap_end proc \<le> e \<and> unat e mod 4096 = 0 \<and>
       (\<forall>a. ps_heap_end proc \<le> a \<and> a < e \<longrightarrow> user_byte u' pd a \<noteq> None)"
    using assms(2,4,5) b l by (cases r) (auto simp: sys_brk_def user_byte_def)
  ultimately show ?thesis by blast
qed

text \<open>C5. Loading a segment whose user addresses are unmapped always returns.  When it answers 0, the processor reads the
  bytes of the file image at the first addresses of the segment and zeroes at the others; otherwise it answers
  \<^verbatim>\<open>-ENOMEM\<close> and no frame is left.  Every byte the process could read before reads the same.\<close>

theorem elf_segment_loaded:
  assumes "seg_ok hdr elfmem pd u" and "p_align hdr = PAGE_BYTES"
  shows "\<exists>ret u'. process_segment_from_memory hdr elfmem pd u = Some (ret, u') \<and>
    (if ret = 0 then \<forall>i < unat (p_memsz hdr). user_byte u' pd (p_vaddr hdr + of_nat i) = Some (seg_byte hdr elfmem u i)
     else ret = - errno_code ENOMEM \<and> fst (pmem_alloc (um_pm u') 1) = 0) \<and>
    (\<forall>v b. 0x400000 \<le> v \<and> v < KERN_OFF \<and> user_byte u pd v = Some b \<longrightarrow> user_byte u' pd v = Some b)"
proof -
  obtain ret u' where r: "process_segment_from_memory hdr elfmem pd u = Some (ret, u')" "seg_done hdr elfmem pd u ret u'"
    using segment_done [OF assms] by blast
  have "um_ok u pd" using assms(1) by (simp add: seg_ok_def)
  note k = kept_bytes [OF this seg_done_kept [OF r(2)]]
  have "if ret = 0 then \<forall>i < unat (p_memsz hdr). user_byte u' pd (p_vaddr hdr + of_nat i) = Some (seg_byte hdr elfmem u i)
     else ret = - errno_code ENOMEM \<and> fst (pmem_alloc (um_pm u') 1) = 0"
    using r(2) unfolding seg_done_def seg_inv_def user_byte_def by (auto split: if_splits)
  then show ?thesis using r(1) k by blast
qed

definition ex_phdr :: elf32_phdr where
  "ex_phdr = \<lparr>p_type = 1, p_offset = 0x1000, p_vaddr = 0x8049000, p_paddr = 0, p_filesz = 2, p_memsz = 4,
     p_flags = 5, p_align = 0x1000\<rparr>"

definition ex_umem :: umem where
  "ex_umem = \<lparr>um_pm = \<lparr>theEdgeOfAllocatedMemory = 300, theEndOfUpperMemory = 1000\<rparr>, um_tabs = \<lambda>_ _. 0,
     um_mem = \<lambda>a. if a = 0xC0101001 then 0x90 else 0xCC\<rparr>"

theorem elf_segment_loaded_witness:
  "\<exists>u'. process_segment_from_memory ex_phdr 0xC0100000 0x12B000 ex_umem = Some (0, u') \<and>
     user_byte u' 0x12B000 0x8049000 = Some 0xCC \<and> user_byte u' 0x12B000 0x8049001 = Some 0x90 \<and>
     user_byte u' 0x12B000 0x8049002 = Some 0 \<and> user_byte u' 0x12B000 0x8049003 = Some 0"
proof -
  have s: "seg_ok ex_phdr 0xC0100000 0x12B000 ex_umem"
    by (simp add: seg_ok_def um_ok_def ex_phdr_def ex_umem_def pmem_inv_def pd_ok_def frame_ok_def KERN_OFF_def mmu_walk_def entry_present_def)
  have a: "p_align ex_phdr = PAGE_BYTES" by (simp add: ex_phdr_def PAGE_BYTES_def)
  obtain p u1 where g: "get_page 0x12B000 0x8049000 ex_umem = (p, u1)" by fastforce
  have "fst (get_page 0x12B000 0x8049000 ex_umem) = 0x12D000"
    by (simp add: get_page_def ex_umem_def pagedir_get_or_new_def get_or_new_table_def pmem_alloc_def PAGE_BYTES_def KERN_OFF_def Let_def
        PDE_SHIFT_def PTE_SHIFT_def set_index_def user_mask_def)
  then have p: "p \<noteq> 0" using g by simp
  have l: "load_pages ex_phdr 0xC0100000 0x12B000 0x1000 w = Some (0, w)" for w
    by (subst load_pages.simps) (simp add: ex_phdr_def)
  have "\<exists>w. load_pages ex_phdr 0xC0100000 0x12B000 0 ex_umem = load_pages ex_phdr 0xC0100000 0x12B000 0x1000 w"
    by (subst load_pages.simps) (use p g in \<open>simp add: ex_phdr_def PAGE_BYTES_def, blast\<close>)
  moreover have "load_first ex_phdr 0xC0100000 0x12B000 ex_umem = Inr (0, ex_umem)" by (simp add: load_first_def ex_phdr_def)
  ultimately obtain u' where u': "process_segment_from_memory ex_phdr 0xC0100000 0x12B000 ex_umem = Some (0, u')"
    unfolding process_segment_from_memory_def a l by auto
  have n: "0 < unat (p_memsz ex_phdr)" "1 < unat (p_memsz ex_phdr)" "2 < unat (p_memsz ex_phdr)" "3 < unat (p_memsz ex_phdr)" 
    by (simp_all add: ex_phdr_def)
  obtain ret w where w: "Some (0, u') = Some (ret, w)"
      "if ret = 0 then \<forall>i < unat (p_memsz ex_phdr). user_byte w 0x12B000 (p_vaddr ex_phdr + of_nat i) = Some (seg_byte ex_phdr 0xC0100000 ex_umem i)
       else ret = - errno_code ENOMEM \<and> fst (pmem_alloc (um_pm w) 1) = 0"
    using elf_segment_loaded [OF s a] unfolding u' by blast
  have ret: "ret = 0" "w = u'" using w(1) by simp_all
  have "\<forall>i < unat (p_memsz ex_phdr). user_byte u' 0x12B000 (p_vaddr ex_phdr + of_nat i) = Some (seg_byte ex_phdr 0xC0100000 ex_umem i)"
    using w(2) unfolding ret if_P [OF refl] .
  from this [rule_format, OF n(1)] this [rule_format, OF n(2)] this [rule_format, OF n(3)] this [rule_format, OF n(4)]
  show ?thesis using u' by (simp add: seg_byte_def ex_phdr_def ex_umem_def)
qed


definition ex_process :: process where
  "ex_process = \<lparr>ps_userstack = USER_STACK_TOP, ps_heap_end = 0x804A000, ps_pid = 1, ps_ppid = 0, ps_tty = 1, ps_umask = 0,
     ps_cwd = ''/'', ps_fds = []\<rparr>"

theorem sys_brk_maps_heap_witness:
  "\<exists>u'. sys_brk 0x12B000 ex_process 0x804A100 ex_umem = (0x804B000, ex_process\<lparr>ps_heap_end := 0x804B000\<rparr>, u') \<and>
     user_byte u' 0x12B000 0x804A088 \<noteq> None"
proof -
  have o: "um_ok ex_umem 0x12B000"
    by (simp add: um_ok_def ex_umem_def pmem_inv_def pd_ok_def frame_ok_def)
  have h: "ps_heap_end ex_process = 0x804A000" by (simp add: ex_process_def)
  obtain p u1 where g: "get_page 0x12B000 0x804A000 ex_umem = (p, u1)" by fastforce
  have "fst (get_page 0x12B000 0x804A000 ex_umem) = 0x12D000"
    by (simp add: get_page_def ex_umem_def pagedir_get_or_new_def get_or_new_table_def pmem_alloc_def PAGE_BYTES_def KERN_OFF_def Let_def
        PDE_SHIFT_def PTE_SHIFT_def set_index_def user_mask_def)
  then have p: "p \<noteq> 0" using g by simp
  have "brk_loop 0x12B000 0x804A100 0x804A000 ex_umem = brk_loop 0x12B000 0x804A100 0x804B000 u1"
    by (subst brk_loop.simps) (simp add: g p PAGE_BYTES_def)
  also have "\<dots> = (Some 0x804B000, u1)" by (subst brk_loop.simps) simp
  finally have b: "sys_brk 0x12B000 ex_process 0x804A100 ex_umem = (0x804B000, ex_process\<lparr>ps_heap_end := 0x804B000\<rparr>, u1)"
    by (simp add: sys_brk_def h)
  have "user_byte u1 0x12B000 0x804A088 \<noteq> None"
    using sys_brk_maps_heap [OF o _ _ _ b] by (simp add: h)
  then show ?thesis using b by blast
qed

end
