(* ===== verification/Net_Frame.thy ===== *)
theory Net_Frame
  imports Cosec_Prelude
begin

text \<open>
  Ethernet frames: byte order (\<^verbatim>\<open>htons\<close>, \<^verbatim>\<open>ntohs\<close>, \<^verbatim>\<open>htonl\<close>), the headers of
  \<^verbatim>\<open>include/network.h\<close> as accesses to a byte buffer, the one's complement checksum and the
  packet builders of \<^verbatim>\<open>src/core/net.c\<close>.  A frame is its bytes by offset; a pointer into a frame is
  an offset; a 16- or 32-bit field is loaded and stored little-endian, as the processor does.
\<close>

unbundle bit_operations_syntax

section \<open>Byte order\<close>

definition htons :: "u16 \<Rightarrow> u16" where
  "htons hostshort = drop_bit 8 hostshort OR push_bit 8 hostshort"

definition ntohs :: "u16 \<Rightarrow> u16" where
  "ntohs hostshort = drop_bit 8 hostshort OR push_bit 8 hostshort"

definition htonl :: "u32 \<Rightarrow> u32" where
  "htonl hostlong =
     push_bit 16 (ucast (htons (ucast (hostlong AND 0xffff)))) OR ucast (htons (ucast (drop_bit 16 hostlong)))"

section \<open>Frames and their fields\<close>

type_synonym frame = "nat \<Rightarrow> u8"

definition rd16 :: "frame \<Rightarrow> nat \<Rightarrow> u16" where
  "rd16 f p = ucast (f p) OR push_bit 8 (ucast (f (p + 1)))"

definition wr16 :: "frame \<Rightarrow> nat \<Rightarrow> u16 \<Rightarrow> frame" where
  "wr16 f p v = f(p := ucast v, p + 1 := ucast (drop_bit 8 v))"

definition rd32 :: "frame \<Rightarrow> nat \<Rightarrow> u32" where
  "rd32 f p = ucast (rd16 f p) OR push_bit 16 (ucast (rd16 f (p + 2)))"

definition wr32 :: "frame \<Rightarrow> nat \<Rightarrow> u32 \<Rightarrow> frame" where
  "wr32 f p v = wr16 (wr16 f p (ucast v)) (p + 2) (ucast (drop_bit 16 v))"

text \<open>\<open>wr_bytes f p g q n\<close> is \<^verbatim>\<open>memcpy\<close> of \<open>n\<close> bytes from offset \<open>q\<close> of \<open>g\<close> to offset \<open>p\<close> of \<open>f\<close>;
  \<open>wr_list\<close> copies an array given by its elements.\<close>

definition wr_bytes :: "frame \<Rightarrow> nat \<Rightarrow> frame \<Rightarrow> nat \<Rightarrow> nat \<Rightarrow> frame" where
  "wr_bytes f p g q n = (\<lambda>i. if p \<le> i \<and> i < p + n then g (q + (i - p)) else f i)"

definition wr_list :: "frame \<Rightarrow> nat \<Rightarrow> u8 list \<Rightarrow> frame" where
  "wr_list f p bs = wr_bytes f p (\<lambda>i. bs ! i) 0 (length bs)"

text \<open>A hardware address is the union of its six octets and its three words.\<close>

type_synonym macaddr = "u16 \<times> u16 \<times> u16"

definition ETH_BROADCAST_MAC :: macaddr where
  "ETH_BROADCAST_MAC = (0xffff, 0xffff, 0xffff)"

definition ETH_INVALID_MAC :: macaddr where
  "ETH_INVALID_MAC = (0, 0, 0)"

fun mac_equal :: "macaddr \<Rightarrow> macaddr \<Rightarrow> bool" where
  "mac_equal (a0, a1, a2) (b0, b1, b2) \<longleftrightarrow> a0 = b0 \<and> a1 = b1 \<and> a2 = b2"

definition rd_mac :: "frame \<Rightarrow> nat \<Rightarrow> macaddr" where
  "rd_mac f p = (rd16 f p, rd16 f (p + 2), rd16 f (p + 4))"

fun wr_mac :: "frame \<Rightarrow> nat \<Rightarrow> macaddr \<Rightarrow> frame" where
  "wr_mac f p (a0, a1, a2) = wr16 (wr16 (wr16 f p a0) (p + 2) a1) (p + 4) a2"

text \<open>Sizes of the headers and offsets of their fields, relative to the start of each header.\<close>

abbreviation (input) eth_hdr_size :: nat where "eth_hdr_size \<equiv> 14"
abbreviation (input) ipv4_hdr_size :: nat where "ipv4_hdr_size \<equiv> 20"
abbreviation (input) icmp_hdr_size :: nat where "icmp_hdr_size \<equiv> 8"
abbreviation (input) udp_hdr_size :: nat where "udp_hdr_size \<equiv> 8"
abbreviation (input) arp_hdr_size :: nat where "arp_hdr_size \<equiv> 28"

abbreviation (input) ETHERTYPE_IPV4 :: u16 where "ETHERTYPE_IPV4 \<equiv> 0x0800"
abbreviation (input) ETHERTYPE_ARP :: u16 where "ETHERTYPE_ARP \<equiv> 0x0806"
abbreviation (input) IPV4TYPE_ICMP :: u8 where "IPV4TYPE_ICMP \<equiv> 1"
abbreviation (input) IPV4TYPE_UDP :: u8 where "IPV4TYPE_UDP \<equiv> 17"
abbreviation (input) IPV4_DEFAULT_TTL :: u8 where "IPV4_DEFAULT_TTL \<equiv> 32"
abbreviation (input) ICMP_ECHO_REPLY :: u8 where "ICMP_ECHO_REPLY \<equiv> 0"
abbreviation (input) ICMP_ECHO_REQUEST :: u8 where "ICMP_ECHO_REQUEST \<equiv> 8"

definition eth_type :: "frame \<Rightarrow> u16" where
  "eth_type f = ntohs (rd16 f 12)"

definition ip_nwords :: "frame \<Rightarrow> nat \<Rightarrow> nat" where
  "ip_nwords f ip = unat (f ip AND 0x0f)"

definition ip_iplen :: "frame \<Rightarrow> nat \<Rightarrow> u16" where
  "ip_iplen f ip = ntohs (rd16 f (ip + 2))"

definition ip_proto :: "frame \<Rightarrow> nat \<Rightarrow> u8" where
  "ip_proto f ip = f (ip + 9)"

definition ip_src :: "frame \<Rightarrow> nat \<Rightarrow> u32" where
  "ip_src f ip = rd32 f (ip + 12)"

definition ip_dst :: "frame \<Rightarrow> nat \<Rightarrow> u32" where
  "ip_dst f ip = rd32 f (ip + 16)"

section \<open>The one's complement checksum\<close>

definition ones_complement :: "u16 \<Rightarrow> u16 \<Rightarrow> u16" where
  "ones_complement a b =
     (let s = (ucast a :: u32) + ucast b in ucast ((s AND 0xffff) + drop_bit 16 s))"

definition ones_complement_words_sum :: "frame \<Rightarrow> nat \<Rightarrow> nat \<Rightarrow> u16" where
  "ones_complement_words_sum f data len =
     (let s = foldl (\<lambda>s i. ones_complement s (ntohs (rd16 f (data + 2 * i)))) 0 [0..<len div 2] in
      if len mod 2 \<noteq> 0 then ones_complement s (push_bit 8 (ucast (f (data + (len - 1))))) else s)"

section \<open>Building packets\<close>

text \<open>The builders return the frame they wrote and the offset or length the code returns.\<close>

definition net_buf_ipv4_init :: "frame \<Rightarrow> u32 \<Rightarrow> u32 \<Rightarrow> frame \<times> nat" where
  "net_buf_ipv4_init frm srcaddr dstaddr =
     (let f = wr16 frm 12 (htons ETHERTYPE_IPV4);
          ip = eth_hdr_size;
          f = f(ip := (f ip AND 0x0f) OR 0x40);
          f = f(ip := (f ip AND 0xf0) OR 5);
          f = f(ip + 1 := 0);
          f = wr16 f (ip + 4) 0;
          f = wr16 f (ip + 6) 0;
          f = f(ip + 8 := IPV4_DEFAULT_TTL);
          f = wr32 f (ip + 12) srcaddr;
          f = wr32 f (ip + 16) dstaddr
      in (f, ip))"

definition net_buf_ipv4_checksum :: "frame \<Rightarrow> nat \<Rightarrow> frame \<times> u16" where
  "net_buf_ipv4_checksum f ip =
     (let f = wr16 f (ip + 10) 0;
          checksum = ones_complement_words_sum f ip ipv4_hdr_size
      in (wr16 f (ip + 10) (htons (NOT checksum)), checksum))"

definition net_buf_udp4_init :: "frame \<Rightarrow> u32 \<Rightarrow> u16 \<Rightarrow> u32 \<Rightarrow> u16 \<Rightarrow> frame \<times> nat" where
  "net_buf_udp4_init frm srcaddr srcport dstaddr dstport =
     (let (f, ip) = net_buf_ipv4_init frm srcaddr dstaddr;
          f = f(ip + 9 := IPV4TYPE_UDP);
          udp = ip + 4 * ip_nwords f ip;
          f = wr16 f udp (htons srcport);
          f = wr16 f (udp + 2) (htons dstport)
      in (f, udp + udp_hdr_size))"

definition net_buf_udp4_iplen :: "frame \<Rightarrow> nat \<Rightarrow> nat" where
  "net_buf_udp4_iplen f packet = ipv4_hdr_size + unat (ntohs (rd16 f (packet - udp_hdr_size + 4)))"

definition net_buf_udp4_checksum :: "frame \<Rightarrow> nat \<Rightarrow> nat \<Rightarrow> frame \<times> nat" where
  "net_buf_udp4_checksum f data datalen =
     (let udp = data - udp_hdr_size;
          ip = udp - ipv4_hdr_size;
          f = wr16 f (udp + 4) (htons (of_nat (datalen + udp_hdr_size)));
          f = wr16 f (ip + 2) (htons (of_nat (ipv4_hdr_size + udp_hdr_size + datalen)));
          (f, _) = net_buf_ipv4_checksum f ip;
          f = wr16 f (ip - eth_hdr_size + 12) (htons ETHERTYPE_IPV4)
      in (f, eth_hdr_size + ipv4_hdr_size + udp_hdr_size + datalen))"

definition net_buf_icmp4_init :: "frame \<Rightarrow> u32 \<Rightarrow> u32 \<Rightarrow> u8 \<Rightarrow> u8 \<Rightarrow> u32 \<Rightarrow> frame \<times> nat" where
  "net_buf_icmp4_init frm srcaddr dstaddr type code seq =
     (let (f, ip) = net_buf_ipv4_init frm srcaddr dstaddr;
          f = f(ip + 9 := IPV4TYPE_ICMP);
          icmp = ip + 4 * ip_nwords f ip;
          f = f(icmp := type);
          f = f(icmp + 1 := code);
          f = wr32 f (icmp + 4) seq;
          f = wr16 f (icmp + 2) 0
      in (f, icmp + icmp_hdr_size))"

definition net_buf_icmp4_checksum :: "frame \<Rightarrow> nat \<Rightarrow> nat \<Rightarrow> frame \<times> nat" where
  "net_buf_icmp4_checksum f data datalen =
     (let icmp = data - icmp_hdr_size;
          ip = icmp - ipv4_hdr_size;
          f = wr16 f (icmp + 2) 0;
          checksum = ones_complement_words_sum f icmp (icmp_hdr_size + datalen);
          f = wr16 f (icmp + 2) (htons (NOT checksum));
          f = wr16 f (ip + 2) (htons (of_nat (ipv4_hdr_size + icmp_hdr_size + datalen)));
          (f, _) = net_buf_ipv4_checksum f ip
      in (f, eth_hdr_size + 4 * ip_nwords f ip + icmp_hdr_size + datalen))"

section \<open>Fields keep what is stored in them\<close>

named_theorems frame_simps \<open>reading a field after writing one\<close>

lemma bit_htons: "bit (htons x) n \<longleftrightarrow> n < 16 \<and> bit x (if n < 8 then n + 8 else n - 8)"
  unfolding htons_def by (auto simp: bit_simps add.commute dest: bit_imp_le_length)

lemma ntohs_htons [frame_simps]: "ntohs (htons x) = x"
proof -
  have "ntohs = htons" by (simp add: fun_eq_iff htons_def ntohs_def)
  then show ?thesis by (intro bit_word_eqI) (auto simp: bit_htons)
qed

lemma unat_ntohs_0 [frame_simps]: "ntohs 0 = 0"
  by (simp add: ntohs_def)

lemma rd16_wr16 [frame_simps]: "rd16 (wr16 f p v) p = v"
  unfolding rd16_def wr16_def by (rule bit_word_eqI) (auto simp: bit_simps)

lemma rd16_wr16_other [frame_simps]: "p + 1 < q \<or> q + 1 < p \<Longrightarrow> rd16 (wr16 f p v) q = rd16 f q"
  by (auto simp: rd16_def wr16_def)

lemma wr16_other [frame_simps]: "q < p \<or> p + 1 < q \<Longrightarrow> wr16 f p v q = f q"
  by (auto simp: wr16_def)

lemma rd16_upd_other [frame_simps]: "p < q \<or> q + 1 < p \<Longrightarrow> rd16 (f(p := b)) q = rd16 f q"
  by (auto simp: rd16_def)

lemma rd32_wr32 [frame_simps]: "rd32 (wr32 f p v) p = v"
  unfolding rd32_def wr32_def
  by (rule bit_word_eqI) (auto simp: frame_simps bit_simps)

lemma wr32_other [frame_simps]: "q < p \<or> p + 3 < q \<Longrightarrow> wr32 f p v q = f q"
  by (auto simp: wr32_def wr16_other)

lemma rd16_wr32_other [frame_simps]: "p + 3 < q \<or> q + 1 < p \<Longrightarrow> rd16 (wr32 f p v) q = rd16 f q"
  by (auto simp: rd16_def wr32_other)

lemma rd32_wr16_other [frame_simps]: "p + 1 < q \<or> q + 3 < p \<Longrightarrow> rd32 (wr16 f p v) q = rd32 f q"
  by (auto simp: rd32_def rd16_wr16_other)

lemma rd32_wr32_other [frame_simps]: "p + 3 < q \<or> q + 3 < p \<Longrightarrow> rd32 (wr32 f p v) q = rd32 f q"
  by (auto simp: rd32_def rd16_wr32_other)

lemma rd32_upd_other [frame_simps]: "p < q \<or> q + 3 < p \<Longrightarrow> rd32 (f(p := b)) q = rd32 f q"
  by (auto simp: rd32_def rd16_upd_other)

lemma rd_mac_wr_mac [frame_simps]: "rd_mac (wr_mac f p m) p = m"
  by (cases m) (auto simp: rd_mac_def frame_simps)

lemma wr_mac_other [frame_simps]: "q < p \<or> p + 5 < q \<Longrightarrow> wr_mac f p m q = f q"
  by (cases m) (auto simp: wr16_other)

lemma rd16_wr_mac_other [frame_simps]: "p + 5 < q \<or> q + 1 < p \<Longrightarrow> rd16 (wr_mac f p m) q = rd16 f q"
  by (auto simp: rd16_def wr_mac_other)

lemma mac_equal_eq [simp]: "mac_equal a b \<longleftrightarrow> a = b"
  by (cases a; cases b) auto


section \<open>The checksum as arithmetic\<close>

text \<open>One's complement addition with end-around carry is addition of representatives modulo
  \<open>65535\<close>, where a sum that is not zero is kept in \<open>1 \<dots> 65535\<close>.\<close>

definition oc_norm :: "nat \<Rightarrow> nat" where
  "oc_norm n = (if n = 0 then 0 else (n - 1) mod 65535 + 1)"

lemma oc_norm_small: "n \<le> 65535 \<Longrightarrow> oc_norm n = n"
  by (auto simp: oc_norm_def)

lemma oc_norm_add: "oc_norm (oc_norm x + y) = oc_norm (x + y)"
proof (cases "x = 0")
  case False
  have "oc_norm x + y - 1 = (x - 1) mod 65535 + y" using False by (simp add: oc_norm_def)
  then have "(oc_norm x + y - 1) mod 65535 = (x - 1 + y) mod 65535" by (simp add: mod_add_left_eq)
  moreover have "x - 1 + y = x + y - 1" using False by simp
  ultimately show ?thesis using False by (simp add: oc_norm_def)
qed (simp add: oc_norm_def)

lemma u16_bound: "unat (x :: u16) \<le> 65535"
proof -
  have "unat x < 2 ^ LENGTH(16)" by (rule unsigned_less)
  then show ?thesis by simp
qed

lemma unat_ones_complement: "unat (ones_complement a b) = oc_norm (unat a + unat b)"
proof -
  define s where "s = (ucast a :: u32) + ucast b"
  have a: "unat a \<le> 65535" and b: "unat b \<le> 65535" by (rule u16_bound)+
  have s: "unat s = unat a + unat b"
    unfolding s_def using a b by (subst unat_add_nowrap) (simp_all add: unsigned_ucast_eq take_bit_nat_eq_self)
  have lo: "unat (s AND 0xffff) = unat s mod 65536"
    using unat_mask_and [of s 16] by (simp add: mask_eq_exp_minus_1)
  have hi: "unat (drop_bit 16 s) = unat s div 65536" by (simp add: drop_bit_eq_div unat_div)
  have "unat ((s AND 0xffff) + drop_bit 16 s) = unat s mod 65536 + unat s div 65536"
    using s a b by (subst unat_add_nowrap) (simp_all add: lo hi)
  moreover have "unat s mod 65536 + unat s div 65536 = oc_norm (unat s)"
  proof (cases "unat s < 65536")
    case False
    then have "unat s div 65536 = 1" "unat s mod 65536 = unat s - 65536"
      using s a b by (simp_all add: div_nat_eqI le_mod_geq)
    moreover have "(unat s - 1) mod 65535 = unat s - 65536" using False s a b by (simp add: le_mod_geq)
    ultimately show ?thesis using False by (simp add: oc_norm_def)
  qed (simp add: oc_norm_small)
  moreover have "oc_norm (unat s) \<le> 65535" by (simp add: oc_norm_def Suc_le_eq)
  ultimately show ?thesis
    unfolding ones_complement_def Let_def s_def [symmetric]
    by (simp add: unsigned_ucast_eq take_bit_nat_eq_self s)
qed

definition words_total :: "frame \<Rightarrow> nat \<Rightarrow> nat \<Rightarrow> nat" where
  "words_total f p len =
     (\<Sum>i<len div 2. unat (ntohs (rd16 f (p + 2 * i)))) +
     (if len mod 2 \<noteq> 0 then 256 * unat (f (p + (len - 1))) else 0)"

lemma unat_words_fold:
  "unat (foldl (\<lambda>s i. ones_complement s (g i)) 0 [0..<n]) = oc_norm (\<Sum>i<n. unat (g i))"
  by (induction n) (simp_all add: oc_norm_small unat_ones_complement oc_norm_add)

lemma unat_words_sum: "unat (ones_complement_words_sum f p len) = oc_norm (words_total f p len)"
proof -
  have "unat (push_bit 8 (ucast b :: u16)) = 256 * unat b" for b :: u8
  proof -
    have "unat b < 2 ^ LENGTH(8)" by (rule unsigned_less)
    then have "unat (ucast b :: u16) = unat b" by (simp add: unsigned_ucast_eq take_bit_nat_eq_self)
    with \<open>unat b < _\<close> show ?thesis
      using unat_mult_lem [of "ucast b :: u16" 256] by (simp add: push_bit_eq_mult mult.commute)
  qed
  then show ?thesis
    by (simp add: ones_complement_words_sum_def words_total_def Let_def unat_ones_complement
        unat_words_fold oc_norm_add)
qed

lemma words_total_wr16:
  assumes "rd16 f (p + 2 * k) = 0" "2 * k + 2 \<le> len"
  shows "words_total (wr16 f (p + 2 * k) v) p len = words_total f p len + unat (ntohs v)"
proof -
  let ?n = "len div 2"
  have k: "k < ?n" using assms(2) by linarith
  have other: "rd16 (wr16 f (p + 2 * k) v) (p + 2 * i) = rd16 f (p + 2 * i)" if "i \<noteq> k" for i
    using that by (intro rd16_wr16_other) linarith
  have "(\<Sum>i<?n. unat (ntohs (rd16 (wr16 f (p + 2 * k) v) (p + 2 * i)))) =
      unat (ntohs v) + (\<Sum>i\<in>{..<?n} - {k}. unat (ntohs (rd16 f (p + 2 * i))))"
    using k by (subst sum.remove [of _ k]) (auto simp: rd16_wr16 other)
  also have "\<dots> = unat (ntohs v) + (\<Sum>i<?n. unat (ntohs (rd16 f (p + 2 * i))))"
    using k assms(1) by (subst (2) sum.remove [of _ k]) (auto simp: frame_simps)
  finally have "(\<Sum>i<?n. unat (ntohs (rd16 (wr16 f (p + 2 * k) v) (p + 2 * i)))) =
      unat (ntohs v) + (\<Sum>i<?n. unat (ntohs (rd16 f (p + 2 * i))))" .
  moreover have "wr16 f (p + 2 * k) v (p + (len - 1)) = f (p + (len - 1))" if "len mod 2 \<noteq> 0"
    using that assms(2) by (intro wr16_other) presburger
  ultimately show ?thesis by (simp add: words_total_def)
qed

text \<open>Storing the complement of the sum in a zeroed field makes the sum all ones.\<close>

lemma checksum_fill:
  assumes "rd16 f (p + 2 * k) = 0" "2 * k + 2 \<le> len"
  shows "ones_complement_words_sum
    (wr16 f (p + 2 * k) (htons (NOT (ones_complement_words_sum f p len)))) p len = 0xffff"
proof -
  define T where "T = words_total f p len"
  define c where "c = ones_complement_words_sum f p len"
  have c: "unat c = oc_norm T" unfolding c_def T_def by (rule unat_words_sum)
  have "NOT c = - c - 1" by (simp add: not_eq_complement)
  then have "NOT c = 0xffff - c" by simp
  moreover have "unat (0xffff - c) = 65535 - unat c"
    using u16_bound [of c] by (subst unat_sub) (simp_all add: word_le_nat_alt)
  ultimately have n: "unat (NOT c) = 65535 - oc_norm T" using c by simp
  have "oc_norm (T + (65535 - oc_norm T)) = 65535"
  proof (cases "T = 0")
    case False
    define q r where "q = (T - 1) div 65535" and "r = (T - 1) mod 65535"
    have "T - 1 = q * 65535 + r" "r < 65535" by (simp_all add: q_def r_def)
    moreover have "oc_norm T = r + 1" using False by (simp add: oc_norm_def r_def)
    ultimately have "T + (65535 - oc_norm T) - 1 = q * 65535 + 65534" using False by linarith
    then have "(T + (65535 - oc_norm T) - 1) mod 65535 = 65534" by (simp only: mod_mult_self3) simp
    then show ?thesis using False by (simp add: oc_norm_def)
  qed (simp add: oc_norm_def)
  then have "unat (ones_complement_words_sum (wr16 f (p + 2 * k) (htons (NOT c))) p len) = 65535"
    by (simp add: unat_words_sum words_total_wr16 [OF assms] ntohs_htons n T_def)
  then show ?thesis unfolding c_def [symmetric] by (simp add: word_unat_eq_iff)
qed


section \<open>What the builders write\<close>

lemma rd16_wr_bytes_other [frame_simps]: "p + n \<le> q \<or> q + 1 < p \<Longrightarrow> rd16 (wr_bytes f p g d n) q = rd16 f q"
  by (auto simp: rd16_def wr_bytes_def)

lemma rd32_wr_bytes_other [frame_simps]: "p + n \<le> q \<or> q + 3 < p \<Longrightarrow> rd32 (wr_bytes f p g d n) q = rd32 f q"
  by (auto simp: rd32_def rd16_wr_bytes_other)

lemma wr_bytes_other [frame_simps]: "p + n \<le> q \<or> q < p \<Longrightarrow> wr_bytes f p g d n q = f q"
  by (auto simp: wr_bytes_def)

lemma wr_bytes_same: "i < n \<Longrightarrow> wr_bytes f p g d n (p + i) = g (d + i)"
  by (auto simp: wr_bytes_def)

lemma rd32_wr_mac_other [frame_simps]: "p + 5 < q \<or> q + 3 < p \<Longrightarrow> rd32 (wr_mac f p m) q = rd32 f q"
  by (auto simp: rd32_def rd16_wr_mac_other)

lemma rd16_cong: "f p = g p \<Longrightarrow> f (p + 1) = g (p + 1) \<Longrightarrow> rd16 f p = rd16 g p"
  by (simp add: rd16_def)

lemma rd_mac_cong:
  assumes "\<And>i. p \<le> i \<Longrightarrow> i < p + 6 \<Longrightarrow> f i = g i"
  shows "rd_mac f p = rd_mac g p"
  unfolding rd_mac_def by (intro prod.inject [THEN iffD2] conjI rd16_cong assms) simp_all

lemma rd32_cong:
  assumes "\<And>i. p \<le> i \<Longrightarrow> i < p + 4 \<Longrightarrow> f i = g i"
  shows "rd32 f p = rd32 g p"
proof -
  have "rd16 f p = rd16 g p" "rd16 f (p + 2) = rd16 g (p + 2)" by (rule rd16_cong; simp add: assms)+
  then show ?thesis by (simp add: rd32_def)
qed

lemma words_sum_cong:
  assumes "\<And>i. i < len \<Longrightarrow> f (p + i) = g (p + i)"
  shows "ones_complement_words_sum f p len = ones_complement_words_sum g p len"
proof -
  have "rd16 f (p + 2 * i) = rd16 g (p + 2 * i)" if "i < len div 2" for i
    using assms [of "2 * i"] assms [of "2 * i + 1"] that by (simp add: rd16_def)
  then have "words_total f p len = words_total g p len"
    using assms [of "len - 1"] by (auto simp: words_total_def intro!: sum.cong)
  then have "unat (ones_complement_words_sum f p len) = unat (ones_complement_words_sum g p len)"
    by (simp add: unat_words_sum)
  then show ?thesis by (simp add: word_unat_eq_iff)
qed

lemma ipv4_checksum_ok:
  "ones_complement_words_sum (fst (net_buf_ipv4_checksum f ip)) ip 20 = 0xffff"
  using checksum_fill [of "wr16 f (ip + 10) 0" ip 5 20]
  by (simp add: net_buf_ipv4_checksum_def Let_def rd16_wr16)

lemma ipv4_checksum_other:
  "q < ip + 10 \<or> ip + 11 < q \<Longrightarrow> fst (net_buf_ipv4_checksum f ip) q = f q"
  by (auto simp: net_buf_ipv4_checksum_def Let_def wr16_other)


lemma ipv4_init_fields:
  assumes "net_buf_ipv4_init frm src dst = (f, ip)"
  shows "ip = 14" "eth_type f = 0x0800" "f 14 = 0x45" "ip_nwords f 14 = 5" "ip_src f 14 = src" "ip_dst f 14 = dst"
    "f 22 = 32"
proof -
  have b: "((x AND 0x0f OR 0x40) AND 0xf0 OR 5 :: u8) = 0x45" for x
    by (rule bit_word_eqI) (auto simp: bit_simps bit_numeral_rec less_Suc_eq numeral_eq_Suc)
  show 14: "ip = 14" using assms by (simp add: net_buf_ipv4_init_def Let_def)
  have "fst (net_buf_ipv4_init frm src dst) = f" using assms by simp
  note f = this [symmetric, unfolded net_buf_ipv4_init_def Let_def fst_conv]
  show "f 14 = 0x45" by (simp add: f frame_simps b)
  then show "ip_nwords f 14 = 5" by (simp add: ip_nwords_def)
  show "eth_type f = 0x0800" by (simp add: f frame_simps eth_type_def)
  show "ip_src f 14 = src" "ip_dst f 14 = dst" "f 22 = 32"
    by (simp_all add: f frame_simps ip_src_def ip_dst_def)
qed

lemma icmp4_init_fields:
  assumes "net_buf_icmp4_init frm src dst type code seq = (f, data)"
  shows "data = 42" "eth_type f = 0x0800" "f 14 = 0x45" "ip_src f 14 = src" "ip_dst f 14 = dst" "f 22 = 32"
    "ip_proto f 14 = 1" "f 34 = type" "f 35 = code" "rd32 f 38 = seq"
proof -
  obtain f0 ip where i: "net_buf_ipv4_init frm src dst = (f0, ip)" by force
  note fld = ipv4_init_fields [OF i]
  have n: "ip_nwords (f0(23 := 1)) 14 = 5" using fld(4) by (simp add: ip_nwords_def)
  have "f = wr16 (wr32 ((f0(23 := 1))(34 := type, 35 := code)) 38 seq) 36 0 \<and> data = 42"
    using assms n by (simp add: net_buf_icmp4_init_def Let_def i fld(1))
  then show "data = 42" "eth_type f = 0x0800" "f 14 = 0x45" "ip_src f 14 = src" "ip_dst f 14 = dst" "f 22 = 32"
    "ip_proto f 14 = 1" "f 34 = type" "f 35 = code" "rd32 f 38 = seq"
    using fld by (simp_all add: eth_type_def ip_src_def ip_dst_def ip_proto_def frame_simps)
qed

text \<open>An ICMP packet is complete when its two checksums hold and its length field agrees with its payload.\<close>

definition icmp4_packet :: "frame \<Rightarrow> u32 \<Rightarrow> u32 \<Rightarrow> u8 \<Rightarrow> u8 \<Rightarrow> u32 \<Rightarrow> u8 list \<Rightarrow> bool" where
  "icmp4_packet f src dst type code seq payload \<longleftrightarrow>
     eth_type f = 0x0800 \<and> f 14 = 0x45 \<and> ip_src f 14 = src \<and> ip_dst f 14 = dst \<and>
     ip_proto f 14 = 1 \<and> f 34 = type \<and> f 35 = code \<and> rd32 f 38 = seq \<and>
     unat (ip_iplen f 14) = 28 + length payload \<and> map f [42..<42 + length payload] = payload \<and>
     ones_complement_words_sum f 14 20 = 0xffff \<and>
     ones_complement_words_sum f 34 (8 + length payload) = 0xffff"

lemma icmp4_packet_cong:
  assumes "icmp4_packet f src dst type code seq payload"
    and "\<And>i. 12 \<le> i \<Longrightarrow> i < 42 + length payload \<Longrightarrow> g i = f i"
  shows "icmp4_packet g src dst type code seq payload"
proof -
  note g = assms(2)
  have "rd16 g 12 = rd16 f 12" "rd16 g 16 = rd16 f 16" by (rule rd16_cong; simp add: g)+
  moreover have "rd32 g 26 = rd32 f 26" "rd32 g 30 = rd32 f 30" "rd32 g 38 = rd32 f 38" by (rule rd32_cong; simp add: g)+
  moreover have "ones_complement_words_sum g 14 20 = ones_complement_words_sum f 14 20"
      "ones_complement_words_sum g 34 (8 + length payload) = ones_complement_words_sum f 34 (8 + length payload)"
    by (rule words_sum_cong; simp add: g)+
  moreover have "map g [42..<42 + length payload] = payload"
  proof -
    have "map g [42..<42 + length payload] = map f [42..<42 + length payload]" by (simp add: g)
    also have "\<dots> = payload" using assms(1) by (simp add: icmp4_packet_def)
    finally show ?thesis .
  qed
  ultimately show ?thesis
    using assms(1) by (simp add: icmp4_packet_def eth_type_def ip_src_def ip_dst_def ip_proto_def ip_iplen_def g)
qed

lemma icmp4_packet:
  assumes init: "net_buf_icmp4_init frm src dst type code seq = (f, data)"
    and chk: "net_buf_icmp4_checksum (wr_bytes f data g p n) data n = (k, ethlen)" and n: "n + 28 < 65536"
  shows "icmp4_packet k src dst type code seq (map g [p..<p + n])" "ethlen = 42 + n"
proof -
  note fld = icmp4_init_fields [OF init]
  define h where "h = wr16 (wr_bytes f data g p n) 36 0"
  define c where "c = ones_complement_words_sum h 34 (8 + n)"
  define h1 where "h1 = wr16 h 36 (htons (NOT c))"
  define h2 where "h2 = wr16 h1 16 (htons (of_nat (28 + n)))"
  have k: "k = fst (net_buf_ipv4_checksum h2 14)" and e: "ethlen = 14 + 4 * ip_nwords k 14 + 8 + n"
    using chk fld(1) by (auto simp: net_buf_icmp4_checksum_def Let_def h_def c_def h1_def h2_def split: prod.splits)
  have o: "k q = h2 q" if "q < 24 \<or> 25 < q" for q
    using ipv4_checksum_other [of q 14 h2] that by (simp add: k)
  have s: "ones_complement_words_sum h1 34 (8 + n) = 0xffff"
    using checksum_fill [of h 34 1 "8 + n"] by (simp add: h1_def c_def h_def rd16_wr16)
  have "ones_complement_words_sum k 34 (8 + n) = ones_complement_words_sum h1 34 (8 + n)"
    by (rule words_sum_cong) (simp add: o h2_def wr16_other)
  moreover have "ones_complement_words_sum k 14 20 = 0xffff" unfolding k by (rule ipv4_checksum_ok)
  moreover have "rd16 k 12 = rd16 h2 12" "rd16 k 16 = rd16 h2 16" by (rule rd16_cong; simp add: o)+
  moreover have "rd32 k 26 = rd32 h2 26" "rd32 k 30 = rd32 h2 30" "rd32 k 38 = rd32 h2 38" by (rule rd32_cong; simp add: o)+
  moreover have "map k [42..<42 + n] = map g [p..<p + n]"
    by (rule nth_equalityI) (auto simp: o h2_def h1_def h_def fld(1) wr16_other wr_bytes_def)
  moreover have "unat (of_nat (28 + n) :: u16) = 28 + n"
    using n by (simp only: unat_of_nat) (simp add: take_bit_nat_eq_self)
  ultimately show "icmp4_packet k src dst type code seq (map g [p..<p + n])"
    using fld s n
    by (simp add: icmp4_packet_def eth_type_def ip_src_def ip_dst_def ip_proto_def ip_iplen_def o h2_def h1_def h_def frame_simps)
  show "ethlen = 42 + n" using fld by (simp add: e ip_nwords_def o h2_def h1_def h_def frame_simps)
qed

end
