(* ===== verification/Net.thy ===== *)
theory Net
  imports Net_Frame Ring_List
begin

text \<open>
  The network stack of \<^verbatim>\<open>src/core/net.c\<close>: interfaces, the neighbour table, the receive queue,
  ARP, ICMP echo and the DHCP client.  Interfaces and received buffers are stores indexed by
  address, null is \<open>0\<close>.  The driver behind an interface is a parameter: what its functions return
  is given by fields of the interface, and the frames it accepted are listed in \<open>if_sent\<close>.
\<close>

section \<open>State\<close>

record netbuf =
  nb_next :: u32
  nb_prev :: u32
  nb_buf :: frame
  nb_len :: u16

record netiface =
  if_index :: nat
  ip_addr :: u32
  ip_subnet :: u32
  ip_gw :: u32
  get_mac :: macaddr
  transmit_frame_alloc :: "frame option"
  transmit_frame_enqueue :: "frame \<Rightarrow> u16 \<Rightarrow> int"
  do_transmit :: int
  neighbors :: "(u32 \<times> macaddr) list"
  neighbors_head :: nat
  if_sent :: "(frame \<times> u16) list"

record network =
  rxq :: u32
  net_iface :: "u32 list"
  ifs :: "u32 \<Rightarrow> netiface"
  nbufs :: "u32 \<Rightarrow> netbuf"
  recycled :: "u32 list"

abbreviation (input) MAX_NEIGHBORS :: nat where "MAX_NEIGHBORS \<equiv> 8"
abbreviation (input) MAX_NETWORK_INTERFACES :: nat where "MAX_NETWORK_INTERFACES \<equiv> 1"

definition upd_if :: "(netiface \<Rightarrow> netiface) \<Rightarrow> u32 \<Rightarrow> network \<Rightarrow> network" where
  "upd_if g p net = net\<lparr>ifs := (ifs net)(p := g (ifs net p))\<rparr>"

section \<open>Interfaces and neighbours\<close>

fun register_at :: "network \<Rightarrow> u32 \<Rightarrow> nat list \<Rightarrow> int \<times> network" where
  "register_at net iface [] = (errno_code ENODEV, net)"
| "register_at net iface (i # is) =
     (if net_iface net ! i = 0 then
        (0, upd_if (if_index_update (\<lambda>_. i)) iface (net\<lparr>net_iface := (net_iface net)[i := iface]\<rparr>))
      else register_at net iface is)"

definition net_interface_register :: "network \<Rightarrow> u32 \<Rightarrow> int \<times> network" where
  "net_interface_register net iface = register_at net iface [0..<MAX_NETWORK_INTERFACES]"

definition net_interface_for_destination :: "network \<Rightarrow> u32" where
  "net_interface_for_destination net = net_iface net ! 0"

definition net_interface_by_index :: "network \<Rightarrow> nat \<Rightarrow> u32" where
  "net_interface_by_index net idx = (if idx \<ge> MAX_NETWORK_INTERFACES then 0 else net_iface net ! idx)"

definition net_interface_by_ip_or_mac :: "network \<Rightarrow> u32 \<Rightarrow> macaddr \<Rightarrow> u32" where
  "net_interface_by_ip_or_mac net ip mac =
     (let use_mac = \<not> mac_equal mac ETH_INVALID_MAC;
          use_ip = ip \<noteq> 0
      in case find (\<lambda>p. p \<noteq> 0 \<and> (use_mac \<and> mac_equal (get_mac (ifs net p)) mac \<or>
                                 use_ip \<and> ip = ip_addr (ifs net p)))
              (map ((!) (net_iface net)) [0..<MAX_NETWORK_INTERFACES]) of
           None \<Rightarrow> 0 | Some p \<Rightarrow> p)"

definition net_neighbor_lookup_on :: "network \<Rightarrow> u32 \<Rightarrow> u32 \<Rightarrow> macaddr" where
  "net_neighbor_lookup_on net iface addr =
     (if iface = 0 then ETH_INVALID_MAC
      else case find (\<lambda>n. fst n = addr) (neighbors (ifs net iface)) of
             None \<Rightarrow> ETH_INVALID_MAC | Some (_, mac) \<Rightarrow> mac)"

definition net_neighbor_resolve :: "network \<Rightarrow> u32 \<Rightarrow> u32 \<Rightarrow> macaddr" where
  "net_neighbor_resolve net iface addr =
     (if addr = 0xffffffff then ETH_BROADCAST_MAC
      else if iface \<noteq> 0 then net_neighbor_lookup_on net iface addr
      else case find (\<lambda>m. \<not> mac_equal m ETH_INVALID_MAC)
                  (map (\<lambda>i. net_neighbor_lookup_on net (net_iface net ! i) addr) [0..<MAX_NETWORK_INTERFACES]) of
             None \<Rightarrow> ETH_INVALID_MAC | Some m \<Rightarrow> m)"

definition neighbor_remember :: "netiface \<Rightarrow> u32 \<Rightarrow> macaddr \<Rightarrow> netiface" where
  "neighbor_remember iface addr mac =
     (if addr = 0 then iface
      else if addr = 0xffffffff then iface
      else case find (\<lambda>i. fst (neighbors iface ! i) = addr) [0..<MAX_NEIGHBORS] of
        Some i \<Rightarrow> iface\<lparr>neighbors := (neighbors iface)[i := (addr, mac)]\<rparr>
      | None \<Rightarrow>
          let i = neighbors_head iface in
          iface\<lparr>neighbors := (neighbors iface)[i := (addr, mac)],
                neighbors_head := (i + 1) mod MAX_NEIGHBORS\<rparr>)"

definition net_neighbor_remember :: "network \<Rightarrow> u32 \<Rightarrow> u32 \<Rightarrow> macaddr \<Rightarrow> network" where
  "net_neighbor_remember net iface addr mac = upd_if (\<lambda>i. neighbor_remember i addr mac) iface net"

section \<open>Transmission\<close>

definition address_frame :: "network \<Rightarrow> u32 \<Rightarrow> frame \<Rightarrow> frame" where
  "address_frame net iface frm =
     (let f = wr_mac frm 6 (get_mac (ifs net iface)) in
      if eth_type f = ETHERTYPE_IPV4 then
        let dstmac = net_neighbor_resolve net iface (ip_dst f 14) in
        if \<not> mac_equal dstmac ETH_INVALID_MAC then wr_mac f 0 dstmac else f
      else if eth_type f = ETHERTYPE_ARP then
        let f = wr_mac f 0 (rd_mac f 32) in wr_mac f 6 (rd_mac f 22)
      else f)"

definition net_transmit_frame :: "network \<Rightarrow> u32 \<Rightarrow> frame \<Rightarrow> u16 \<Rightarrow> int \<times> network" where
  "net_transmit_frame net iface frm len =
     (let f = address_frame net iface frm;
          (f, len) = (if len < 60 then (wr_bytes f (unat len) (\<lambda>_. 0) 0 (unat (60 - len)), 60) else (f, len));
          ret = transmit_frame_enqueue (ifs net iface) f len
      in if ret \<noteq> 0 then (ret, net)
         else (do_transmit (ifs net iface), upd_if (if_sent_update (\<lambda>s. s @ [(f, len)])) iface net))"

section \<open>ARP\<close>

abbreviation (input) ARP_OP_REQUEST :: u16 where "ARP_OP_REQUEST \<equiv> 1"
abbreviation (input) ARP_OP_REPLY :: u16 where "ARP_OP_REPLY \<equiv> 2"

definition arp_frame :: "frame \<Rightarrow> netiface \<Rightarrow> u16 \<Rightarrow> u32 \<Rightarrow> macaddr \<Rightarrow> frame" where
  "arp_frame frm i oper dst_ip dst_mac =
     (let f = wr16 frm 12 (htons ETHERTYPE_ARP);
          f = wr16 f 14 (htons 1);
          f = wr16 f 16 (htons ETHERTYPE_IPV4);
          f = f(18 := 6);
          f = f(19 := 4);
          f = wr16 f 20 (htons oper);
          f = wr_mac f 22 (get_mac i);
          f = wr32 f 28 (ip_addr i);
          f = wr_mac f 32 dst_mac
      in wr32 f 38 dst_ip)"

definition net_arp_send :: "network \<Rightarrow> u32 \<Rightarrow> u16 \<Rightarrow> u32 \<Rightarrow> macaddr \<Rightarrow> int \<times> network" where
  "net_arp_send net iface oper dst_ip dst_mac =
     (if iface = 0 then (errno_code ENODEV, net)
      else case transmit_frame_alloc (ifs net iface) of
        None \<Rightarrow> (errno_code ENOMEM, net)
      | Some frm \<Rightarrow>
          (0, snd (net_transmit_frame net iface (arp_frame frm (ifs net iface) oper dst_ip dst_mac)
                     (of_nat (eth_hdr_size + arp_hdr_size)))))"

definition net_arp_send_whohas :: "network \<Rightarrow> u32 \<Rightarrow> u32 \<Rightarrow> int \<times> network" where
  "net_arp_send_whohas net iface ip = net_arp_send net iface ARP_OP_REQUEST ip ETH_BROADCAST_MAC"

definition net_arp_receive :: "network \<Rightarrow> u32 \<Rightarrow> frame \<Rightarrow> network" where
  "net_arp_receive net iface f =
     (let dst_ip = rd32 f 38; dst_mac = rd_mac f 32; src_ip = rd32 f 28; src_mac = rd_mac f 22;
          iface = (if iface = 0 then net_interface_by_ip_or_mac net dst_ip dst_mac else iface);
          oper = ntohs (rd16 f 20)
      in if iface = 0 then net
         else if oper = ARP_OP_REPLY then net_neighbor_remember net iface src_ip src_mac
         else if oper = ARP_OP_REQUEST \<and> mac_equal dst_mac ETH_INVALID_MAC \<and> dst_ip = ip_addr (ifs net iface) then
           snd (net_arp_send net iface ARP_OP_REPLY src_ip src_mac)
         else net)"

section \<open>ICMP\<close>

definition net_icmp_receive :: "network \<Rightarrow> u32 \<Rightarrow> frame \<Rightarrow> network" where
  "net_icmp_receive net iface f =
     (let icmp = 14 + 4 * ip_nwords f 14;
          payload = icmp + icmp_hdr_size
      in if f icmp = ICMP_ECHO_REQUEST then
           if f (icmp + 1) \<noteq> 0 then net
           else case transmit_frame_alloc (ifs net iface) of
             None \<Rightarrow> net
           | Some reply \<Rightarrow>
               let (r, data) = net_buf_icmp4_init reply (ip_addr (ifs net iface)) (ip_src f 14)
                                 ICMP_ECHO_REPLY 0 (rd32 f (icmp + 4));
                   datalen = unat (ip_iplen f 14 - of_nat (4 * ip_nwords f 14 + icmp_hdr_size));
                   r = wr_bytes r data f payload datalen;
                   (r, ethlen) = net_buf_icmp4_checksum r data datalen
               in snd (net_transmit_frame net iface r (of_nat ethlen))
         else net)"

definition ping_msg :: "u8 list" where
  "ping_msg = map (\<lambda>c. of_nat (of_char c)) ''Hello from COSEC!'' @ [0]"

definition test_net_ping :: "network \<Rightarrow> u32 \<Rightarrow> network" where
  "test_net_ping net ip =
     (let iface = net_interface_for_destination net in
      if iface = 0 then net
      else case transmit_frame_alloc (ifs net iface) of
        None \<Rightarrow> net
      | Some frm \<Rightarrow>
          let (f, data) = net_buf_icmp4_init frm (ip_addr (ifs net iface)) ip ICMP_ECHO_REQUEST 0 0;
              f = wr_list f data ping_msg;
              (f, ethlen) = net_buf_icmp4_checksum f data (length ping_msg)
          in snd (net_transmit_frame net iface f (of_nat ethlen)))"

section \<open>The receive queue\<close>

definition rxq_append :: "network \<Rightarrow> u32 \<Rightarrow> network" where
  "rxq_append net q =
     (if rxq net \<noteq> 0 then
        let head = rxq net;
            n = nbufs net;
            prev = nb_prev (n head);
            n = n(head := (n head)\<lparr>nb_prev := q\<rparr>);
            n = n(q := (n q)\<lparr>nb_next := head\<rparr>);
            n = n(prev := (n prev)\<lparr>nb_next := q\<rparr>);
            n = n(q := (n q)\<lparr>nb_prev := prev\<rparr>)
        in net\<lparr>nbufs := n\<rparr>
      else net\<lparr>rxq := q, nbufs := (nbufs net)(q := (nbufs net q)\<lparr>nb_next := q, nb_prev := q\<rparr>)\<rparr>)"

definition net_receive_driver_frame :: "network \<Rightarrow> u32 \<Rightarrow> u32 \<Rightarrow> network" where
  "net_receive_driver_frame net iface q =
     (let f = nb_buf (nbufs net q);
          recycle = (\<lambda>net. net\<lparr>recycled := recycled net @ [q]\<rparr>)
      in if eth_type f = ETHERTYPE_ARP then recycle (net_arp_receive net iface f)
         else if eth_type f = ETHERTYPE_IPV4 then
           if ip_proto f 14 = IPV4TYPE_ICMP then recycle (net_icmp_receive net iface f)
           else if ip_proto f 14 = IPV4TYPE_UDP then rxq_append net q
           else recycle net
         else recycle net)"

definition udp4_match :: "u16 \<Rightarrow> frame \<Rightarrow> bool" where
  "udp4_match port f \<longleftrightarrow>
     eth_type f = ETHERTYPE_IPV4 \<and> ip_proto f 14 = IPV4TYPE_UDP \<and>
     (port = 0 \<or> ntohs (rd16 f (14 + 4 * ip_nwords f 14 + 2)) = port)"

text \<open>The walk over the queue; it gives the first match, null when it comes back to the head.\<close>

partial_function (option) udp4_scan :: "network \<Rightarrow> u16 \<Rightarrow> u32 \<Rightarrow> u32 option" where
  "udp4_scan net port cur =
     (if udp4_match port (nb_buf (nbufs net cur)) then Some cur
      else let cur = nb_next (nbufs net cur) in
           if cur = rxq net then Some 0 else udp4_scan net port cur)"

definition rxq_relink :: "network \<Rightarrow> u32 \<Rightarrow> network" where
  "rxq_relink net cur =
     (let n = nbufs net;
          nxt = nb_next (n cur);
          n = n(nxt := (n nxt)\<lparr>nb_prev := nb_prev (n cur)\<rparr>);
          prv = nb_prev (n cur);
          n = n(prv := (n prv)\<lparr>nb_next := nb_next (n cur)\<rparr>)
      in net\<lparr>nbufs := n\<rparr>)"

definition rxq_remove :: "network \<Rightarrow> u32 \<Rightarrow> network" where
  "rxq_remove net cur =
     (if rxq net = cur then
        if nb_next (nbufs net cur) = cur then net\<lparr>rxq := 0\<rparr>
        else let net = rxq_relink net cur in net\<lparr>rxq := nb_next (nbufs net cur)\<rparr>
      else rxq_relink net cur)"

definition udp4_take :: "network \<Rightarrow> u16 \<Rightarrow> (u32 \<times> network) option" where
  "udp4_take net port =
     (if rxq net = 0 then Some (0, net)
      else case udp4_scan net port (rxq net) of
        None \<Rightarrow> None
      | Some cur \<Rightarrow> if cur = 0 then Some (0, net) else Some (cur, rxq_remove net cur))"

text \<open>
  \<^verbatim>\<open>net_wait_udp4\<close> repeats the walk until it finds a frame or the time is over.  What happens
  meanwhile is a script: for each wakeup the time that \<^verbatim>\<open>time(NULL)\<close> gives after the walk, and the
  buffers that the driver hands over (interface, buffer address and contents) while the processor is
  halted.  At the end of the script the call is still blocked, which is \<open>None\<close>.
\<close>

type_synonym arrivals = "(u32 \<times> u32 \<times> netbuf) list"

fun net_deliver :: "network \<Rightarrow> arrivals \<Rightarrow> network" where
  "net_deliver net [] = net"
| "net_deliver net ((iface, q, b) # as) =
     net_deliver (net_receive_driver_frame (net\<lparr>nbufs := (nbufs net)(q := b)\<rparr>) iface q) as"

fun wait_udp4_loop :: "network \<Rightarrow> u16 \<Rightarrow> u32 \<Rightarrow> (u32 \<times> arrivals) list \<Rightarrow> (u32 \<times> network) option" where
  "wait_udp4_loop net port endtime script =
     (case udp4_take net port of
        None \<Rightarrow> None
      | Some (cur, net') \<Rightarrow>
          if cur \<noteq> 0 then Some (cur, net')
          else case script of
            [] \<Rightarrow> None
          | (t, as) # rest \<Rightarrow> if t > endtime then Some (0, net) else wait_udp4_loop (net_deliver net as) port endtime rest)"

declare wait_udp4_loop.simps [simp del]

text \<open>\<open>now\<close> is what the first \<^verbatim>\<open>time(NULL)\<close> gives.\<close>

definition net_wait_udp4 :: "network \<Rightarrow> u16 \<Rightarrow> u32 \<Rightarrow> u32 \<Rightarrow> (u32 \<times> arrivals) list \<Rightarrow> (u32 \<times> network) option" where
  "net_wait_udp4 net port timeout_s now script =
     (let endtime = now + timeout_s in wait_udp4_loop net port endtime script)"

section \<open>The DHCP client\<close>

abbreviation (input) DHCP_OPT_OFFSET :: nat where "DHCP_OPT_OFFSET \<equiv> 240"
abbreviation (input) DHCP_SERVER_PORT :: u16 where "DHCP_SERVER_PORT \<equiv> 67"
abbreviation (input) DHCP_CLIENT_PORT :: u16 where "DHCP_CLIENT_PORT \<equiv> 68"
abbreviation (input) dhcp_xid :: u32 where "dhcp_xid \<equiv> 0x3903f326"
abbreviation (input) dhcp_timeout_s :: u32 where "dhcp_timeout_s \<equiv> 5"
abbreviation (input) DHCPOPT_SUBNET :: u8 where "DHCPOPT_SUBNET \<equiv> 1"
abbreviation (input) DHCPOPT_GW :: u8 where "DHCPOPT_GW \<equiv> 3"
abbreviation (input) DHCPOPT_END :: u8 where "DHCPOPT_END \<equiv> 255"

text \<open>Nothing but an end option stops the reader: without one it walks on through memory.\<close>

partial_function (option) test_read_dhcpopts :: "network \<Rightarrow> u32 \<Rightarrow> frame \<Rightarrow> nat \<Rightarrow> network option" where
  "test_read_dhcpopts net iface f opts =
     (if f opts = DHCPOPT_END then Some net
      else
        let net = (if f opts = DHCPOPT_SUBNET \<and> iface \<noteq> 0 then
                     upd_if (ip_subnet_update (\<lambda>_. rd32 f (opts + 2))) iface net
                   else if f opts = DHCPOPT_GW \<and> iface \<noteq> 0 then
                     upd_if (ip_gw_update (\<lambda>_. rd32 f (opts + 2))) iface net
                   else net)
        in test_read_dhcpopts net iface f (opts + (unat (f (opts + 1)) + 2)))"

definition ip_octets :: "u32 \<Rightarrow> u8 list" where
  "ip_octets ip = map (\<lambda>i. ucast (drop_bit (8 * i) ip)) [0, 1, 2, 3]"

definition dhcp_message :: "network \<Rightarrow> u32 \<Rightarrow> frame \<Rightarrow> u32 \<Rightarrow> u8 list \<Rightarrow> frame \<times> nat" where
  "dhcp_message net iface frm siaddr options =
     (let (f, data) = net_buf_udp4_init frm 0 DHCP_CLIENT_PORT 0xffffffff DHCP_SERVER_PORT;
          f = wr_bytes f data (\<lambda>_. 0) 0 DHCP_OPT_OFFSET;
          f = f(data := 1, data + 1 := 1, data + 2 := 6);
          f = wr32 f (data + 4) dhcp_xid;
          f = wr32 f (data + 20) siaddr;
          f = wr_mac f (data + 28) (get_mac (ifs net iface));
          f = wr32 f (data + DHCP_OPT_OFFSET - 4) (htonl 0x63825363);
          f = wr_list f (data + DHCP_OPT_OFFSET) options
      in net_buf_udp4_checksum f data (DHCP_OPT_OFFSET + length options))"

definition dhcp_discover_opts :: "u8 list" where
  "dhcp_discover_opts = [53, 1, 1, 55, 4, 1, 6, 3, 15, 255]"

definition dhcp_request_opts :: "u32 \<Rightarrow> u32 \<Rightarrow> u8 list" where
  "dhcp_request_opts ipaddr server =
     [53, 1, 3] @ [50, 4] @ ip_octets ipaddr @ [54, 4] @ ip_octets server @ [255]"

definition dhcp_send :: "network \<Rightarrow> u32 \<Rightarrow> u32 \<Rightarrow> u8 list \<Rightarrow> network option" where
  "dhcp_send net iface siaddr options =
     (case transmit_frame_alloc (ifs net iface) of
        None \<Rightarrow> None
      | Some frm \<Rightarrow>
          let (f, ethlen) = dhcp_message net iface frm siaddr options
          in Some (snd (net_transmit_frame net iface f (of_nat ethlen))))"

definition recycle_buf :: "network \<Rightarrow> u32 \<Rightarrow> network" where
  "recycle_buf net q = net\<lparr>recycled := recycled net @ [q]\<rparr>"

definition dhcp_at :: "frame \<Rightarrow> nat" where
  "dhcp_at f = 14 + 4 * ip_nwords f 14 + udp_hdr_size"

text \<open>\<open>test_net_dhcp\<close> takes, for each of its two waits, the time at which it starts and the script of
  what happens meanwhile.\<close>

definition dhcp_ack :: "network \<Rightarrow> u32 \<Rightarrow> u32 \<times> (u32 \<times> arrivals) list \<Rightarrow> network option" where
  "dhcp_ack net iface w =
     (case net_wait_udp4 net DHCP_CLIENT_PORT dhcp_timeout_s (fst w) (snd w) of
        None \<Rightarrow> None
      | Some (reply, net) \<Rightarrow>
          if reply = 0 then Some net
          else let f = nb_buf (nbufs net reply);
                   net = upd_if (ip_addr_update (\<lambda>_. rd32 f (dhcp_at f + 16))) iface net
               in case test_read_dhcpopts net iface f (dhcp_at f + DHCP_OPT_OFFSET) of
                    None \<Rightarrow> None
                  | Some net \<Rightarrow> Some (recycle_buf net reply))"

definition test_net_dhcp ::
  "network \<Rightarrow> u32 \<times> (u32 \<times> arrivals) list \<Rightarrow> u32 \<times> (u32 \<times> arrivals) list \<Rightarrow> network option" where
  "test_net_dhcp net w1 w2 =
     (let iface = net_interface_for_destination net in
      if iface = 0 then Some net
      else case dhcp_send net iface 0 dhcp_discover_opts of
        None \<Rightarrow> Some net
      | Some net \<Rightarrow>
          (case net_wait_udp4 net DHCP_CLIENT_PORT dhcp_timeout_s (fst w1) (snd w1) of
             None \<Rightarrow> None
           | Some (reply, net) \<Rightarrow>
               if reply = 0 then Some net
               else
                 let f = nb_buf (nbufs net reply);
                     net = net_neighbor_remember net iface (ip_src f 14) (rd_mac f 6);
                     ipaddr = rd32 f (dhcp_at f + 16);
                     server = rd32 f (dhcp_at f + 20);
                     net = recycle_buf net reply
                 in case dhcp_send net iface server (dhcp_request_opts ipaddr server) of
                      None \<Rightarrow> Some net
                    | Some net \<Rightarrow> dhcp_ack net iface w2))"

section \<open>The queue is a list of buffers in order of arrival\<close>

definition rxq_ok :: "network \<Rightarrow> u32 list \<Rightarrow> bool" where
  "rxq_ok net qs \<longleftrightarrow>
     (if qs = [] then rxq net = 0
      else rxq net = hd qs \<and> distinct qs \<and> 0 \<notin> set qs \<and>
        dring (\<lambda>q. nb_next (nbufs net q)) (\<lambda>q. nb_prev (nbufs net q)) qs)"

definition rxq_accepts :: "network \<Rightarrow> u16 \<Rightarrow> u32 \<Rightarrow> bool" where
  "rxq_accepts net port q \<longleftrightarrow> udp4_match port (nb_buf (nbufs net q))"

lemma rxq_append_bufs: "nb_buf (nbufs (rxq_append net q) a) = nb_buf (nbufs net a)"
  by (simp add: rxq_append_def Let_def)

lemma rxq_okD:
  assumes "rxq_ok net qs" "qs \<noteq> []"
  shows "rxq net = hd qs" "rxq net \<noteq> 0" "distinct qs" "0 \<notin> set qs"
    "dring (\<lambda>q. nb_next (nbufs net q)) (\<lambda>q. nb_prev (nbufs net q)) qs"
  using assms by (cases qs; auto simp: rxq_ok_def)+

lemma rxq_append_ok:
  assumes ok: "rxq_ok net qs" and q: "q \<noteq> 0" "q \<notin> set qs"
  shows "rxq_ok (rxq_append net q) (qs @ [q])"
proof (cases "qs = []")
  case True
  then show ?thesis using ok q by (simp add: rxq_ok_def rxq_append_def dring_def links_def)
next
  case False
  let ?nx = "\<lambda>net q. nb_next (nbufs net q)" and ?pv = "\<lambda>net q. nb_prev (nbufs net q)"
  note r = rxq_okD [OF ok False]
  have h: "hd qs \<noteq> q" "last qs \<noteq> q" using False q by auto
  have pv: "?pv net (hd qs) = last qs" using dring_prev_hd [of _ _ "hd qs" "tl qs"] r(5) False by simp
  have "dring (?nx (rxq_append net q)) (?pv (rxq_append net q)) (qs @ [q])"
    by (rule dring_snoc [OF r(5,3) q(2)]) (use r(1,2) h pv in \<open>auto simp: rxq_append_def Let_def\<close>)
  then show ?thesis using r q False by (simp add: rxq_ok_def rxq_append_def Let_def)
qed

lemma rxq_relink_bufs: "nb_buf (nbufs (rxq_relink net c) a) = nb_buf (nbufs net a)"
  by (simp add: rxq_relink_def Let_def)

lemma rxq_remove_bufs: "nb_buf (nbufs (rxq_remove net c) a) = nb_buf (nbufs net a)"
  by (simp add: rxq_remove_def rxq_relink_bufs Let_def)

lemma rxq_remove_ok:
  assumes ok: "rxq_ok net (xs @ c # ys)"
  shows "rxq_ok (rxq_remove net c) (xs @ ys)"
proof -
  let ?nx = "\<lambda>net q. nb_next (nbufs net q)" and ?pv = "\<lambda>net q. nb_prev (nbufs net q)"
  note r = rxq_okD [OF ok, simplified]
  have c: "dring (?nx net) (?pv net) (c # ys @ xs)" using dring_rotate [OF r(5)] by simp
  show ?thesis
  proof (cases "xs @ ys = []")
    case True
    with c have "?nx net c = c" by (simp add: dring_def links_def)
    with True r(1) show ?thesis by (simp add: rxq_remove_def rxq_ok_def)
  next
    case False
    have nc: "?nx net c = hd (ys @ xs)" "?pv net c = last (ys @ xs)"
      using False dring_prev_hd [OF c] c by (cases "ys @ xs"; auto dest: dring_next [of _ _ "[]", simplified])+
    have n: "?nx net c \<noteq> c" "?pv net c \<noteq> c"
      using False r(3) hd_in_set [of "ys @ xs"] last_in_set [of "ys @ xs"] by (auto simp: nc)
    have "dring (?nx (rxq_relink net c)) (?pv (rxq_relink net c)) (xs @ ys)"
      by (rule dring_unlink [OF r(5)]) (use r(3) False n in \<open>auto simp: rxq_relink_def Let_def\<close>)
    moreover have "rxq (rxq_relink net c) = rxq net" "?nx (rxq_relink net c) c = ?nx net c"
      using n by (simp_all add: rxq_relink_def Let_def)
    moreover have "xs \<noteq> [] \<Longrightarrow> hd xs \<noteq> c" using r(3) by auto
    ultimately show ?thesis
      using r False n nc by (cases xs) (auto simp: rxq_remove_def rxq_ok_def Let_def)
  qed
qed

lemma udp4_scan_from:
  assumes "rxq_ok net (xs @ c # ys)"
  shows "udp4_scan net port c = Some (case find (rxq_accepts net port) (c # ys) of None \<Rightarrow> 0 | Some q \<Rightarrow> q)"
  using assms
proof (induction ys arbitrary: xs c)
  case Nil
  have "nb_next (nbufs net c) = rxq net"
    using dring_last(1) rxq_okD(1,5) [OF Nil] by fastforce
  then show ?case by (subst udp4_scan.simps) (simp add: rxq_accepts_def [symmetric])
next
  case (Cons d ys)
  note r = rxq_okD [OF Cons.prems, simplified]
  have "nb_next (nbufs net c) = d" using dring_next [OF r(5)] by simp
  moreover have "d \<noteq> rxq net" using r(1,3) by (cases xs) auto
  ultimately show ?case
    using Cons.IH [of "xs @ [c]" d] Cons.prems by (subst udp4_scan.simps) (simp add: rxq_accepts_def [symmetric])
qed

lemma udp4_take_none:
  assumes "rxq_ok net qs" "find (rxq_accepts net port) qs = None"
  shows "udp4_take net port = Some (0, net)"
proof (cases qs)
  case (Cons c ys)
  then show ?thesis using assms udp4_scan_from [of net "[]" c ys port] rxq_okD(1) [OF assms(1)]
    by (simp add: udp4_take_def)
qed (use assms in \<open>simp add: rxq_ok_def udp4_take_def\<close>)

lemma udp4_take_some:
  assumes ok: "rxq_ok net qs" and f: "find (rxq_accepts net port) qs = Some q"
  shows "udp4_take net port = Some (q, rxq_remove net q)" "rxq_ok (rxq_remove net q) (remove1 q qs)" "q \<noteq> 0"
proof -
  have q: "q \<in> set qs" using f by (auto simp: find_Some_iff)
  then obtain c zs where qs: "qs = c # zs" by (cases qs) auto
  then show q0: "q \<noteq> 0" using q rxq_okD(4) [OF ok] by auto
  show "udp4_take net port = Some (q, rxq_remove net q)"
    using udp4_scan_from [of net "[]" c zs port] rxq_okD(1,2) [OF ok] ok f q0 qs by (simp add: udp4_take_def)
  obtain xs ys where s: "qs = xs @ q # ys" "q \<notin> set xs" using q split_list_first by metis
  then show "rxq_ok (rxq_remove net q) (remove1 q qs)"
    using rxq_remove_ok [of net xs q ys] ok by (simp add: remove1_append)
qed

section \<open>Queues searched in order\<close>

text \<open>
  The contract of such a queue: what is appended goes to the end, a search takes out the first element
  that its key accepts, and the acceptance of an element does not depend on the queue.
\<close>

fun drain :: "('s \<Rightarrow> ('q \<times> 's) option) \<Rightarrow> nat \<Rightarrow> 's \<Rightarrow> ('q list \<times> 's) option" where
  "drain tk 0 s = Some ([], s)"
| "drain tk (Suc n) s =
     (case tk s of None \<Rightarrow> None
      | Some (q, s') \<Rightarrow> map_option (\<lambda>(qs, s''). (q # qs, s'')) (drain tk n s'))"

locale match_queue =
  fixes inv :: "'s \<Rightarrow> 'q list \<Rightarrow> bool" and accepts :: "'s \<Rightarrow> 'k \<Rightarrow> 'q \<Rightarrow> bool" and null :: 'q
    and app :: "'s \<Rightarrow> 'q \<Rightarrow> 's" and tk :: "'s \<Rightarrow> 'k \<Rightarrow> ('q \<times> 's) option"
  assumes app_inv: "inv s qs \<Longrightarrow> q \<noteq> null \<Longrightarrow> q \<notin> set qs \<Longrightarrow> inv (app s q) (qs @ [q])"
    and app_accepts: "accepts (app s q) = accepts s"
    and tk_none: "inv s qs \<Longrightarrow> find (accepts s k) qs = None \<Longrightarrow> tk s k = Some (null, s)"
    and tk_some: "inv s qs \<Longrightarrow> find (accepts s k) qs = Some q \<Longrightarrow>
      \<exists>s'. tk s k = Some (q, s') \<and> inv s' (remove1 q qs) \<and> accepts s' = accepts s"
begin

lemma app_all:
  assumes "inv s qs" "distinct (qs @ as)" "null \<notin> set as"
  shows "inv (foldl app s as) (qs @ as) \<and> accepts (foldl app s as) = accepts s"
  using assms
proof (induction as arbitrary: s qs)
  case (Cons a as)
  then show ?case using Cons.IH [of "app s a" "qs @ [a]"] app_inv [of s qs a] app_accepts [of s a] by auto
qed simp

lemma drain_matches:
  assumes "inv s qs" "distinct qs"
  shows "\<exists>s'. drain (\<lambda>s. tk s k) (length (filter (accepts s k) qs)) s = Some (filter (accepts s k) qs, s') \<and>
    inv s' (filter (\<lambda>q. \<not> accepts s k q) qs)"
  using assms
proof (induction "length (filter (accepts s k) qs)" arbitrary: s qs)
  case 0
  then have "filter (accepts s k) qs = []" "filter (\<lambda>q. \<not> accepts s k q) qs = qs" by (auto simp: filter_empty_conv)
  with 0 show ?case by simp
next
  case (Suc n)
  then obtain q where f: "find (accepts s k) qs = Some q"
    by (cases "find (accepts s k) qs") (auto simp: find_None_iff filter_empty_conv)
  then obtain i where "i < length qs" "accepts s k (qs ! i)" "q = qs ! i" "\<forall>j<i. \<not> accepts s k (qs ! j)"
    by (auto simp: find_Some_iff)
  then have "qs = take i qs @ q # drop (Suc i) qs" "\<forall>x\<in>set (take i qs). \<not> accepts s k x" "accepts s k q"
    by (auto simp: id_take_nth_drop in_set_conv_nth)
  then obtain xs ys where qs: "qs = xs @ q # ys" "\<forall>x\<in>set xs. \<not> accepts s k x" "accepts s k q" by blast
  obtain s' where s': "tk s k = Some (q, s')" "inv s' (remove1 q qs)" "accepts s' = accepts s"
    using tk_some [OF Suc.prems(1) f] by blast
  have rm: "remove1 q qs = xs @ ys" using qs Suc.prems(2) by (auto simp: remove1_append)
  have xs: "filter (accepts s k) xs = []" using qs(2) by (auto simp: filter_empty_conv)
  show ?case
    using Suc.hyps(1) [of s' "xs @ ys"] Suc.hyps(2) Suc.prems(2) s' rm qs xs by auto
qed

end

interpretation rx: match_queue rxq_ok rxq_accepts 0 rxq_append udp4_take
proof
  show "rxq_ok (rxq_append s q) (qs @ [q])" if "rxq_ok s qs" "q \<noteq> 0" "q \<notin> set qs" for s qs q
    using that by (rule rxq_append_ok)
  show "rxq_accepts (rxq_append s q) = rxq_accepts s" for s q
    by (simp add: fun_eq_iff rxq_accepts_def rxq_append_bufs)
  show "udp4_take s k = Some (0, s)" if "rxq_ok s qs" "find (rxq_accepts s k) qs = None" for s qs k
    using that by (rule udp4_take_none)
  show "\<exists>s'. udp4_take s k = Some (q, s') \<and> rxq_ok s' (remove1 q qs) \<and> rxq_accepts s' = rxq_accepts s"
    if "rxq_ok s qs" "find (rxq_accepts s k) qs = Some q" for s qs k q
    using udp4_take_some [OF that] by (auto simp: fun_eq_iff rxq_accepts_def rxq_remove_bufs)
qed

end
