(* ===== verification/Net_Spec.thy ===== *)
theory Net_Spec
  imports Net
begin

text \<open>
  What the network stack promises: datagrams of a port are received in order of arrival and
  \<^verbatim>\<open>net_wait_udp4\<close> returns, echo requests are answered, neighbours are remembered, DHCP options
  are read, and which ARP requests are answered.
\<close>

section \<open>Handlers leave the receive queue alone\<close>

named_theorems net_frame_simps \<open>parts of the network a handler does not touch\<close>

lemma upd_if_fields [net_frame_simps]:
  "rxq (upd_if g p net) = rxq net" "nbufs (upd_if g p net) = nbufs net"
  "net_iface (upd_if g p net) = net_iface net" "ifs (upd_if g p net) = (ifs net)(p := g (ifs net p))"
  "recycled (upd_if g p net) = recycled net"
  by (simp_all add: upd_if_def)

lemma transmit_fields [net_frame_simps]:
  "rxq (snd (net_transmit_frame net p f len)) = rxq net" "nbufs (snd (net_transmit_frame net p f len)) = nbufs net"
  by (simp_all add: net_transmit_frame_def Let_def net_frame_simps split: prod.splits)

lemma arp_send_fields [net_frame_simps]:
  "rxq (snd (net_arp_send net p oper ip m)) = rxq net" "nbufs (snd (net_arp_send net p oper ip m)) = nbufs net"
  by (simp_all add: net_arp_send_def net_frame_simps split: option.splits)

lemma arp_receive_fields [net_frame_simps]:
  "rxq (net_arp_receive net p f) = rxq net" "nbufs (net_arp_receive net p f) = nbufs net"
  by (simp_all add: net_arp_receive_def net_neighbor_remember_def Let_def net_frame_simps)

lemma icmp_receive_fields [net_frame_simps]:
  "rxq (net_icmp_receive net p f) = rxq net" "nbufs (net_icmp_receive net p f) = nbufs net"
  by (simp_all add: net_icmp_receive_def Let_def net_frame_simps split: option.splits prod.splits)

lemma rxq_ok_cong:
  assumes "rxq net' = rxq net" "\<And>q. q \<in> set qs \<Longrightarrow> nbufs net' q = nbufs net q"
  shows "rxq_ok net' qs = rxq_ok net qs"
  using assms dring_cong [of qs "\<lambda>q. nb_next (nbufs net' q)" "\<lambda>q. nb_next (nbufs net q)"]
  by (simp add: rxq_ok_def)

section \<open>Arrival of frames\<close>

abbreviation is_udp4 :: "frame \<Rightarrow> bool" where
  "is_udp4 \<equiv> udp4_match 0"

lemma udp4_match_is_udp4: "udp4_match port f \<Longrightarrow> is_udp4 f"
  by (simp add: udp4_match_def)

lemma receive_udp4: "is_udp4 (nb_buf (nbufs net q)) \<Longrightarrow> net_receive_driver_frame net p q = rxq_append net q"
  by (simp add: udp4_match_def net_receive_driver_frame_def Let_def)

lemma receive_other:
  assumes "\<not> is_udp4 (nb_buf (nbufs net q))"
  shows "rxq (net_receive_driver_frame net p q) = rxq net" "nbufs (net_receive_driver_frame net p q) = nbufs net"
  using assms by (auto simp: udp4_match_def net_receive_driver_frame_def Let_def net_frame_simps)

text \<open>The queued frames with their contents, and those an arrival brings.\<close>

definition queued :: "network \<Rightarrow> u32 list \<Rightarrow> (u32 \<times> frame) list" where
  "queued net qs = map (\<lambda>q. (q, nb_buf (nbufs net q))) qs"

definition arriving :: "arrivals \<Rightarrow> (u32 \<times> frame) list" where
  "arriving as = map (\<lambda>(_, q, b). (q, nb_buf b)) as"

lemma arriving_simps [simp]:
  "arriving [] = []" "arriving ((p, q, b) # as) = (q, nb_buf b) # arriving as" "arriving (xs @ ys) = arriving xs @ arriving ys"
  by (simp_all add: arriving_def)

lemma receive_ok:
  assumes ok: "rxq_ok net qs" and q: "q \<noteq> 0" "q \<notin> set qs"
    and net': "net' = net_receive_driver_frame (net\<lparr>nbufs := (nbufs net)(q := b)\<rparr>) p q"
    and qs': "qs' = (if is_udp4 (nb_buf b) then qs @ [q] else qs)"
  shows "rxq_ok net' qs'" "queued net' qs' = queued net qs @ filter (\<lambda>a. is_udp4 (snd a)) [(q, nb_buf b)]"
proof -
  let ?n = "net\<lparr>nbufs := (nbufs net)(q := b)\<rparr>"
  have "rxq_ok ?n qs = rxq_ok net qs" by (rule rxq_ok_cong) (use q in auto)
  then have n: "rxq_ok ?n qs" using ok by simp
  have qd: "queued ?n qs = queued net qs" using q by (auto simp: queued_def)
  show "rxq_ok net' qs'" "queued net' qs' = queued net qs @ filter (\<lambda>a. is_udp4 (snd a)) [(q, nb_buf b)]"
  proof (atomize (full), cases "is_udp4 (nb_buf b)")
    case True
    then have "net' = rxq_append ?n q" using net' receive_udp4 by simp
    then show "rxq_ok net' qs' \<and> queued net' qs' = queued net qs @ filter (\<lambda>a. is_udp4 (snd a)) [(q, nb_buf b)]"
      using True rxq_append_ok [OF n q] qd qs' by (simp add: queued_def rxq_append_bufs)
  next
    case False
    then have "rxq net' = rxq ?n" "nbufs net' = nbufs ?n" using net' receive_other by simp_all
    then show "rxq_ok net' qs' \<and> queued net' qs' = queued net qs @ filter (\<lambda>a. is_udp4 (snd a)) [(q, nb_buf b)]"
      using False n qd qs' rxq_ok_cong [of net' ?n qs] by (simp add: queued_def)
  qed
qed

lemma deliver_ok:
  assumes "rxq_ok net qs" "distinct (qs @ map fst (arriving as))" "0 \<notin> fst ` set (arriving as)"
  shows "\<exists>qs'. rxq_ok (net_deliver net as) qs' \<and> set qs' \<subseteq> set qs \<union> fst ` set (arriving as) \<and> distinct qs' \<and>
    queued (net_deliver net as) qs' = queued net qs @ filter (\<lambda>a. is_udp4 (snd a)) (arriving as)"
  using assms
proof (induction as arbitrary: net qs)
  case Nil
  then show ?case by (auto simp: queued_def)
next
  case (Cons a as)
  obtain p q b where a: "a = (p, q, b)" by (cases a) auto
  define net' where "net' = net_receive_driver_frame (net\<lparr>nbufs := (nbufs net)(q := b)\<rparr>) p q"
  define qs' where "qs' = (if is_udp4 (nb_buf b) then qs @ [q] else qs)"
  have q: "q \<noteq> 0" "q \<notin> set qs" using Cons.prems a by auto
  note r = receive_ok [OF Cons.prems(1) q net'_def qs'_def]
  have "distinct (qs' @ map fst (arriving as))" "0 \<notin> fst ` set (arriving as)" "set qs' \<subseteq> insert q (set qs)"
    using Cons.prems a by (auto simp: qs'_def)
  with Cons.IH [OF r(1)] obtain ds where ds: "rxq_ok (net_deliver net' as) ds" "distinct ds"
      "set ds \<subseteq> set qs' \<union> fst ` set (arriving as)"
      "queued (net_deliver net' as) ds = queued net' qs' @ filter (\<lambda>a. is_udp4 (snd a)) (arriving as)"
    by blast
  moreover have "set ds \<subseteq> set qs \<union> fst ` set (arriving (a # as))"
    using ds(3) \<open>set qs' \<subseteq> _\<close> by (auto simp: a)
  moreover have "net_deliver net (a # as) = net_deliver net' as" by (simp add: a net'_def)
  ultimately show ?case using r(2) by (auto simp: a intro!: exI [of _ ds])
qed

section \<open>Waiting for a datagram\<close>

text \<open>The frame that a wait is to return: the first that matches, among the queued frames and then
  those that arrive; null when there is none.\<close>

definition first_match :: "u16 \<Rightarrow> (u32 \<times> frame) list \<Rightarrow> u32" where
  "first_match port fs = (case find (\<lambda>a. udp4_match port (snd a)) fs of None \<Rightarrow> 0 | Some (q, _) \<Rightarrow> q)"

lemma find_filter: "(\<And>x. P x \<Longrightarrow> Q x) \<Longrightarrow> find P (filter Q xs) = find P xs"
  by (induction xs) auto

lemma find_append: "find P (xs @ ys) = (case find P xs of None \<Rightarrow> find P ys | Some x \<Rightarrow> Some x)"
  by (induction xs) auto

lemma find_queued:
  "find (\<lambda>a. udp4_match port (snd a)) (queued net qs) =
     map_option (\<lambda>q. (q, nb_buf (nbufs net q))) (find (rxq_accepts net port) qs)"
  by (induction qs) (auto simp: queued_def rxq_accepts_def)

lemma wait_returns:
  assumes "rxq_ok net qs" "distinct (qs @ map fst (arriving (concat (map snd pre))))"
    "0 \<notin> fst ` set (arriving (concat (map snd pre)))" "\<forall>w\<in>set pre. fst w \<le> endtime" "endtime < t"
  shows "\<exists>net'. wait_udp4_loop net port endtime (pre @ (t, as) # rest) =
    Some (first_match port (queued net qs @ arriving (concat (map snd pre))), net')"
  using assms
proof (induction pre arbitrary: net qs)
  case Nil
  show ?case
  proof (cases "find (rxq_accepts net port) qs")
    case None
    with udp4_take_none [OF Nil.prems(1)] Nil.prems(5) show ?thesis
      by (subst wait_udp4_loop.simps) (simp add: first_match_def find_queued)
  next
    case (Some q)
    with udp4_take_some [OF Nil.prems(1) Some] show ?thesis
      by (subst wait_udp4_loop.simps) (simp add: first_match_def find_queued)
  qed
next
  case (Cons w pre)
  obtain u bs where w: "w = (u, bs)" by (cases w)
  show ?case
  proof (cases "find (rxq_accepts net port) qs")
    case None
    have "distinct (qs @ map fst (arriving bs))" "0 \<notin> fst ` set (arriving bs)"
      using Cons.prems(2,3) by (auto simp: w)
    then obtain qs' where qs': "rxq_ok (net_deliver net bs) qs'" "set qs' \<subseteq> set qs \<union> fst ` set (arriving bs)" "distinct qs'"
      "queued (net_deliver net bs) qs' = queued net qs @ filter (\<lambda>a. is_udp4 (snd a)) (arriving bs)"
      using deliver_ok [OF Cons.prems(1), of bs] by blast
    have "set qs' \<inter> fst ` set (arriving (concat (map snd pre))) = {}"
      using qs'(2) Cons.prems(2) by (simp add: w image_Un) blast
    then have "distinct (qs' @ map fst (arriving (concat (map snd pre))))"
      using qs'(3) Cons.prems(2) by (simp add: w)
    then obtain net' where "wait_udp4_loop (net_deliver net bs) port endtime (pre @ (t, as) # rest) =
        Some (first_match port (queued (net_deliver net bs) qs' @ arriving (concat (map snd pre))), net')"
      using Cons.IH [OF qs'(1)] Cons.prems(3,4,5) by (auto simp: w)
    moreover have "find (\<lambda>a. udp4_match port (snd a)) (filter (\<lambda>a. is_udp4 (snd a)) (arriving bs)) =
        find (\<lambda>a. udp4_match port (snd a)) (arriving bs)"
      by (rule find_filter) (auto dest: udp4_match_is_udp4)
    then have "first_match port (queued (net_deliver net bs) qs' @ arriving (concat (map snd pre))) =
        first_match port (queued net qs @ arriving (concat (map snd (w # pre))))"
      using None by (simp add: w first_match_def qs'(4) find_append find_queued)
    moreover have "\<not> endtime < u" using Cons.prems(4) by (simp add: w not_less)
    ultimately show ?thesis
      using udp4_take_none [OF Cons.prems(1) None] by (subst wait_udp4_loop.simps) (simp add: w)
  next
    case (Some q)
    with udp4_take_some [OF Cons.prems(1) Some] show ?thesis
      by (subst wait_udp4_loop.simps) (simp add: first_match_def find_queued find_append)
  qed
qed

section \<open>What is handed to the driver\<close>

lemma address_frame_rest: "12 \<le> q \<Longrightarrow> address_frame net p f q = f q"
  by (simp add: address_frame_def Let_def frame_simps)

lemma address_frame_ipv4_src:
  assumes "eth_type f = 0x0800"
  shows "rd_mac (address_frame net p f) 6 = get_mac (ifs net p)"
proof -
  have "eth_type (wr_mac f 6 m) = 0x0800" for m using assms by (simp add: eth_type_def frame_simps)
  moreover have "rd_mac (wr_mac g 0 m) 6 = rd_mac g 6" for g m by (rule rd_mac_cong) (simp add: frame_simps)
  ultimately show ?thesis by (simp add: address_frame_def Let_def rd_mac_wr_mac)
qed

lemma transmit_sends:
  assumes "transmit_frame_enqueue (ifs net p) = (\<lambda>_ _. 0)"
  shows "\<exists>r n. if_sent (ifs (snd (net_transmit_frame net p f len)) p) = if_sent (ifs net p) @ [(r, n)] \<and>
    unat n = max 60 (unat len) \<and> (\<forall>i < unat len. r i = address_frame net p f i)"
proof (cases "len < 60")
  case True
  then have "unat len < 60" by (simp add: word_less_nat_alt)
  with True show ?thesis
    using assms by (simp add: net_transmit_frame_def Let_def net_frame_simps frame_simps)
next
  case False
  then have "60 \<le> unat len" by (simp add: word_less_nat_alt)
  with False show ?thesis
    using assms by (simp add: net_transmit_frame_def Let_def net_frame_simps)
qed

lemma icmp_receive_echo:
  assumes w: "w = 14 + 4 * ip_nwords f 14" and req: "f w = 8" "f (w + 1) = 0"
    and drv: "transmit_frame_alloc (ifs net p) = Some frm" "transmit_frame_enqueue (ifs net p) = (\<lambda>_ _. 0)"
    and len: "unat (ip_iplen f 14) = 4 * ip_nwords f 14 + 8 + n" "n \<le> 1472"
  shows "\<exists>r l. if_sent (ifs (net_icmp_receive net p f) p) = if_sent (ifs net p) @ [(r, l)] \<and>
    unat l = max 60 (42 + n) \<and> rd_mac r 6 = get_mac (ifs net p) \<and>
    icmp4_packet r (ip_addr (ifs net p)) (ip_src f 14) 0 0 (rd32 f (w + 4)) (map f [w + 8..<w + 8 + n])"
proof -
  let ?i = "ifs net p"
  obtain g data where g: "net_buf_icmp4_init frm (ip_addr ?i) (ip_src f 14) 0 0 (rd32 f (w + 4)) = (g, data)" by force
  obtain k e where k: "net_buf_icmp4_checksum (wr_bytes g data f (w + 8) n) data n = (k, e)" by force
  note pk = icmp4_packet [OF g k]
  have "unat (ip_iplen f 14 - of_nat (4 * ip_nwords f 14 + 8)) = n"
  proof -
    have "ip_iplen f 14 = of_nat (unat (ip_iplen f 14))" by simp
    then have "ip_iplen f 14 = of_nat (4 * ip_nwords f 14 + 8 + n)" by (simp only: len(1))
    then have "ip_iplen f 14 - of_nat (4 * ip_nwords f 14 + 8) = of_nat n" by (simp add: algebra_simps)
    then show ?thesis using len(2) by (simp add: unat_of_nat take_bit_nat_eq_self)
  qed
  then have rcv: "net_icmp_receive net p f = snd (net_transmit_frame net p k (of_nat e))"
    using g k req drv(1) by (simp add: net_icmp_receive_def Let_def w)
  have e: "unat (of_nat e :: u16) = 42 + n"
    using pk(2) len(2) by (simp only: unat_of_nat) (simp add: take_bit_nat_eq_self)
  obtain r l where r: "if_sent (ifs (net_icmp_receive net p f) p) = if_sent ?i @ [(r, l)]"
      "unat l = max 60 (42 + n)" "\<forall>i < 42 + n. r i = address_frame net p k i"
    using transmit_sends [OF drv(2), of k "of_nat e"] by (auto simp: rcv e)
  have "icmp4_packet r (ip_addr ?i) (ip_src f 14) 0 0 (rd32 f (w + 4)) (map f [w + 8..<w + 8 + n])"
    using pk(1) len(2) r(3) by (intro icmp4_packet_cong [OF pk(1)]) (simp_all add: address_frame_rest)
  moreover have "eth_type k = 0x0800" using pk(1) len(2) by (simp add: icmp4_packet_def)
  then have "rd_mac r 6 = get_mac ?i"
    using address_frame_ipv4_src [of k net p] r(3) rd_mac_cong [of 6 r "address_frame net p k"] by simp
  ultimately show ?thesis using r by blast
qed

section \<open>The neighbour table\<close>

definition neighbors_ok :: "netiface \<Rightarrow> bool" where
  "neighbors_ok i \<longleftrightarrow> length (neighbors i) = 8 \<and> neighbors_head i < 8"

lemma find_list_update_key:
  assumes "i < length xs" "fst (xs ! i) = a" "\<forall>j<i. fst (xs ! j) \<noteq> a"
  shows "find (\<lambda>n. fst n = b) (xs[i := (a, m)]) = (if b = a then Some (a, m) else find (\<lambda>n. fst n = b) xs)"
  using assms
proof (induction xs arbitrary: i)
  case (Cons x xs)
  then show ?case
  proof (cases i)
    case (Suc k)
    then have "fst x \<noteq> a" "\<forall>j<k. fst (xs ! j) \<noteq> a" using Cons.prems(3) by (fastforce, fastforce)
    with Cons.IH [of k] Cons.prems Suc show ?thesis by auto
  qed auto
qed simp

lemma find_list_update_fresh:
  assumes "i < length xs" "a \<notin> fst ` set xs" "b \<noteq> fst (xs ! i)"
  shows "find (\<lambda>n. fst n = b) (xs[i := (a, m)]) = (if b = a then Some (a, m) else find (\<lambda>n. fst n = b) xs)"
  using assms
proof (induction xs arbitrary: i)
  case (Cons x xs)
  then show ?case
  proof (cases i)
    case (Suc k)
    with Cons.IH [of k] Cons.prems show ?thesis by auto
  next
    case 0
    have "find (\<lambda>n. fst n = a) xs = None" using Cons.prems by (force simp: find_None_iff)
    with 0 Cons.prems show ?thesis by auto
  qed
qed simp

text \<open>\<open>evicted i a\<close> is the address that makes place for \<open>a\<close>: the one under the head of the ring,
  unless \<open>a\<close> has an entry already.\<close>

definition evicted :: "netiface \<Rightarrow> u32 \<Rightarrow> u32 option" where
  "evicted i a = (if a \<in> fst ` set (neighbors i) then None else Some (fst (neighbors i ! neighbors_head i)))"

lemma find_index_None:
  "find (\<lambda>i. fst (xs ! i) = a) [0..<length xs] = None \<longleftrightarrow> a \<notin> fst ` set xs"
proof -
  have "set xs = (!) xs ` {0..<length xs}" by (metis map_nth set_map set_upt)
  then have "fst ` set xs = (\<lambda>i. fst (xs ! i)) ` {0..<length xs}" by (simp add: image_image)
  then show ?thesis by (auto simp: find_None_iff)
qed

lemma find_index_Some:
  "find (\<lambda>i. fst (xs ! i) = a) [0..<n] = Some i \<Longrightarrow> i < n \<and> fst (xs ! i) = a \<and> (\<forall>j<i. fst (xs ! j) \<noteq> a)"
  by (auto simp: find_Some_iff)

lemma neighbor_remember_find:
  assumes ok: "neighbors_ok i" and a: "a \<noteq> 0" "a \<noteq> 0xffffffff" and b: "evicted i a \<noteq> Some b"
  shows "neighbors_ok (neighbor_remember i a m)"
    "find (\<lambda>n. fst n = b) (neighbors (neighbor_remember i a m)) =
       (if b = a then Some (a, m) else find (\<lambda>n. fst n = b) (neighbors i))"
proof (atomize (full), cases "find (\<lambda>j. fst (neighbors i ! j) = a) [0..<8]")
  case None
  have l: "length (neighbors i) = 8" "neighbors_head i < 8" using ok by (auto simp: neighbors_ok_def)
  have n: "a \<notin> fst ` set (neighbors i)" using None find_index_None [of "neighbors i" a] l by simp
  have "b \<noteq> fst (neighbors i ! neighbors_head i)" using b n by (simp add: evicted_def)
  with n show "neighbors_ok (neighbor_remember i a m) \<and>
      find (\<lambda>n. fst n = b) (neighbors (neighbor_remember i a m)) =
       (if b = a then Some (a, m) else find (\<lambda>n. fst n = b) (neighbors i))"
    using find_list_update_fresh [of "neighbors_head i" "neighbors i" a b m] l None a
    by (simp add: neighbor_remember_def neighbors_ok_def Let_def)
next
  case (Some j)
  then show "neighbors_ok (neighbor_remember i a m) \<and>
      find (\<lambda>n. fst n = b) (neighbors (neighbor_remember i a m)) =
       (if b = a then Some (a, m) else find (\<lambda>n. fst n = b) (neighbors i))"
    using find_list_update_key [of j "neighbors i" a b m] find_index_Some [OF Some] ok a
    by (simp add: neighbor_remember_def neighbors_ok_def)
qed

section \<open>ARP\<close>

lemma arp_frame_fields:
  "rd16 (arp_frame frm i oper ip m) 12 = htons 0x0806" "rd16 (arp_frame frm i oper ip m) 20 = htons oper"
  "rd_mac (arp_frame frm i oper ip m) 22 = get_mac i" "rd32 (arp_frame frm i oper ip m) 28 = ip_addr i"
  "rd_mac (arp_frame frm i oper ip m) 32 = m" "rd32 (arp_frame frm i oper ip m) 38 = ip"
proof -
  have other: "rd_mac (wr_mac f 32 m) 22 = rd_mac f 22" "rd_mac (wr32 f 28 v) 22 = rd_mac f 22"
      "rd_mac (wr32 f 38 v) 22 = rd_mac f 22" "rd_mac (wr32 f 38 v) 32 = rd_mac f 32" for f m v
    by (rule rd_mac_cong; simp add: frame_simps)+
  show "rd16 (arp_frame frm i oper ip m) 12 = htons 0x0806" "rd16 (arp_frame frm i oper ip m) 20 = htons oper"
    "rd_mac (arp_frame frm i oper ip m) 22 = get_mac i" "rd32 (arp_frame frm i oper ip m) 28 = ip_addr i"
    "rd_mac (arp_frame frm i oper ip m) 32 = m" "rd32 (arp_frame frm i oper ip m) 38 = ip"
    by (simp_all add: arp_frame_def Let_def frame_simps other)
qed

lemma arp_send_sends:
  assumes "p \<noteq> 0" "transmit_frame_alloc (ifs net p) = Some frm" "transmit_frame_enqueue (ifs net p) = (\<lambda>_ _. 0)"
  shows "\<exists>r l. if_sent (ifs (snd (net_arp_send net p oper ip m)) p) = if_sent (ifs net p) @ [(r, l)] \<and>
    ntohs (rd16 r 20) = oper \<and> rd_mac r 22 = get_mac (ifs net p) \<and> rd32 r 28 = ip_addr (ifs net p) \<and>
    rd_mac r 32 = m \<and> rd32 r 38 = ip"
proof -
  let ?a = "arp_frame frm (ifs net p) oper ip m"
  obtain r l where r: "if_sent (ifs (snd (net_transmit_frame net p ?a 42)) p) = if_sent (ifs net p) @ [(r, l)]"
      "\<forall>i < 42. r i = address_frame net p ?a i"
    using transmit_sends [OF assms(3), of ?a 42] by auto
  have i: "r i = ?a i" if "12 \<le> i" "i < 42" for i using r(2) that by (simp add: address_frame_rest)
  have "rd16 r 20 = rd16 ?a 20" by (rule rd16_cong) (simp_all add: i)
  moreover have "rd_mac r 22 = rd_mac ?a 22" "rd_mac r 32 = rd_mac ?a 32" by (rule rd_mac_cong; simp add: i)+
  moreover have "rd32 r 28 = rd32 ?a 28" "rd32 r 38 = rd32 ?a 38" by (rule rd32_cong; simp add: i)+
  ultimately have "ntohs (rd16 r 20) = oper \<and> rd_mac r 22 = get_mac (ifs net p) \<and>
      rd32 r 28 = ip_addr (ifs net p) \<and> rd_mac r 32 = m \<and> rd32 r 38 = ip"
    by (simp add: arp_frame_fields ntohs_htons)
  moreover have "snd (net_arp_send net p oper ip m) = snd (net_transmit_frame net p ?a 42)"
    using assms(1,2) by (simp add: net_arp_send_def)
  ultimately show ?thesis using r(1) by auto
qed

lemma resolve_remembered:
  assumes "neighbors_ok (ifs net p)" "p \<noteq> 0" "a \<noteq> 0" "a \<noteq> 0xffffffff" "b \<noteq> 0xffffffff" "evicted (ifs net p) a \<noteq> Some b"
  shows "net_neighbor_resolve (net_neighbor_remember net p a m) p b = (if b = a then m else net_neighbor_resolve net p b)"
  using neighbor_remember_find(2) [OF assms(1,3,4,6), of m] assms(2,5)
  by (simp add: net_neighbor_resolve_def net_neighbor_lookup_on_def net_neighbor_remember_def net_frame_simps)

lemma evicted_self: "neighbors_ok i \<Longrightarrow> evicted i a \<noteq> Some a"
  using nth_mem [of "neighbors_head i" "neighbors i"] by (auto simp: evicted_def neighbors_ok_def)

section \<open>DHCP options\<close>

datatype dhcpopt = Subnet u32 | Gateway u32 | Other u8 "u8 list"

fun opt_bytes :: "dhcpopt \<Rightarrow> u8 list" where
  "opt_bytes (Subnet ip) = 1 # 4 # ip_octets ip"
| "opt_bytes (Gateway ip) = 3 # 4 # ip_octets ip"
| "opt_bytes (Other c d) = c # of_nat (length d) # d"

fun opt_ok :: "dhcpopt \<Rightarrow> bool" where
  "opt_ok (Other c d) \<longleftrightarrow> c \<notin> {1, 3, 255} \<and> length d < 256"
| "opt_ok _ \<longleftrightarrow> True"

fun opt_apply :: "u32 \<Rightarrow> network \<Rightarrow> dhcpopt \<Rightarrow> network" where
  "opt_apply p net (Subnet ip) = upd_if (ip_subnet_update (\<lambda>_. ip)) p net"
| "opt_apply p net (Gateway ip) = upd_if (ip_gw_update (\<lambda>_. ip)) p net"
| "opt_apply p net (Other c d) = net"

definition opts_bytes :: "dhcpopt list \<Rightarrow> u8 list" where
  "opts_bytes os = concat (map opt_bytes os) @ [255]"

definition frame_has :: "frame \<Rightarrow> nat \<Rightarrow> u8 list \<Rightarrow> bool" where
  "frame_has f p bs \<longleftrightarrow> (\<forall>i < length bs. f (p + i) = bs ! i)"

lemma frame_has_append: "frame_has f p (xs @ ys) \<longleftrightarrow> frame_has f p xs \<and> frame_has f (p + length xs) ys"
proof
  assume l: "frame_has f p (xs @ ys)"
  have "f (p + length xs + i) = ys ! i" if "i < length ys" for i
    using l [unfolded frame_has_def, rule_format, of "length xs + i"] that by (simp add: add.assoc)
  moreover have "f (p + i) = xs ! i" if "i < length xs" for i
    using l [unfolded frame_has_def, rule_format, of i] that by (simp add: nth_append)
  ultimately show "frame_has f p xs \<and> frame_has f (p + length xs) ys" by (simp add: frame_has_def)
next
  assume r: "frame_has f p xs \<and> frame_has f (p + length xs) ys"
  have "f (p + i) = (xs @ ys) ! i" if "i < length (xs @ ys)" for i
  proof (cases "i < length xs")
    case False
    then show ?thesis using r that le_add_diff_inverse [of "length xs" i]
      by (auto simp: frame_has_def nth_append not_less add.assoc dest!: spec [of _ "i - length xs"])
  qed (use r in \<open>auto simp: frame_has_def nth_append\<close>)
  then show "frame_has f p (xs @ ys)" by (simp add: frame_has_def)
qed

lemma frame_has_Cons: "frame_has f p (x # xs) \<longleftrightarrow> f p = x \<and> frame_has f (p + 1) xs"
  using frame_has_append [of f p "[x]" xs] by (simp add: frame_has_def)

lemma rd32_octets: "frame_has f p (ip_octets ip) \<Longrightarrow> rd32 f p = ip"
proof -
  assume "frame_has f p (ip_octets ip)"
  then have "f p = ucast ip" "f (p + 1) = ucast (drop_bit 8 ip)" "f (p + 2) = ucast (drop_bit 16 ip)"
      "f (p + 2 + 1) = ucast (drop_bit 24 ip)"
    by (simp_all add: ip_octets_def frame_has_Cons)
  note f = this
  show ?thesis
  proof (rule bit_word_eqI)
    fix n assume "n < LENGTH(32)"
    then consider "n < 8" | "8 \<le> n" "n < 16" | "16 \<le> n" "n < 24" | "24 \<le> n" "n < 32" by fastforce
    then show "bit (rd32 f p) n = bit ip n"
      by cases (use f in \<open>auto simp: rd32_def rd16_def bit_simps\<close>)
  qed
qed

lemma opt_bytes_at:
  assumes "frame_has f p (opt_bytes opt)" "opt_ok opt"
  shows "f p \<noteq> 255" "p + (unat (f (p + 1)) + 2) = p + length (opt_bytes opt)"
    "iface \<noteq> 0 \<Longrightarrow> opt_apply iface net opt =
       (if f p = 1 \<and> iface \<noteq> 0 then upd_if (ip_subnet_update (\<lambda>_. rd32 f (p + 2))) iface net
        else if f p = 3 \<and> iface \<noteq> 0 then upd_if (ip_gw_update (\<lambda>_. rd32 f (p + 2))) iface net
        else net)"
proof -
  have oct: "rd32 f (p + 2) = ip" if "frame_has f (p + 1 + 1) (ip_octets ip)" for ip
    using rd32_octets [OF that] by simp
  have len: "unat (of_nat n :: u8) = n" if "n < 256" for n using that by (simp add: unat_of_nat take_bit_nat_eq_self)
  have 4: "length (ip_octets ip) = 4" for ip by (simp add: ip_octets_def)
  show "f p \<noteq> 255" using assms by (cases opt) (auto simp: frame_has_Cons)
  show "p + (unat (f (p + 1)) + 2) = p + length (opt_bytes opt)"
    using assms by (cases opt) (auto simp: frame_has_Cons len 4)
  show "opt_apply iface net opt =
       (if f p = 1 \<and> iface \<noteq> 0 then upd_if (ip_subnet_update (\<lambda>_. rd32 f (p + 2))) iface net
        else if f p = 3 \<and> iface \<noteq> 0 then upd_if (ip_gw_update (\<lambda>_. rd32 f (p + 2))) iface net
        else net)" if "iface \<noteq> 0"
    using assms that oct by (cases opt) (auto simp: frame_has_Cons)
qed

lemma read_dhcpopts:
  assumes "frame_has f p (opts_bytes os)" "\<forall>opt\<in>set os. opt_ok opt" "iface \<noteq> 0"
  shows "test_read_dhcpopts net iface f p = Some (foldl (opt_apply iface) net os)"
  using assms
proof (induction os arbitrary: p net)
  case Nil
  then show ?case by (subst test_read_dhcpopts.simps) (simp add: opts_bytes_def frame_has_Cons)
next
  case (Cons opt os)
  have has: "frame_has f p (opt_bytes opt)" "frame_has f (p + length (opt_bytes opt)) (opts_bytes os)"
    using Cons.prems(1) by (simp_all add: opts_bytes_def frame_has_append)
  have "opt_ok opt" using Cons.prems(2) by simp
  note at = opt_bytes_at [OF has(1) this]
  show ?case
    using Cons.IH [OF has(2), of "opt_apply iface net opt"] Cons.prems(2,3) at(1)
    unfolding at(3) [OF Cons.prems(3)]
    by (subst test_read_dhcpopts.simps) (simp only: Let_def at(2) at(3) [OF Cons.prems(3)] list.set foldl.simps, simp)
qed

section \<open>Examples\<close>

definition ex_iface :: netiface where
  "ex_iface = \<lparr>if_index = 0, ip_addr = 0x0f02000a, ip_subnet = 0, ip_gw = 0, get_mac = (0x1234, 0x5678, 0x9abc),
     transmit_frame_alloc = Some (\<lambda>_. 0), transmit_frame_enqueue = (\<lambda>_ _. 0), do_transmit = 0,
     neighbors = replicate 8 (0, 0, 0, 0), neighbors_head = 0, if_sent = []\<rparr>"

definition ex_udp :: "u8 \<Rightarrow> frame" where
  "ex_udp port = (\<lambda>_. 0)(12 := 8, 14 := 0x45, 23 := 17, 37 := port)"

definition ex_buf :: "frame \<Rightarrow> netbuf" where
  "ex_buf f = \<lparr>nb_next = 0, nb_prev = 0, nb_buf = f, nb_len = 60\<rparr>"

text \<open>Three datagrams at \<open>0x10\<close>, \<open>0x20\<close> and \<open>0x30\<close>, to the ports 68, 53 and 68, none of them queued yet.\<close>

definition ex_net :: network where
  "ex_net = \<lparr>rxq = 0, net_iface = [0x100], ifs = (\<lambda>_. ex_iface),
     nbufs = (\<lambda>q. ex_buf (ex_udp (if q = 0x20 then 53 else 68))), recycled = []\<rparr>"

definition ex_ping :: frame where
  "ex_ping = (\<lambda>_. 0)(12 := 8, 14 := 0x45, 17 := 30, 23 := 1, 26 := 10, 28 := 2, 29 := 2, 34 := 8, 41 := 7, 42 := 0xaa, 43 := 0xbb)"

lemma ex_udp_match: "udp4_match port (ex_udp p) \<longleftrightarrow> port = 0 \<or> ntohs (push_bit 8 (ucast p)) = port"
proof -
  have "eth_type (ex_udp p) = 0x0800" "ip_nwords (ex_udp p) 14 = 5"
    by (simp_all add: eth_type_def ip_nwords_def rd16_def ex_udp_def ntohs_def)
  then show ?thesis by (auto simp: udp4_match_def ip_proto_def rd16_def ex_udp_def)
qed

lemma ex_udp_ports: "udp4_match 68 (ex_udp 68)" "\<not> udp4_match 68 (ex_udp 53)" "udp4_match 0 (ex_udp p)"
  by (simp_all add: ex_udp_match ntohs_def)

lemma ex_net_accepts: "rxq_accepts ex_net 68 q \<longleftrightarrow> q \<noteq> 0x20"
  by (simp add: rxq_accepts_def ex_net_def ex_buf_def ex_udp_ports)

lemma ex_net_ok: "rxq_ok ex_net []" "is_udp4 (nb_buf (nbufs ex_net q))" "ifs ex_net p = ex_iface" "neighbors_ok ex_iface"
  by (simp_all add: rxq_ok_def ex_net_def ex_buf_def ex_udp_ports neighbors_ok_def ex_iface_def)

lemma ex_ping_fields:
  "ip_nwords ex_ping 14 = 5" "unat (ip_iplen ex_ping 14) = 30" "ex_ping 34 = 8" "ex_ping 35 = 0"
  "ex_ping 42 = 0xaa" "ex_ping 43 = 0xbb" "ip_src ex_ping 14 = 0x0202000a" "rd32 ex_ping 38 = 0x07000000"
  by code_simp+

section \<open>Properties\<close>

text \<open>C26. Datagrams of one port come out of the receive queue in the order in which they came in: after any
  sequence of UDP frames was received, taking as many datagrams for the port as there are gives exactly those,
  queued before or received now, in order, and leaves the datagrams of all other ports queued in order.\<close>

theorem udp_datagrams_in_order:
  assumes ok: "rxq_ok net qs" and new: "distinct (qs @ as)" "0 \<notin> set as"
    and udp: "\<forall>q\<in>set as. is_udp4 (nb_buf (nbufs net q))"
  shows "\<exists>net'. drain (\<lambda>n. udp4_take n port) (length (filter (rxq_accepts net port) (qs @ as)))
      (foldl (\<lambda>n q. net_receive_driver_frame n iface q) net as) = Some (filter (rxq_accepts net port) (qs @ as), net') \<and>
    rxq_ok net' (filter (\<lambda>q. \<not> rxq_accepts net port q) (qs @ as))"
proof -
  have "foldl (\<lambda>n q. net_receive_driver_frame n iface q) net as = foldl rxq_append net as"
    using udp
  proof (induction as arbitrary: net)
    case (Cons a as)
    then show ?case by (simp add: receive_udp4 rxq_append_bufs)
  qed simp
  moreover have "rxq_ok (foldl rxq_append net as) (qs @ as)" "rxq_accepts (foldl rxq_append net as) = rxq_accepts net"
    using rx.app_all [OF ok new] by simp_all
  ultimately show ?thesis using rx.drain_matches [OF _ new(1), of "foldl rxq_append net as" port] by simp
qed

theorem udp_datagrams_in_order_witness:
  "\<exists>net'. drain (\<lambda>n. udp4_take n 68) (Suc (Suc 0)) (foldl (\<lambda>n q. net_receive_driver_frame n 0x100 q) ex_net [0x10, 0x20, 0x30]) =
     Some ([0x10, 0x30], net') \<and> rxq_ok net' [0x20]"
proof -
  have f: "filter (rxq_accepts ex_net 68) ([] @ [0x10, 0x20, 0x30]) = [0x10, 0x30]"
      "filter (\<lambda>q. \<not> rxq_accepts ex_net 68 q) ([] @ [0x10, 0x20, 0x30]) = [0x20]"
    by (simp_all add: ex_net_accepts)
  have d: "distinct ([] @ [0x10, 0x20, 0x30 :: u32])" by simp
  show ?thesis
    using udp_datagrams_in_order [OF ex_net_ok(1) d, of 68 "0x100", unfolded f]
    by (simp add: ex_net_ok(2) del: drain.simps foldl.simps)
qed



text \<open>C27. An echo request with a well-formed length is answered by exactly one frame: an ICMP echo reply from the
  interface to the sender with the same sequence word and payload, with valid IPv4 and ICMP checksums, the
  interface's hardware address as its source, and at least 60 bytes long.\<close>

theorem icmp_echo_is_answered:
  assumes "w = 14 + 4 * ip_nwords f 14" "f w = 8" "f (w + 1) = 0"
    "transmit_frame_alloc (ifs net p) = Some frm" "transmit_frame_enqueue (ifs net p) = (\<lambda>_ _. 0)"
    "unat (ip_iplen f 14) = 4 * ip_nwords f 14 + 8 + n" "n \<le> 1472"
  shows "\<exists>r l. if_sent (ifs (net_icmp_receive net p f) p) = if_sent (ifs net p) @ [(r, l)] \<and>
    unat l = max 60 (42 + n) \<and> rd_mac r 6 = get_mac (ifs net p) \<and>
    icmp4_packet r (ip_addr (ifs net p)) (ip_src f 14) 0 0 (rd32 f (w + 4)) (map f [w + 8..<w + 8 + n])"
  using assms by (rule icmp_receive_echo)

theorem icmp_echo_is_answered_witness:
  "\<exists>r l. if_sent (ifs (net_icmp_receive ex_net 0x100 ex_ping) 0x100) = [(r, l)] \<and> unat l = 60 \<and>
     icmp4_packet r 0x0f02000a 0x0202000a 0 0 0x07000000 [0xaa, 0xbb]"
  using icmp_echo_is_answered [of 34 ex_ping ex_net "0x100" "\<lambda>_. 0" 2]
  by (simp add: ex_net_ok ex_ping_fields ex_iface_def) blast

text \<open>C29. A remembered neighbour is resolved to the address it was remembered with, and remembering it changes
  the resolution of no other address than the one it displaces from the full ring; the table keeps its shape.\<close>

theorem neighbor_remember_then_resolve:
  assumes "neighbors_ok (ifs net p)" "p \<noteq> 0" "a \<noteq> 0" "a \<noteq> 0xffffffff"
  shows "neighbors_ok (ifs (net_neighbor_remember net p a m) p) \<and>
    net_neighbor_resolve (net_neighbor_remember net p a m) p a = m \<and>
    (\<forall>b. b \<noteq> a \<longrightarrow> evicted (ifs net p) a \<noteq> Some b \<longrightarrow>
      net_neighbor_resolve (net_neighbor_remember net p a m) p b = net_neighbor_resolve net p b)"
proof (intro conjI allI impI)
  have self: "evicted (ifs net p) a \<noteq> Some a" using assms(1) by (rule evicted_self)
  show "neighbors_ok (ifs (net_neighbor_remember net p a m) p)"
    using neighbor_remember_find(1) [OF assms(1,3,4) self] by (simp add: net_neighbor_remember_def net_frame_simps)
  show "net_neighbor_resolve (net_neighbor_remember net p a m) p a = m"
    using resolve_remembered [OF assms(1-4) assms(4) self] by simp
  show "net_neighbor_resolve (net_neighbor_remember net p a m) p b = net_neighbor_resolve net p b"
    if "b \<noteq> a" "evicted (ifs net p) a \<noteq> Some b" for b
    using resolve_remembered [OF assms(1-4) _ that(2)] that(1)
    by (cases "b = 0xffffffff") (simp_all add: net_neighbor_resolve_def)
qed

theorem neighbor_remember_then_resolve_witness:
  "net_neighbor_resolve (net_neighbor_remember ex_net 0x100 0x0202000a (1, 2, 3)) 0x100 0x0202000a = (1, 2, 3)"
  using neighbor_remember_then_resolve [of ex_net "0x100" "0x0202000a" "(1, 2, 3)"] by (simp add: ex_net_ok)

text \<open>C30. Reading DHCP options ends and is the inverse of their encoding: from the bytes of an option list closed
  by an end option, the reader sets the subnet mask and the gateway to those of the list (the last of each) and
  skips every other option.\<close>

theorem dhcp_options_round_trip:
  assumes "frame_has f p (opts_bytes os)" "\<forall>opt\<in>set os. opt_ok opt" "iface \<noteq> 0"
  shows "test_read_dhcpopts net iface f p = Some (foldl (opt_apply iface) net os)"
  using assms by (rule read_dhcpopts)

theorem dhcp_options_round_trip_witness:
  "\<exists>net'. test_read_dhcpopts ex_net 0x100 (wr_list (\<lambda>_. 0) 0 [53, 1, 5, 1, 4, 255, 255, 255, 0, 255]) 0 = Some net' \<and>
     ip_subnet (ifs net' 0x100) = 0x00ffffff"
proof -
  have "opts_bytes [Other 53 [5], Subnet 0x00ffffff] = [53, 1, 5, 1, 4, 255, 255, 255, 0, 255]" by code_simp
  moreover have "frame_has (wr_list (\<lambda>_. 0) 0 bs) 0 bs" for bs
    by (simp add: frame_has_def wr_list_def wr_bytes_def)
  ultimately show ?thesis
    using dhcp_options_round_trip [of "wr_list (\<lambda>_. 0) 0 [53, 1, 5, 1, 4, 255, 255, 255, 0, 255]" 0
      "[Other 53 [5], Subnet 0x00ffffff]" "0x100" ex_net] by (simp add: net_frame_simps)
qed

text \<open>C28. ARP between two hosts: a request for the address of host B whose target hardware address is zero makes
  B send one reply, and host A, on receiving that reply, resolves B's address to B's hardware address.\<close>

theorem arp_exchange_resolves:
  assumes req: "ntohs (rd16 f 20) = 1" "rd_mac f 32 = ETH_INVALID_MAC" "rd32 f 38 = ip_addr (ifs B pb)"
    and B: "pb \<noteq> 0" "transmit_frame_alloc (ifs B pb) = Some frm" "transmit_frame_enqueue (ifs B pb) = (\<lambda>_ _. 0)"
      "ip_addr (ifs B pb) \<notin> {0, 0xffffffff}"
    and A: "pa \<noteq> 0" "neighbors_ok (ifs A pa)"
  shows "\<exists>r l. if_sent (ifs (net_arp_receive B pb f) pb) = if_sent (ifs B pb) @ [(r, l)] \<and>
    net_neighbor_resolve (net_arp_receive A pa r) pa (ip_addr (ifs B pb)) = get_mac (ifs B pb)"
proof -
  obtain r l where r: "if_sent (ifs (snd (net_arp_send B pb 2 (rd32 f 28) (rd_mac f 22))) pb) = if_sent (ifs B pb) @ [(r, l)]"
      "ntohs (rd16 r 20) = 2" "rd_mac r 22 = get_mac (ifs B pb)" "rd32 r 28 = ip_addr (ifs B pb)"
    using arp_send_sends [OF B(1-3), of 2 "rd32 f 28" "rd_mac f 22"] by auto
  have "net_arp_receive B pb f = snd (net_arp_send B pb 2 (rd32 f 28) (rd_mac f 22))"
    using req B(1) by (simp add: net_arp_receive_def Let_def)
  moreover have "net_arp_receive A pa r = net_neighbor_remember A pa (ip_addr (ifs B pb)) (get_mac (ifs B pb))"
    using r A(1) by (simp add: net_arp_receive_def Let_def)
  moreover have "evicted (ifs A pa) (ip_addr (ifs B pb)) \<noteq> Some (ip_addr (ifs B pb))"
    using A(2) by (rule evicted_self)
  ultimately show ?thesis
    using resolve_remembered [OF A(2,1)] B(4) r(1) by auto
qed

definition ex_whohas :: frame where
  "ex_whohas = (\<lambda>_. 0)(21 := 1, 38 := 10, 40 := 2, 41 := 15)"

theorem arp_exchange_resolves_witness:
  "\<exists>r l. if_sent (ifs (net_arp_receive ex_net 0x100 ex_whohas) 0x100) = [(r, l)] \<and>
     net_neighbor_resolve (net_arp_receive ex_net 0x200 r) 0x200 0x0f02000a = (0x1234, 0x5678, 0x9abc)"
proof -
  have "ntohs (rd16 ex_whohas 20) = 1" "rd_mac ex_whohas 32 = ETH_INVALID_MAC" "rd32 ex_whohas 38 = 0x0f02000a"
    by code_simp+
  then show ?thesis
    using arp_exchange_resolves [of ex_whohas ex_net "0x100" "\<lambda>_. 0" "0x200" ex_net]
    by (simp add: ex_net_ok) (simp add: ex_iface_def)
qed

text \<open>The request that \<open>net_arp_send_whohas\<close> sends carries the broadcast address as its target hardware address,
  and a host running this stack ignores such a request, whatever address it has: two such hosts cannot
  resolve each other by asking.\<close>

theorem arp_whohas_is_not_answered:
  assumes "pa \<noteq> 0" "transmit_frame_alloc (ifs A pa) = Some frm" "transmit_frame_enqueue (ifs A pa) = (\<lambda>_ _. 0)" "pb \<noteq> 0"
  shows "\<exists>r l. if_sent (ifs (snd (net_arp_send_whohas A pa ip)) pa) = if_sent (ifs A pa) @ [(r, l)] \<and>
    rd_mac r 32 = ETH_BROADCAST_MAC \<and> net_arp_receive B pb r = B"
proof -
  obtain r l where "if_sent (ifs (snd (net_arp_send_whohas A pa ip)) pa) = if_sent (ifs A pa) @ [(r, l)]"
      "ntohs (rd16 r 20) = 1" "rd_mac r 32 = ETH_BROADCAST_MAC"
    using arp_send_sends [OF assms(1-3), of 1 ip ETH_BROADCAST_MAC] by (auto simp: net_arp_send_whohas_def)
  moreover from this have "net_arp_receive B pb r = B"
    using assms(4) by (simp add: net_arp_receive_def Let_def ETH_BROADCAST_MAC_def ETH_INVALID_MAC_def)
  ultimately show ?thesis by blast
qed

theorem arp_whohas_is_not_answered_witness:
  "\<exists>r l. if_sent (ifs (snd (net_arp_send_whohas ex_net 0x200 0x0f02000a)) 0x200) = [(r, l)] \<and>
     net_arp_receive ex_net 0x100 r = ex_net"
  using arp_whohas_is_not_answered [of "0x200" ex_net "\<lambda>_. 0" "0x100" "0x0f02000a" ex_net]
  by (simp add: ex_net_ok) (auto simp: ex_iface_def)

end
