(* ===== verification/FF_Room.thy ===== *)
theory FF_Room
  imports Phys_Mem
begin

text \<open>
  Allocations that succeed: as long as the allocator stands at a free chunk with enough room, every request is met
  from it, and the rest of the chunk stays free and current.  The heap that the kernel boots with is in such a state.
\<close>

definition tail_at :: "ff_state \<Rightarrow> u32 \<Rightarrow> u32 \<Rightarrow> bool" where
  "tail_at st c e \<longleftrightarrow> current (alloc st) = c \<and> \<not> is_used (hdrs st) c \<and> ck_next (hdrs st c) = e \<and> unat e < unat c + 2 ^ 31"

definition room :: "ff_state \<Rightarrow> nat \<Rightarrow> bool" where
  "room st n \<longleftrightarrow> (\<exists>c e. tail_at st c e \<and> unat c + n \<le> unat e)"

lemma malloc_tail:
  assumes t: "tail_at st c e" and sz: "sz \<noteq> 0" and fits: "unat c + unat sz + 60 \<le> unat e"
  shows "\<exists>st' c'. firstfit_malloc st sz = Some (chunk_data c, st') \<and> tail_at st' c' e \<and>
    unat c' \<le> unat c + unat sz + 27 \<and> chunk_data c \<noteq> 0"
proof -
  have e: "unat e < unat c + 2 ^ 31" and cur: "current (alloc st) = c" "\<not> is_used (hdrs st) c" "ck_next (hdrs st c) = e"
    using t by (simp_all add: tail_at_def)
  let ?n = "rest_chunk sz c"
  have "unat c + 12 + unat sz + 44 \<le> 2 ^ 32" using fits u32_bound [of e] by simp
  note n = rest_chunk [OF this]
  have split: "chunk_data ?n + 4 \<le> e" using n fits by (simp add: word_le_nat_alt)
  have ne: "e \<noteq> ?n" "?n \<noteq> c" "c \<noteq> e" using n fits by auto
  have "unat (e - c) = unat e - unat c" "unat (e - c - 12) = unat e - unat c - 12"
    using fits by (simp_all add: unat_sub word_le_nat_alt unat_simps)
  then have gs: "unat (get_size (hdrs st) c) = unat e - unat c - 12" by (simp add: get_size_def CHUNK_SIZE_def cur)
  define g where "g = unat (get_size (hdrs st) c)"
  define k where "k = unat sz"
  have "k \<le> g" "g < 2 ^ 31" unfolding g_def k_def gs using fits e by linarith+
  then have "sint sz \<le> sint (get_size (hdrs st) c)" unfolding sint_u32 g_def [symmetric] k_def [symmetric] by simp
  then have "malloc_loop sz st c = Some (ff_take sz st c)" using cur(2) by (subst malloc_loop.simps) simp
  moreover have "\<not> (sz = 0 \<or> INT_MAX < sz)" using sz fits e by (simp add: INT_MAX_def word_less_nat_alt)
  ultimately have m: "firstfit_malloc st sz = Some (ff_take sz st c)" by (simp add: firstfit_malloc_def cur)
  define st' where "st' = snd (ff_take sz st c)"
  have tk: "ff_take sz st c = (chunk_data c, st')" and h: "hdrs st' = split_hdrs (hdrs st) c ?n e" "current (alloc st') = ?n"
    using ff_take_eq [OF cur(3) ne n(4)] split by (simp_all add: st'_def)
  have "tail_at st' ?n e"
    using ne e n(1,2) by (simp add: tail_at_def h)
  moreover have "unat (chunk_data c) = unat c + 12" using fits u32_bound [of e] by (simp add: chunk_data_def CHUNK_SIZE_def unat_add_nowrap)
  then have "chunk_data c \<noteq> 0" by auto
  ultimately show ?thesis using m tk n(2) by (intro exI [of _ st'] exI [of _ ?n]) simp
qed

lemma malloc_room:
  assumes "room st (n + unat sz + 27)" "sz \<noteq> 0" "33 \<le> n"
  shows "\<exists>p st'. firstfit_malloc st sz = Some (p, st') \<and> p \<noteq> 0 \<and> room st' n"
proof -
  obtain c e where t: "tail_at st c e" "unat c + (n + unat sz + 27) \<le> unat e" using assms(1) by (auto simp: room_def)
  then obtain st' c' where m: "firstfit_malloc st sz = Some (chunk_data c, st')" "tail_at st' c' e"
      "unat c' \<le> unat c + unat sz + 27" "chunk_data c \<noteq> 0"
    using malloc_tail [OF t(1) assms(2)] assms(3) by auto
  have "unat c' + n \<le> unat e" using t(2) m(3) by linarith
  then have "room st' n" unfolding room_def using m(2) by blast
  then show ?thesis using m by blast
qed

lemma room_mono: "room st n \<Longrightarrow> m \<le> n \<Longrightarrow> room st m"
  unfolding room_def by (meson add_le_mono1 le_trans add_left_mono)

text \<open>The heap of the running kernel has room for almost its whole megabyte.\<close>

lemma new_room:
  assumes new: "firstfit_new h b start sz = Some st" and sz: "63 \<le> unat sz" "unat start + unat sz + 32 \<le> 2 ^ 32" "unat sz < 2 ^ 31"
  shows "room st (unat sz - 63)"
proof -
  from new_chunks [OF new sz(1,2)] obtain i e a k where
    c: "unat i = 16 * a - 12" "unat e = 16 * k - 12" "a < k" "2 \<le> a" "unat start + 32 \<le> 16 * a" "16 * a \<le> unat start + 47"
      "16 * k \<le> unat start + unat sz" "unat start + unat sz < 16 * k + 16"
    and ne: "i \<noteq> e"
    and st: "st = \<lparr>alloc = \<lparr>startmem = start, endmem = sz + start, current = i, n_malloc = 0, n_free = 0\<rparr>,
      hdrs = set_chunk (set_chunk h i e e False) e i i True, bytes = b\<rparr>" by metis
  have "unat e < unat i + 2 ^ 31" "unat i + (unat sz - 63) \<le> unat e" using c sz by linarith+
  then have "tail_at st i e" "unat i + (unat sz - 63) \<le> unat e" using ne by (simp_all add: tail_at_def st)
  then show ?thesis unfolding room_def by blast
qed

lemma booted_heap_room:
  assumes "pmem_inv pm"
    and "unat (theEdgeOfAllocatedMemory pm) + 256 \<le> unat (theEndOfUpperMemory pm)"
    and "unat (theEdgeOfAllocatedMemory pm) + 256 < 0x40000"
    and boot: "kheap_setup h b pm = (Some st, pm')"
  shows "room st 1000000"
proof -
  have np: "pagealign_up KHEAP_INITIAL_SIZE div PAGE_BYTES = 256"
    by (simp add: pagealign_up_def KHEAP_INITIAL_SIZE_def PAGE_BYTES_def)
  obtain p pm1 where r: "pmem_alloc pm 256 = (p, pm1)" by fastforce
  have a: "unat p = 4096 * unat (theEdgeOfAllocatedMemory pm)" using assms(2) by (auto intro: pmem_alloc_cases [OF assms(1) _ _ r])
  then have "unat (va p) = unat p + 0xC0000000" using assms(3) by (simp add: va_def KERN_OFF_def unat_add_nowrap)
  then have v: "unat (va p) + 0x100000 + 32 \<le> 2 ^ 32" using a assms(3) by auto
  have k: "unat KHEAP_INITIAL_SIZE = 0x100000" by (simp add: KHEAP_INITIAL_SIZE_def PAGE_BYTES_def)
  have "firstfit_new h b (va p) KHEAP_INITIAL_SIZE = Some st"
    using boot np r by (auto simp: kheap_setup_def kmem_alloc_def Let_def split: if_splits)
  then have "room st (unat KHEAP_INITIAL_SIZE - 63)" by (rule new_room) (use v k in simp_all)
  then show ?thesis by (rule room_mono) (simp add: k)
qed

text \<open>The heap of a kernel that was booted with its image up to \<^verbatim>\<open>0xC0200000\<close>.\<close>

definition big_heap :: ff_state where
  "big_heap =
     \<lparr>alloc = \<lparr>startmem = 0xC0200000, endmem = 0xC0300000, current = 0xC0200014, n_malloc = 0, n_free = 0\<rparr>,
      hdrs = set_chunk (set_chunk (\<lambda>_. no_chunk) 0xC0200014 0xC02FFFF4 0xC02FFFF4 False) 0xC02FFFF4 0xC0200014 0xC0200014 True,
      bytes = (\<lambda>_. 0)\<rparr>"

definition big_pmem :: pmem where
  "big_pmem = \<lparr>theEdgeOfAllocatedMemory = 0x300, theEndOfUpperMemory = 0x2000\<rparr>"

lemma big_heap_new: "firstfit_new (\<lambda>_. no_chunk) (\<lambda>_. 0) 0xC0200000 0x100000 = Some big_heap"
  by (simp add: firstfit_new_def big_heap_def aligned_def ALIGN_def ALLOC_SIZE_def CHUNK_SIZE_def Let_def)

lemma big_heap_booted:
  "kheap_setup (\<lambda>_. no_chunk) (\<lambda>_. 0) (pmem_setup 0x7C00 0xC0200000 []) = (Some big_heap, big_pmem)"
proof -
  have "pmem_setup 0x7C00 0xC0200000 [] = \<lparr>theEdgeOfAllocatedMemory = 0x200, theEndOfUpperMemory = 0x2000\<rparr>"
    by (simp add: pmem_setup_def Let_def pa_def KERN_OFF_def PAGE_BYTES_def page_aligned_def UPPER_MEMORY_OFFSET_def)
  then show ?thesis using big_heap_new
    by (simp add: kheap_setup_def kmem_alloc_def pmem_alloc_def va_def KERN_OFF_def PAGE_BYTES_def KHEAP_INITIAL_SIZE_def
        pagealign_up_def big_pmem_def Let_def)
qed

lemma big_heap_inv: "ff_inv big_heap" "ff_blocks big_heap = {}"
  using new_block [OF big_heap_new] by simp_all

lemma big_heap_room: "room big_heap 4000"
proof (rule room_mono)
  show "room big_heap (unat (0x100000 :: u32) - 63)" by (rule new_room [OF big_heap_new]) simp_all
qed simp

end
