(* ===== verification/Ramfs_Ok.thy ===== *)
theory Ramfs_Ok
  imports Ramfs FF_Room
begin

text \<open>
  A well-formedness invariant of a mounted RAM file system, that mounting establishes it and that the operations
  that make nodes and links keep it.
\<close>

section \<open>The invariant\<close>

text \<open>The address at the inode number \<open>ino\<close> holds an inode with that number; a directory has a well-formed table.\<close>

definition inode_ok :: "ramfs \<Rightarrow> u32 \<Rightarrow> u32 \<Rightarrow> bool" where
  "inode_ok fs ino p \<longleftrightarrow>
     i_no (idatas fs p) = ino \<and> (\<exists>m. (p, m) \<in> ff_blocks (kh fs)) \<and>
     (S_ISDIR (i_mode (idatas fs p)) \<longrightarrow>
        (let d = i_data (idatas fs p) in d \<noteq> 0 \<and> (\<exists>m. (d, m) \<in> ff_blocks (kh fs)) \<and> dir_ok (dirs fs d)))"

definition ramfs_ok :: "nat \<Rightarrow> nat \<Rightarrow> ramfs \<Rightarrow> bool" where
  "ramfs_ok F L fs \<longleftrightarrow>
     ff_inv (kh fs) \<and> bt_ok F L (inodes_btree fs) \<and> F ^ Suc L \<le> 2 ^ 31 \<and>
     (\<forall>ino. ino \<noteq> 0 \<longrightarrow> ramfs_idata_by_inode fs ino \<noteq> 0 \<longrightarrow> inode_ok fs ino (ramfs_idata_by_inode fs ino)) \<and>
     sb_root_ino fs \<noteq> 0 \<and> ramfs_idata_by_inode fs (sb_root_ino fs) \<noteq> 0 \<and>
     S_ISDIR (i_mode (idatas fs (ramfs_idata_by_inode fs (sb_root_ino fs))))"

lemma ramfs_okD:
  assumes "ramfs_ok F L fs"
  shows "ff_inv (kh fs)" "bt_ok F L (inodes_btree fs)" "F ^ Suc L \<le> 2 ^ 31"
    "ino \<noteq> 0 \<Longrightarrow> ramfs_idata_by_inode fs ino \<noteq> 0 \<Longrightarrow> inode_ok fs ino (ramfs_idata_by_inode fs ino)"
    "sb_root_ino fs \<noteq> 0" "ramfs_idata_by_inode fs (sb_root_ino fs) \<noteq> 0"
    "S_ISDIR (i_mode (idatas fs (ramfs_idata_by_inode fs (sb_root_ino fs))))"
  using assms by (simp_all add: ramfs_ok_def)

section \<open>The heap\<close>

text \<open>The heap stays good and blocks in use stay in use.\<close>

definition heap_grows :: "ff_state \<Rightarrow> ff_state \<Rightarrow> bool" where
  "heap_grows h h1 \<longleftrightarrow> ff_inv h1 \<and> ff_blocks h \<subseteq> ff_blocks h1"

lemma heap_grows_refl: "ff_inv h \<Longrightarrow> heap_grows h h"
  by (simp add: heap_grows_def)

lemma heap_grows_trans: "heap_grows a b \<Longrightarrow> heap_grows b c \<Longrightarrow> heap_grows a c"
  by (auto simp: heap_grows_def)

lemma kmalloc_cases:
  assumes "ff_inv h"
  obtains (null) "kmalloc h n = Some (0, h)"
  | (block) p m h1 where "kmalloc h n = Some (p, h1)" "p \<noteq> 0" "ff_inv h1" "\<And>k. (p, k) \<notin> ff_blocks h"
      "ff_blocks h1 = insert (p, m) (ff_blocks h)"
proof -
  obtain p h1 where r: "firstfit_malloc h n = Some (p, h1)" using malloc_returns [OF assms] by blast
  show ?thesis
  proof (cases "p = 0")
    case True
    then show ?thesis using null r malloc_null [OF assms] by (simp add: kmalloc_def)
  next
    case False
    then show ?thesis using block [of p h1] r malloc_block [OF assms r] by (auto simp: kmalloc_def)
  qed
qed

lemma heap_free_block:
  assumes "ff_inv h" "(p, m) \<in> ff_blocks h"
  shows "ff_inv (heap_free h p)" "ff_blocks (heap_free h p) = ff_blocks h - {(p, m)}"
  using free_block [OF assms] by (simp_all add: heap_free_def kfree_def)

lemma dir_new_entry_heap:
  assumes inv: "ff_inv h"
  shows "\<exists>ret dir' h1. ramfs_directory_new_entry h dir name ino = Some (ret, dir', h1) \<and> heap_grows h h1"
  using inv
proof (cases rule: kmalloc_cases [where n = 16])
  case null
  then show ?thesis using heap_grows_refl [OF inv] by (simp add: ramfs_directory_new_entry_def)
next
  case (block de m1 k1)
  note b1 = block
  from block(3) show ?thesis
  proof (cases rule: kmalloc_cases [where n = "of_nat (fst (strdup name))"])
    case null
    have "(de, m1) \<in> ff_blocks k1" using b1(5) by simp
    from heap_free_block [OF b1(3) this] have "heap_grows h (heap_free k1 de)" using b1(4,5) by (auto simp: heap_grows_def)
    then show ?thesis using b1(1,2) null by (simp add: ramfs_directory_new_entry_def)
  next
    case (block n m2 k2)
    define e where "e = \<lparr>de_self = de, de_hash = strhash (take (strlen name) name), de_name = snd (strdup name),
      de_name_ptr = n, de_ino = ino\<rparr>"
    obtain ret d where ins: "ramfs_directory_insert dir e = (ret, d)" by force
    have "(n, m2) \<in> ff_blocks k2" using block(5) by simp
    note f1 = heap_free_block [OF block(3) this]
    have "(de, m1) \<in> ff_blocks (heap_free k2 n)" using f1(2) block(4,5) b1(5) by auto
    note f2 = heap_free_block [OF f1(1) this]
    have "heap_grows h (ramfs_direntry_free k2 e)"
      using f1 f2 block(4,5) b1(4,5) by (auto simp: heap_grows_def ramfs_direntry_free_def e_def)
    moreover have "heap_grows h k2" using block(3,5) b1(5) by (auto simp: heap_grows_def)
    ultimately show ?thesis
      using b1(1,2) block(1,2) ins by (simp add: ramfs_directory_new_entry_def e_def Let_def)
  qed
qed

text \<open>With room at the tail of the heap, allocations succeed.\<close>

lemma kmalloc_room:
  assumes "ff_inv h" "room h r" "n + unat sz + 27 \<le> r" "sz \<noteq> 0" "33 \<le> n"
  shows "\<exists>p m h1. kmalloc h sz = Some (p, h1) \<and> p \<noteq> 0 \<and> ff_inv h1 \<and> (\<forall>k. (p, k) \<notin> ff_blocks h) \<and>
    ff_blocks h1 = insert (p, m) (ff_blocks h) \<and> room h1 n"
proof -
  obtain p h1 where r: "firstfit_malloc h sz = Some (p, h1)" "p \<noteq> 0" "room h1 n" using malloc_room [OF room_mono [OF assms(2,3)] assms(4,5)] by blast
  then show ?thesis using malloc_block [OF assms(1) r(1,2)] by (auto simp: kmalloc_def)
qed

lemma dir_new_entry_room:
  assumes inv: "ff_inv h" and ok: "dir_ok dir" and new: "dir_map dir (cstr name) = None" and len: "length (cstr name) \<le> 255"
    and room: "room h (n + 400)" "33 \<le> n"
  shows "\<exists>dir' h1. ramfs_directory_new_entry h dir name ino = Some (0, dir', h1) \<and> heap_grows h h1 \<and> room h1 n \<and>
    dir_ok dir' \<and> dir_map dir' = (dir_map dir)(cstr name \<mapsto> ino)"
proof -
  define k where "k = length (cstr name) + 1"
  have k: "fst (strdup name) = k" "k \<le> 256" "0 < k" using len by (simp_all add: strdup_def strndup_def UINT_MAX_def k_def strlen_cstr)
  define sz where "sz = (of_nat (fst (strdup name)) :: u32)"
  have uk: "unat sz = k" unfolding sz_def k(1) using k(2) by (intro unat_of_nat_u32) simp
  have sz: "sz \<noteq> 0" "unat sz \<le> 257" using uk k by auto
  obtain p m h1 where p: "kmalloc h 16 = Some (p, h1)" "p \<noteq> 0" "ff_inv h1" "ff_blocks h1 = insert (p, m) (ff_blocks h)" "room h1 (n + 357)"
    using kmalloc_room [OF inv room(1), of "n + 357" 16] room(2) by auto
  obtain q k h2 where q: "kmalloc h1 sz = Some (q, h2)" "q \<noteq> 0" "ff_inv h2" "ff_blocks h2 = insert (q, k) (ff_blocks h1)" "room h2 n"
    using kmalloc_room [OF p(3,5) _ sz(1) room(2)] sz(2) by auto
  define e where "e = \<lparr>de_self = p, de_hash = strhash (take (strlen name) name), de_name = snd (strdup name),
    de_name_ptr = q, de_ino = ino\<rparr>"
  obtain ret dir' where ins: "ramfs_directory_insert dir e = (ret, dir')" by force
  have r: "ramfs_directory_new_entry h dir name ino = Some (ret, dir', if ret \<noteq> 0 then ramfs_direntry_free h2 e else h2)"
    using p(1,2) q(1,2) ins unfolding e_def sz_def by (simp add: ramfs_directory_new_entry_def Let_def)
  have e: "ret = 0 \<or> ret = errno_code EEXIST" using ins by (auto simp: ramfs_directory_insert_def Let_def split: option.splits)
  have "length (cstr name) \<le> UINT_MAX" using len by (simp add: UINT_MAX_def)
  note m = new_entry_map [OF ok this r]
  have z: "ret = 0" using m new e by (cases "ret = 0") simp_all
  have "heap_grows h h2" using p(4) q(3,4) by (auto simp: heap_grows_def)
  then show ?thesis using r z m q(5) by simp
qed

section \<open>New inodes\<close>

lemma idata_by_leaf: "ramfs_idata_by_inode fs ino = (case btree_get_index (inodes_btree fs) (unat ino) of Some (Leaf p) \<Rightarrow> p | _ \<Rightarrow> 0)"
  by (simp add: ramfs_idata_by_inode_def)

text \<open>A new inode is at a fresh address and has a number that was not in use.\<close>

definition fresh_inode :: "nat \<Rightarrow> nat \<Rightarrow> ramfs \<Rightarrow> u32 \<Rightarrow> u32 \<Rightarrow> u32 \<Rightarrow> ramfs \<Rightarrow> bool" where
  "fresh_inode F L fs mode p ino fs' \<longleftrightarrow>
     heap_grows (kh fs) (kh fs') \<and> bt_ok F L (inodes_btree fs') \<and> p \<noteq> 0 \<and> ino \<noteq> 0 \<and>
     (\<forall>m. (p, m) \<notin> ff_blocks (kh fs)) \<and> (\<exists>m. (p, m) \<in> ff_blocks (kh fs')) \<and>
     ramfs_idata_by_inode fs ino = 0 \<and>
     (\<forall>i. ramfs_idata_by_inode fs' i = (if i = ino then p else ramfs_idata_by_inode fs i)) \<and>
     (\<forall>i. i \<noteq> unat ino \<longrightarrow> btree_get_index (inodes_btree fs') i = btree_get_index (inodes_btree fs) i) \<and>
     idatas fs' = (idatas fs)(p := zero_inode\<lparr>i_no := ino, i_mode := mode\<rparr>) \<and>
     dirs fs' = dirs fs \<and> sb_root_ino fs' = sb_root_ino fs \<and> mem fs' = mem fs \<and> pm fs' = pm fs"

lemma inode_new_at:
  assumes ok: "bt_ok F L (inodes_btree fs)" and small: "F ^ Suc L \<le> 2 ^ 31" and free: "\<not> bt_full L (inodes_btree fs)"
    and p: "kmalloc (kh fs) 88 = Some (p, h)" "p \<noteq> 0" "ff_inv h" "\<And>k. (p, k) \<notin> ff_blocks (kh fs)"
      "ff_blocks h = insert (p, m) (ff_blocks (kh fs))"
  shows "\<exists>ino fs'. ramfs_inode_new fs mode = Some (0, p, fs') \<and> fresh_inode F L fs mode p ino fs' \<and> kh fs' = h"
proof -
  obtain res root where l: "btree_new_leaf h (inodes_btree fs) p = Some (res, root, h)" "0 < res" "bt_ok F L root"
      "btree_get_index (inodes_btree fs) res = Some Null"
      "\<And>i. btree_get_index root i = (if i = res then Some (Leaf p) else btree_get_index (inodes_btree fs) i)"
    using new_leaf_free [OF ok small free, of h p] by blast
  have "btree_get_index root res = Some (Leaf p)" by (simp add: l(5))
  moreover have "F ^ Suc L < 2 ^ 32" using small by (simp del: power_Suc)
  ultimately have "res < F ^ Suc L" using get_index_at [OF l(3), of res] by (auto split: if_splits)
  then have res: "unat (of_nat res :: u32) = res" using small by (intro unat_of_nat_u32) simp
  define fs' where "fs' = fs\<lparr>kh := h, inodes_btree := root, idatas := (idatas fs)(p := zero_inode\<lparr>i_no := of_nat res, i_mode := mode\<rparr>)\<rparr>"
  have "ramfs_inode_new fs mode = Some (0, p, fs')" using p(1,2) l(1) by (simp add: ramfs_inode_new_def fs'_def)
  moreover have "fresh_inode F L fs mode p (of_nat res) fs'"
    unfolding fresh_inode_def
  proof (intro conjI allI)
    show "ramfs_idata_by_inode fs' i = (if i = of_nat res then p else ramfs_idata_by_inode fs i)" for i
    proof (cases "i = of_nat res")
      case True
      then show ?thesis using res l(5) by (simp add: idata_by_leaf fs'_def)
    next
      case False
      then have "unat i \<noteq> res" by auto
      then show ?thesis using False l(5) by (simp add: idata_by_leaf fs'_def)
    qed
    show "i \<noteq> unat (of_nat res :: u32) \<longrightarrow> btree_get_index (inodes_btree fs') i = btree_get_index (inodes_btree fs) i" for i
      using l(5) by (simp add: res fs'_def)
    show "of_nat res \<noteq> (0 :: u32)" using res l(2) by (metis less_numeral_extra(3) unat_0)
    show "ramfs_idata_by_inode fs (of_nat res) = 0" using res l(4) by (simp add: idata_by_leaf)
  qed (use p l(3) in \<open>auto simp: fs'_def heap_grows_def\<close>)
  moreover have "kh fs' = h" by (simp add: fs'_def)
  ultimately show ?thesis by blast
qed

lemma inode_new_fresh:
  assumes inv: "ff_inv (kh fs)" and ok: "bt_ok F L (inodes_btree fs)" "F ^ Suc L \<le> 2 ^ 31" "\<not> bt_full L (inodes_btree fs)"
  shows "ramfs_inode_new fs mode = Some (errno_code ENOMEM, 0, fs) \<or>
    (\<exists>p ino fs'. ramfs_inode_new fs mode = Some (0, p, fs') \<and> fresh_inode F L fs mode p ino fs')"
  using inv
proof (cases rule: kmalloc_cases [where n = 88])
  case null
  then show ?thesis by (simp add: ramfs_inode_new_def)
next
  case (block p m h)
  then show ?thesis using inode_new_at [OF ok block] by blast
qed

section \<open>Preservation\<close>

lemma ok_inodes:
  assumes ok: "ramfs_ok F L fs" and h: "heap_grows (kh fs) (kh fs')" and t: "bt_ok F L (inodes_btree fs')"
    and root: "sb_root_ino fs' = sb_root_ino fs" "ramfs_idata_by_inode fs' (sb_root_ino fs) = ramfs_idata_by_inode fs (sb_root_ino fs)"
      "i_mode (idatas fs' (ramfs_idata_by_inode fs (sb_root_ino fs))) = i_mode (idatas fs (ramfs_idata_by_inode fs (sb_root_ino fs)))"
    and nodes: "\<And>ino. ino \<noteq> 0 \<Longrightarrow> ramfs_idata_by_inode fs' ino \<noteq> 0 \<Longrightarrow> inode_ok fs' ino (ramfs_idata_by_inode fs' ino)"
  shows "ramfs_ok F L fs'"
  using ramfs_okD [OF ok] h t root nodes by (simp add: ramfs_ok_def heap_grows_def)

lemma inode_ok_keep:
  assumes ok: "inode_ok fs ino p" and h: "heap_grows (kh fs) (kh fs')"
    and same: "i_no (idatas fs' p) = i_no (idatas fs p)" "i_mode (idatas fs' p) = i_mode (idatas fs p)"
      "i_data (idatas fs' p) = i_data (idatas fs p)"
    and dir: "dir_ok (dirs fs (i_data (idatas fs p))) \<Longrightarrow> dir_ok (dirs fs' (i_data (idatas fs p)))"
  shows "inode_ok fs' ino p"
  using ok h dir unfolding inode_ok_def heap_grows_def same Let_def by blast

lemma fresh_inode_ok:
  assumes ok: "ramfs_ok F L fs" and f: "fresh_inode F L fs mode p ino fs'" and mode: "\<not> S_ISDIR mode"
  shows "ramfs_ok F L fs'"
proof -
  have fr: "heap_grows (kh fs) (kh fs')" "bt_ok F L (inodes_btree fs')" "\<And>m. (p, m) \<notin> ff_blocks (kh fs)"
      "\<exists>m. (p, m) \<in> ff_blocks (kh fs')" "ramfs_idata_by_inode fs ino = 0"
      "\<And>i. ramfs_idata_by_inode fs' i = (if i = ino then p else ramfs_idata_by_inode fs i)"
      "idatas fs' = (idatas fs)(p := zero_inode\<lparr>i_no := ino, i_mode := mode\<rparr>)" "dirs fs' = dirs fs" "sb_root_ino fs' = sb_root_ino fs"
    using f by (auto simp: fresh_inode_def)
  have old: "ramfs_idata_by_inode fs i \<noteq> p" if "i \<noteq> 0" "ramfs_idata_by_inode fs i \<noteq> 0" for i
    using ramfs_okD(4) [OF ok that] fr(3) by (auto simp: inode_ok_def)
  note root = ramfs_okD(5,6) [OF ok]
  have "sb_root_ino fs \<noteq> ino" using root(2) fr(5) by auto
  then show ?thesis
  proof (intro ok_inodes [OF ok fr(1,2,9)])
    fix i assume i: "i \<noteq> 0" "ramfs_idata_by_inode fs' i \<noteq> 0"
    show "inode_ok fs' i (ramfs_idata_by_inode fs' i)"
    proof (cases "i = ino")
      case True
      then show ?thesis using fr(4,6,7) mode by (simp add: inode_ok_def)
    next
      case False
      then have q: "ramfs_idata_by_inode fs' i = ramfs_idata_by_inode fs i" "ramfs_idata_by_inode fs i \<noteq> 0" using fr(6) i(2) by auto
      then show ?thesis
        using inode_ok_keep [OF ramfs_okD(4) [OF ok i(1) q(2)] fr(1)] old [OF i(1) q(2)] fr(7,8) by simp
    qed
  qed (use fr(6,7) old [OF root] in auto)
qed

lemma upd_idata_ok:
  assumes ok: "ramfs_ok F L fs" and g: "\<And>i. i_no (g i) = i_no i" "\<And>i. i_mode (g i) = i_mode i" "\<And>i. i_data (g i) = i_data i"
  shows "ramfs_ok F L (upd_idata g p fs)"
proof -
  have f: "ramfs_idata_by_inode (upd_idata g p fs) = ramfs_idata_by_inode fs" "kh (upd_idata g p fs) = kh fs"
      "dirs (upd_idata g p fs) = dirs fs" "inodes_btree (upd_idata g p fs) = inodes_btree fs" "sb_root_ino (upd_idata g p fs) = sb_root_ino fs"
    by (auto simp: upd_idata_def ramfs_idata_by_inode_def)
  have "i_no (idatas (upd_idata g p fs) q) = i_no (idatas fs q)" "i_mode (idatas (upd_idata g p fs) q) = i_mode (idatas fs q)"
      "i_data (idatas (upd_idata g p fs) q) = i_data (idatas fs q)" for q
    using g by (simp_all add: upd_idata_def)
  then show ?thesis using ok by (simp add: ramfs_ok_def inode_ok_def f)
qed

text \<open>What \<^verbatim>\<open>ramfs_make_node\<close> records of a device.\<close>

definition set_dev :: "u32 \<Rightarrow> u32 \<Rightarrow> inode \<Rightarrow> inode" where
  "set_dev mode info i = (if S_ISCHR mode \<or> S_ISBLK mode
     then i\<lparr>dev_maj := gnu_dev_major (ucast info), dev_min := gnu_dev_minor (ucast info)\<rparr> else i)"

lemma set_dev_fields [simp]:
  "i_no (set_dev mode info i) = i_no i" "i_mode (set_dev mode info i) = i_mode i" "i_data (set_dev mode info i) = i_data i"
  "i_nlinks (set_dev mode info i) = i_nlinks i" "i_size (set_dev mode info i) = i_size i"
  by (simp_all add: set_dev_def)

lemma make_node_ok:
  assumes ok: "ramfs_ok F L fs" and free: "\<not> bt_full L (inodes_btree fs)" and mode: "\<not> S_ISDIR mode"
  shows "ramfs_make_node fs mode info = Some (errno_code ENOMEM, 0, fs) \<or>
    (\<exists>p ino fs1. ramfs_make_node fs mode info = Some (0, ino, upd_idata (set_dev mode info) p fs1) \<and>
       fresh_inode F L fs mode p ino fs1 \<and> ramfs_ok F L (upd_idata (set_dev mode info) p fs1))"
proof -
  note okD = ramfs_okD [OF ok]
  consider "ramfs_inode_new fs mode = Some (errno_code ENOMEM, 0, fs)"
    | p ino fs1 where "ramfs_inode_new fs mode = Some (0, p, fs1)" "fresh_inode F L fs mode p ino fs1"
    using inode_new_fresh [OF okD(1-3) free, of mode] by blast
  then show ?thesis
  proof cases
    case 1
    then show ?thesis by (simp add: ramfs_make_node_def)
  next
    case 2
    have "i_no (idatas fs1 p) = ino" using 2(2) by (simp add: fresh_inode_def)
    then have "ramfs_make_node fs mode info = Some (0, ino, upd_idata (set_dev mode info) p fs1)"
      using 2(1) by (auto simp: ramfs_make_node_def set_dev_def Let_def upd_idata_def)
    moreover have "ramfs_ok F L (upd_idata (set_dev mode info) p fs1)"
      by (rule upd_idata_ok [OF fresh_inode_ok [OF ok 2(2) mode]]) simp_all
    ultimately show ?thesis using 2(2) by blast
  qed
qed

section \<open>New entries\<close>

lemma new_entry_ok:
  assumes ok: "ramfs_ok F L fs" and d: "dir_ok (dirs fs d)" and len: "length (cstr name) \<le> UINT_MAX"
  shows "\<exists>ret dir' h. new_entry fs d name idata = Some (ret, fs\<lparr>kh := h, dirs := (dirs fs)(d := dir')\<rparr>) \<and>
    heap_grows (kh fs) h \<and> ramfs_ok F L (fs\<lparr>kh := h, dirs := (dirs fs)(d := dir')\<rparr>) \<and> dir_ok dir' \<and>
    (if ret = 0 then dir_map (dirs fs d) (cstr name) = None \<and> dir_map dir' = (dir_map (dirs fs d))(cstr name \<mapsto> i_no (idatas fs idata))
     else dir' = dirs fs d \<and> (ret = errno_code ENOMEM \<or> ret = errno_code EEXIST \<and> dir_map (dirs fs d) (cstr name) \<noteq> None))"
proof -
  obtain ret dir' h where r: "ramfs_directory_new_entry (kh fs) (dirs fs d) name (i_no (idatas fs idata)) = Some (ret, dir', h)"
      "heap_grows (kh fs) h"
    using dir_new_entry_heap [OF ramfs_okD(1) [OF ok]] by blast
  note m = new_entry_map [OF d len r(1)]
  define fs' where "fs' = fs\<lparr>kh := h, dirs := (dirs fs)(d := dir')\<rparr>"
  have dir': "dir_ok dir'" using m d by (cases "ret = 0") auto
  have same: "ramfs_idata_by_inode fs' = ramfs_idata_by_inode fs" "idatas fs' = idatas fs" "inodes_btree fs' = inodes_btree fs"
      "sb_root_ino fs' = sb_root_ino fs" "kh fs' = h"
    by (auto simp: fs'_def ramfs_idata_by_inode_def)
  have "ramfs_ok F L fs'"
  proof (rule ok_inodes [OF ok])
    fix i assume i: "i \<noteq> 0" "ramfs_idata_by_inode fs' i \<noteq> 0"
    show "inode_ok fs' i (ramfs_idata_by_inode fs' i)"
      using inode_ok_keep [of fs i "ramfs_idata_by_inode fs i" fs'] ramfs_okD(4) [OF ok] i dir' r(2)
      by (simp add: same) (simp add: fs'_def)
  qed (use r(2) ramfs_okD(2) [OF ok] in \<open>simp_all add: same\<close>)
  then show ?thesis using r m dir' unfolding fs'_def by (cases "ret = 0") (auto simp: new_entry_def)
qed

section \<open>Mounting\<close>

lemma directory_new_room:
  assumes "ff_inv h" "room h (n + 98)" "33 \<le> n"
  shows "\<exists>d m h1 q. ramfs_directory_new h = Some (0, d, Some \<lparr>dsize = 0, htcap = 8, ht = replicate 8 [], ht_ptr = q\<rparr>, h1) \<and>
    d \<noteq> 0 \<and> (d, m) \<in> ff_blocks h1 \<and> heap_grows h h1 \<and> room h1 n"
proof -
  obtain d m h1 where d: "kmalloc h 12 = Some (d, h1)" "d \<noteq> 0" "ff_inv h1" "ff_blocks h1 = insert (d, m) (ff_blocks h)" "room h1 (n + 59)"
    using kmalloc_room [OF assms(1,2), of "n + 59" 12] assms(3) by auto
  obtain q k h2 where q: "kmalloc h1 (8 * 4) = Some (q, h2)" "q \<noteq> 0" "ff_inv h2" "ff_blocks h2 = insert (q, k) (ff_blocks h1)" "room h2 n"
    using kmalloc_room [OF d(3,5), of n "8 * 4"] assms(3) by auto
  have "heap_grows h h2" using d(4) q(3,4) by (auto simp: heap_grows_def)
  then show ?thesis using d q by (auto simp: ramfs_directory_new_def)
qed

lemma empty_dir: "dir_ok \<lparr>dsize = 0, htcap = 8, ht = replicate 8 [], ht_ptr = q\<rparr>"
  "dir_map \<lparr>dsize = 0, htcap = 8, ht = replicate 8 [], ht_ptr = q\<rparr> = Map.empty"
  by (simp add: dir_ok_def) (auto simp: dir_map_None fun_eq_iff)

lemma new_root_tree:
  "btree_set_leaf (BNode 0 64 0 (replicate 64 Null)) p = (0, BNode 0 64 1 (Leaf p # replicate 63 Null))"
proof -
  have "replicate 64 Null = Null # replicate 63 Null" by (simp flip: replicate_Suc)
  then show ?thesis by simp
qed

lemma new_root_ok: "bt_ok 64 0 (BNode 0 64 1 (Leaf p # replicate 63 Null))" "\<not> bt_full 0 (BNode 0 64 1 (Leaf p # replicate 63 Null))"
  by auto

lemma data_new_room:
  assumes "ff_inv (kh fs)" "room (kh fs) (n + 400)" "33 \<le> n"
  shows "\<exists>d h. ramfs_data_new fs = Some (0, d, upd_idata (i_no_update (\<lambda>_. 0)) (invalid_inode fs)
      (fs\<lparr>kh := h, inodes_btree := BNode 0 64 1 (Leaf (invalid_inode fs) # replicate 63 Null)\<rparr>)) \<and> ff_inv h \<and> room h n"
proof -
  obtain d m h1 where d: "kmalloc (kh fs) 4 = Some (d, h1)" "d \<noteq> 0" "ff_inv h1" "room h1 (n + 300)"
    using kmalloc_room [OF assms(1,2), of "n + 300" 4] assms(3) by auto
  obtain b k h2 where "kmalloc h1 268 = Some (b, h2)" "b \<noteq> 0" "ff_inv h2" "room h2 n"
    using kmalloc_room [OF d(3,4), of n 268] assms(3) by auto
  then show ?thesis
    using d by (auto simp: ramfs_data_new_def btree_new_def new_root_tree simp del: btree_set_leaf.simps)
qed

lemma inode_new_parent: "ramfs_inode_new fs mode = Some (ret, p, fs') \<Longrightarrow> sb_parent fs' = sb_parent fs"
  by (auto simp: ramfs_inode_new_def Let_def split: bind_split_asm if_splits prod.splits)

text \<open>The directory made for an empty path of the root file system, with its two entries.\<close>

definition root_made :: "ramfs \<Rightarrow> u32 \<Rightarrow> u32 \<Rightarrow> u32 \<Rightarrow> ramfs \<Rightarrow> bool" where
  "root_made fs p d ino fs' \<longleftrightarrow>
     heap_grows (kh fs) (kh fs') \<and> bt_ok 64 0 (inodes_btree fs') \<and> p \<noteq> 0 \<and> ino \<noteq> 0 \<and> d \<noteq> 0 \<and> pm fs' = pm fs \<and>
     (\<exists>m. (p, m) \<in> ff_blocks (kh fs')) \<and> (\<exists>m. (d, m) \<in> ff_blocks (kh fs')) \<and>
     (\<forall>i. ramfs_idata_by_inode fs' i = (if i = ino then p else ramfs_idata_by_inode fs i)) \<and>
     (\<forall>i. i \<noteq> unat ino \<longrightarrow> btree_get_index (inodes_btree fs') i = btree_get_index (inodes_btree fs) i) \<and>
     i_no (idatas fs' p) = ino \<and> S_ISDIR (i_mode (idatas fs' p)) \<and> i_data (idatas fs' p) = d \<and> i_nlinks (idatas fs' p) = 2 \<and>
     dir_ok (dirs fs' d) \<and> dir_map (dirs fs' d) = [''..'' \<mapsto> ino, ''.'' \<mapsto> ino]"

lemma make_root_room:
  assumes inv: "ff_inv (kh fs)" and room: "room (kh fs) (n + 1200)" "33 \<le> n" and t: "bt_ok 64 0 (inodes_btree fs)" "\<not> bt_full 0 (inodes_btree fs)"
    and mode: "S_ISDIR (S_IFDIR OR mode)" and par: "sb_parent fs = 0"
  shows "\<exists>p d ino fs'. ramfs_make_directory fs [] mode = Some (0, ino, fs') \<and> root_made fs p d ino fs' \<and> room (kh fs') n"
proof -
  obtain p m h1 where p: "kmalloc (kh fs) 88 = Some (p, h1)" "p \<noteq> 0" "ff_inv h1" "\<And>k. (p, k) \<notin> ff_blocks (kh fs)"
      "ff_blocks h1 = insert (p, m) (ff_blocks (kh fs))" "room h1 (n + 1000)"
    using kmalloc_room [OF inv room(1), of "n + 1000" 88] room(2) by auto
  obtain ino fs2 where n: "ramfs_inode_new fs (S_IFDIR OR mode) = Some (0, p, fs2)" "fresh_inode 64 0 fs (S_IFDIR OR mode) p ino fs2" "kh fs2 = h1"
    using inode_new_at [OF t(1) _ t(2) p(1-5), of "S_IFDIR OR mode"] by auto
  obtain d k h2 q where d: "ramfs_directory_new h1 = Some (0, d, Some \<lparr>dsize = 0, htcap = 8, ht = replicate 8 [], ht_ptr = q\<rparr>, h2)"
      "d \<noteq> 0" "(d, k) \<in> ff_blocks h2" "heap_grows h1 h2" "room h2 (n + 900)"
    using directory_new_room [OF p(3) room_mono [OF p(6)], of "n + 900"] room(2) by auto
  define D0 where "D0 = \<lparr>dsize = 0, htcap = 8, ht = replicate 8 [] :: ramfs_direntry list list, ht_ptr = q\<rparr>"
  have D0: "dir_ok D0" "dir_map D0 = Map.empty" unfolding D0_def by (fact empty_dir)+
  have dots: "cstr ''..'' = ''..''" "cstr ''.'' = ''.''" by (simp_all add: cstr_def NUL_def)
  have h2: "ff_inv h2" using d(4) by (simp add: heap_grows_def)
  obtain D1 h3 where D1: "ramfs_directory_new_entry h2 D0 ''..'' ino = Some (0, D1, h3)" "heap_grows h2 h3" "room h3 (n + 500)"
      "dir_ok D1" "dir_map D1 = [''..'' \<mapsto> ino]"
    using dir_new_entry_room [OF h2 D0(1), of "''..''" "n + 500" ino] D0(2) d(5) room(2) by (auto simp: dots add.assoc)
  have h3: "ff_inv h3" using D1(2) by (simp add: heap_grows_def)
  obtain D2 h4 where D2: "ramfs_directory_new_entry h3 D1 ''.'' ino = Some (0, D2, h4)" "heap_grows h3 h4" "room h4 (n + 100)"
      "dir_ok D2" "dir_map D2 = [''..'' \<mapsto> ino, ''.'' \<mapsto> ino]"
    using dir_new_entry_room [OF h3 D1(4), of "''.''" "n + 100" ino] D1(3,5) room(2) by (auto simp: dots add.assoc)
  have f: "i_no (idatas fs2 p) = ino" "idatas fs2 p = zero_inode\<lparr>i_no := ino, i_mode := S_IFDIR OR mode\<rparr>"
    using n(2) by (simp_all add: fresh_inode_def)
  define fs' where "fs' = fs2\<lparr>kh := h4, dirs := (dirs fs2)(d := D2),
    idatas := (idatas fs2)(p := (idatas fs2 p)\<lparr>i_data := d, i_nlinks := 1 + 1\<rparr>)\<rparr>"
  have "ramfs_make_directory fs [] mode = Some (0, ino, fs')"
    using n(1,3) d(1) D1(1) D2(1) f par inode_new_parent [OF n(1)]
    by (simp add: ramfs_make_directory_def new_entry_def upd_idata_def chr0_def Let_def fs'_def fun_upd_def D0_def zero_inode_def cong: if_cong)
  moreover have "root_made fs p d ino fs'"
  proof -
    have "heap_grows (kh fs) h1" using n(2,3) by (simp add: fresh_inode_def)
    then have g: "heap_grows (kh fs) h4" "heap_grows h1 h4" "heap_grows h2 h4"
      using heap_grows_trans d(4) D1(2) D2(2) by blast+
    have "(p, m) \<in> ff_blocks h4" "(d, k) \<in> ff_blocks h4" using g p(5) d(3) unfolding heap_grows_def by blast+
    moreover have "ramfs_idata_by_inode fs' = ramfs_idata_by_inode fs2" by (simp add: fs'_def ramfs_idata_by_inode_def fun_eq_iff)
    ultimately show ?thesis
      using n(2) g(1) d(2) D2(4,5) f mode unfolding root_made_def fresh_inode_def fs'_def by simp blast
  qed
  moreover have "room (kh fs') n" using room_mono [OF D2(3), of n] by (simp add: fs'_def)
  ultimately show ?thesis by blast
qed

text \<open>A file system as mounting leaves it: only the root, and a tree that is not full.\<close>

definition mounted :: "ramfs \<Rightarrow> bool" where
  "mounted fs \<longleftrightarrow>
     ramfs_ok 64 0 fs \<and> \<not> bt_full 0 (inodes_btree fs) \<and>
     (let ino = sb_root_ino fs; root = idatas fs (ramfs_idata_by_inode fs ino) in
      dir_map (dirs fs (i_data root)) = [''..'' \<mapsto> ino, ''.'' \<mapsto> ino] \<and> i_nlinks root = 2)"

lemma free_bottom: "bt_ok F 0 t \<Longrightarrow> F < 2 ^ 32 \<Longrightarrow> i < F \<Longrightarrow> btree_get_index t i = Some Null \<Longrightarrow> \<not> bt_full 0 t"
  using bt_ok_fields [of F 0 t] by (auto simp: get_index_at in_set_conv_nth)

lemma mount_room:
  assumes "ff_inv (kh fs)" "room (kh fs) (n + 1600)" "33 \<le> n" "sb_parent fs = 0"
  shows "\<exists>fs'. ramfs_read_superblock fs = Some (0, fs') \<and> mounted fs' \<and> room (kh fs') n \<and> pm fs' = pm fs"
proof -
  let ?t = "BNode 0 64 1 (Leaf (invalid_inode fs) # replicate 63 Null)"
  obtain d h where dn: "ramfs_data_new fs = Some (0, d, upd_idata (i_no_update (\<lambda>_. 0)) (invalid_inode fs)
      (fs\<lparr>kh := h, inodes_btree := ?t\<rparr>))" "ff_inv h" "room h (n + 1200)"
    using data_new_room [OF assms(1), of "n + 1200"] assms(2) by (auto simp: add.assoc)
  define fs1 where "fs1 = upd_idata (i_no_update (\<lambda>_. 0)) (invalid_inode fs) (fs\<lparr>kh := h, inodes_btree := ?t\<rparr>)"
  have f1: "kh fs1 = h" "inodes_btree fs1 = ?t" "pm fs1 = pm fs" "sb_parent fs1 = 0"
    using assms(4) by (simp_all add: fs1_def upd_idata_def)
  have null: "btree_get_index (inodes_btree fs1) i = Some Null" if "i \<noteq> 0" for i
    using that get_index_at [OF new_root_ok(1)] by (cases i) (auto simp: f1(2))
  have none: "ramfs_idata_by_inode fs1 i = 0" if "i \<noteq> 0" for i
    using that null [of "unat i"] by (simp add: idata_by_leaf unat_eq_zero)
  have mode: "S_ISDIR (S_IFDIR OR (S_IFDIR OR 0x1ed))" by (simp add: S_ISDIR_def S_FMT_def S_IFDIR_def)
  obtain p q ino fs2 where m: "ramfs_make_directory fs1 [] (S_IFDIR OR 0x1ed) = Some (0, ino, fs2)" "root_made fs1 p q ino fs2" "room (kh fs2) n"
    using make_root_room [of fs1, OF _ _ assms(3) _ _ mode f1(4)] dn(2,3) new_root_ok by (auto simp: f1)
  define fs' where "fs' = fs2\<lparr>sb_root_ino := ino\<rparr>"
  have "ramfs_read_superblock fs = Some (0, fs')"
    using dn(1) m(1) unfolding fs1_def [symmetric] by (simp add: ramfs_read_superblock_def fs'_def)
  moreover have id: "ramfs_idata_by_inode fs' i = (if i = ino then p else ramfs_idata_by_inode fs1 i)" for i
    using m(2) by (simp add: root_made_def fs'_def ramfs_idata_by_inode_def)
  moreover have "ramfs_ok 64 0 fs'"
    unfolding ramfs_ok_def
  proof (intro conjI allI impI)
    fix i assume "i \<noteq> 0" "ramfs_idata_by_inode fs' i \<noteq> 0"
    then have "i = ino" using none id by (auto split: if_splits)
    then show "inode_ok fs' i (ramfs_idata_by_inode fs' i)"
      using m(2) id by (simp add: root_made_def inode_ok_def fs'_def Let_def)
  qed (use m(2) id in \<open>auto simp: root_made_def fs'_def heap_grows_def\<close>)
  moreover have "\<not> bt_full 0 (inodes_btree fs')"
  proof -
    obtain i where i: "i \<noteq> unat ino" "i \<noteq> 0" "i < (64 :: nat)"
      using that [of 1] that [of 2] by (cases "unat ino = 1") simp_all
    then have "btree_get_index (inodes_btree fs') i = Some Null" using m(2) null by (simp add: root_made_def fs'_def)
    then show ?thesis using free_bottom [of 64 "inodes_btree fs'" i] i(3) m(2) by (simp add: root_made_def fs'_def)
  qed
  ultimately show ?thesis using m(2,3) f1(3) unfolding mounted_def by (auto simp: root_made_def fs'_def Let_def)
qed

section \<open>Properties\<close>

text \<open>C17. Mounting a RAM file system as the root succeeds when the heap has room and gives a well-formed file system: a directory as root, whose
  entries are its two names for itself, every inode number maps to an inode with that number on the heap, and the
  inode tree has free entries.\<close>

theorem ramfs_mount_well_formed:
  assumes "ff_inv (kh fs)" "room (kh fs) 2000" "sb_parent fs = 0"
  shows "\<exists>fs'. ramfs_read_superblock fs = Some (0, fs') \<and> ramfs_ok 64 0 fs' \<and> \<not> bt_full 0 (inodes_btree fs') \<and>
    (let ino = sb_root_ino fs'; root = idatas fs' (ramfs_idata_by_inode fs' ino) in
     dir_map (dirs fs' (i_data root)) = [''..'' \<mapsto> ino, ''.'' \<mapsto> ino] \<and> i_nlinks root = 2)"
  using mount_room [OF assms(1) _ _ assms(3), of 400] assms(2) unfolding mounted_def by auto

definition ex_unmounted :: ramfs where
  "ex_unmounted = \<lparr>kh = big_heap, pm = big_pmem, mem = (\<lambda>_. 0),
     idatas = (\<lambda>_. zero_inode), dirs = (\<lambda>_. ex_dir), inodes_btree = BNode 0 0 0 [], sb_parent = 0, sb_root_ino = 0, invalid_inode = 0x10\<rparr>"

theorem ramfs_mount_well_formed_witness:
  "\<exists>fs'. ramfs_read_superblock ex_unmounted = Some (0, fs') \<and> ramfs_ok 64 0 fs'"
  using ramfs_mount_well_formed [of ex_unmounted] big_heap_inv(1) room_mono [OF big_heap_room, of 2000]
  by (auto simp: ex_unmounted_def)

end
