(* ===== verification/Ramfs_Path.thy ===== *)
theory Ramfs_Path
  imports Ramfs
begin

text \<open>
  Path lookup of \<^verbatim>\<open>src/fs/ramfs.c\<close> against a reference definition: walking the name maps of the
  directories one component at a time.
\<close>

section \<open>Reference\<close>

fun resolve :: "ramfs \<Rightarrow> u32 \<Rightarrow> string list \<Rightarrow> int \<times> u32" where
  "resolve fs d [] = (0, 0)"
| "resolve fs d (n # ns) =
     (case dir_map (dirs fs d) n of
        None \<Rightarrow> (errno_code ENOENT, 0)
      | Some i \<Rightarrow>
          if ns = [] then (0, i)
          else
            let p = ramfs_idata_by_inode fs i in
            if p = 0 then (errno_code EKERN, 0)
            else if \<not> S_ISDIR (i_mode (idatas fs p)) then (errno_code ENOTDIR, 0)
            else resolve fs (i_data (idatas fs p)) ns)"

text \<open>The directories on the way are well-formed and the names looked up have no hash collision there.\<close>

fun walk_ok :: "ramfs \<Rightarrow> u32 \<Rightarrow> string list \<Rightarrow> bool" where
  "walk_ok fs d [] \<longleftrightarrow> True"
| "walk_ok fs d (n # ns) \<longleftrightarrow>
     dir_ok (dirs fs d) \<and> hash_unique (dirs fs d) n \<and>
     (case dir_map (dirs fs d) n of
        None \<Rightarrow> True
      | Some i \<Rightarrow>
          (let p = ramfs_idata_by_inode fs i in
           p \<noteq> 0 \<longrightarrow> S_ISDIR (i_mode (idatas fs p)) \<longrightarrow> walk_ok fs (i_data (idatas fs p)) ns))"

text \<open>A path: components with at least one separator between two of them.\<close>

definition component :: "string \<Rightarrow> bool" where
  "component n \<longleftrightarrow> n \<noteq> [] \<and> NUL \<notin> set n \<and> FS_SEP \<notin> set n"

fun spell :: "string \<Rightarrow> (nat \<times> string) list \<Rightarrow> string" where
  "spell n [] = n"
| "spell n ((k, m) # rest) = n @ replicate (Suc k) FS_SEP @ spell m rest"

section \<open>One component\<close>

lemma sep_not_nul [simp]: "FS_SEP \<noteq> NUL" "NUL \<noteq> FS_SEP"
  by (simp_all add: FS_SEP_def NUL_def)

lemma name_len_component:
  "NUL \<notin> set n \<Longrightarrow> FS_SEP \<notin> set n \<Longrightarrow> length n \<le> len \<Longrightarrow> rest = [] \<or> hd rest = FS_SEP \<Longrightarrow> name_len (n @ rest) len = length n"
proof (induction n arbitrary: len)
  case Nil
  then show ?case by (cases rest) auto
next
  case (Cons c n)
  then show ?case by (cases len) auto
qed

lemma take_cstr_component: "NUL \<notin> set n \<Longrightarrow> take (length n) (cstr (n @ rest)) = n"
  by (induction n) (auto simp: cstr_Cons)

lemma search_component:
  assumes "walk_ok fs d (n # ns)" "component n"
  shows "ramfs_directory_search (dirs fs d) (n @ rest) (length n) =
    (case dir_map (dirs fs d) n of None \<Rightarrow> (errno_code ENOENT, 0) | Some i \<Rightarrow> (0, i))"
proof -
  have t: "take (length n) (cstr (n @ rest)) = n" using assms(2) by (intro take_cstr_component) (simp add: component_def)
  have "dir_ok (dirs fs d)" "hash_unique (dirs fs d) (take (length n) (cstr (n @ rest)))"
    unfolding t using assms(1) by simp_all
  from search_map [OF this] show ?thesis unfolding t .
qed

lemma spell_not_nil: "component n \<Longrightarrow> spell n rest \<noteq> [] \<and> hd (spell n rest) \<noteq> FS_SEP \<and> hd (spell n rest) \<noteq> NUL"
  by (cases rest; cases n) (auto simp: component_def)

section \<open>The walk\<close>

lemma lookup_in_resolve:
  assumes "component n" "\<forall>(k, m)\<in>set rest. component m" "walk_ok fs d (n # map snd rest)"
    "tr = [] \<or> tr = [FS_SEP]" "length (spell n rest @ tr) \<le> len"
  shows "lookup_in fs d (spell n rest @ tr) len = resolve fs d (n # map snd rest)"
  using assms
proof (induction rest arbitrary: n d len)
  case Nil
  have nl: "name_len (n @ tr) len = length n" using Nil by (intro name_len_component) (auto simp: component_def)
  note s = search_component [OF Nil.prems(3,1), of tr]
  show ?case
    using Nil.prems(4,5) s nl by (subst lookup_in.simps) (auto simp: chr0_def split: option.splits)
next
  case (Cons km rest)
  obtain k m where km: "km = (k, m)" by (cases km)
  define more where "more = spell m rest @ tr"
  define r where "r = FS_SEP # replicate k FS_SEP @ more"
  have sp: "spell n (km # rest) @ tr = n @ r" by (simp add: km r_def more_def)
  have cm: "component m" using Cons.prems(2) km by auto
  have more: "more \<noteq> []" "hd more \<noteq> FS_SEP" "hd more \<noteq> NUL"
    using spell_not_nil [OF cm, of rest] by (simp_all add: more_def)
  have nl: "name_len (n @ r) len = length n"
    using Cons.prems(1,5) sp by (intro name_len_component) (auto simp: component_def r_def)
  have len: "length n + Suc k + length more \<le> len" using Cons.prems(5) unfolding sp by (simp add: r_def)
  have dw: "dropWhile (\<lambda>c. c = FS_SEP) (replicate k FS_SEP @ more) = more"
    using more by (cases more) (simp_all add: dropWhile_append)
  have c0: "chr0 (replicate k FS_SEP @ more) \<noteq> NUL" using more by (cases k; cases more) (simp_all add: chr0_def)
  note s = search_component [OF Cons.prems(3,1), of r]
  show ?case
  proof (cases "dir_map (dirs fs d) n")
    case None
    then show ?thesis using s nl len unfolding sp by (subst lookup_in.simps) (simp add: r_def chr0_def)
  next
    case (Some i)
    define p where "p = ramfs_idata_by_inode fs i"
    have step: "lookup_in fs d (n @ r) len =
        (if p = 0 then (errno_code EKERN, 0) else if \<not> S_ISDIR (i_mode (idatas fs p)) then (errno_code ENOTDIR, 0)
         else lookup_in fs (i_data (idatas fs p)) more (len - (length (n @ r) - length more)))"
      using s nl len c0 dw Some by (subst lookup_in.simps) (simp add: r_def chr0_def p_def Let_def)
    have "lookup_in fs (i_data (idatas fs p)) more (len - (length (n @ r) - length more)) =
        resolve fs (i_data (idatas fs p)) (m # map snd rest)" if "p \<noteq> 0" "S_ISDIR (i_mode (idatas fs p))"
      unfolding more_def
    proof (rule Cons.IH [OF cm])
      show "\<forall>(k, m)\<in>set rest. component m" using Cons.prems(2) by auto
      show "walk_ok fs (i_data (idatas fs p)) (m # map snd rest)"
        using Cons.prems(3) that Some unfolding p_def by (simp add: km Let_def)
      show "length (spell m rest @ tr) \<le> len - (length (n @ r) - length (spell m rest @ tr))"
        using len unfolding more_def [symmetric] by (simp add: r_def)
    qed (use Cons.prems(4) in simp)
    then show ?thesis unfolding sp step using Some by (simp add: km p_def Let_def)
  qed
qed

section \<open>Properties\<close>

text \<open>C16. Path lookup walks the name maps of the directories: for a path of components with any number of separators
  between them and possibly one at the end, the answer and the error are those of the component-wise reference,
  starting at the root directory.\<close>

theorem ramfs_lookup_resolves:
  assumes "component n" "\<forall>(k, m)\<in>set rest. component m" "tr = [] \<or> tr = [FS_SEP]"
    and "length (spell n rest @ tr) \<le> pathlen"
    and "ramfs_idata_by_inode fs (sb_root_ino fs) = root" "root \<noteq> 0" "S_ISDIR (i_mode (idatas fs root))"
    and "walk_ok fs (i_data (idatas fs root)) (n # map snd rest)"
  shows "ramfs_lookup_inode fs (spell n rest @ tr) pathlen =
    resolve fs (i_data (idatas fs root)) (n # map snd rest)"
proof -
  have "chr0 (spell n rest @ tr) \<noteq> NUL" "pathlen \<noteq> 0"
    using spell_not_nil [OF assms(1), of rest] assms(4) by (cases "spell n rest"; simp add: chr0_def)+
  then show ?thesis
    using lookup_in_resolve [OF assms(1,2,8,3,4)] assms(5-7) by (simp add: ramfs_lookup_inode_def Let_def)
qed

text \<open>A file system whose only directory is the root, inode 1.\<close>

definition ex_root_fs :: ramfs where
  "ex_root_fs = \<lparr>kh = heap0, pm = \<lparr>theEdgeOfAllocatedMemory = 300, theEndOfUpperMemory = 1000\<rparr>, mem = (\<lambda>_. 0),
     idatas = (\<lambda>_. zero_inode\<lparr>i_no := 1, i_mode := S_IFDIR, i_data := 0x40\<rparr>), dirs = (\<lambda>_. ex_dir),
     inodes_btree = BNode 0 4 2 [Leaf 0x10, Leaf 0x20, Null, Null], sb_parent = 0, sb_root_ino = 1, invalid_inode = 0x10\<rparr>"

lemma ex_root:
  "ramfs_idata_by_inode ex_root_fs 1 = 0x20" "S_ISDIR (i_mode (idatas ex_root_fs p))" "i_data (idatas ex_root_fs p) = 0x40"
  "dirs ex_root_fs d = ex_dir" "sb_root_ino ex_root_fs = 1"
  by (simp_all add: ex_root_fs_def ramfs_idata_by_inode_def btree_get_index_def S_ISDIR_def S_FMT_def S_IFDIR_def)

theorem ramfs_lookup_resolves_witness:
  "ramfs_lookup_inode ex_root_fs ''..//./'' 100 = (0, 1) \<and> ramfs_lookup_inode ex_root_fs ''..'' 2 = (0, 1)"
proof -
  have c: "component ''..''" "component ''.''" by (simp_all add: component_def FS_SEP_def NUL_def)
  have w: "walk_ok ex_root_fs d [''..'', ''.'']" "walk_ok ex_root_fs d [''..'']" for d
    using ex_dir_ok ex_dir_unique by (simp_all add: ex_root Let_def)
  have p: "spell ''..'' [(1, ''.'')] @ [FS_SEP] = ''..//./''" by (simp add: FS_SEP_def)
  have r: "resolve ex_root_fs 0x40 [''..'', ''.''] = (0, 1)" "resolve ex_root_fs 0x40 [''..''] = (0, 1)"
    using ex_dir_ok(2) by (simp_all add: ex_root)
  show ?thesis
    using ramfs_lookup_resolves [of "''..''" "[(1, ''.'')]" "[FS_SEP]" 100 ex_root_fs "0x20", unfolded p]
      ramfs_lookup_resolves [of "''..''" "[]" "[]" 2 ex_root_fs "0x20"] c w r by (simp add: ex_root)
qed

end
