(* ===== verification/Vfs_Spec.thy ===== *)
theory Vfs_Spec
  imports Vfs Ramfs_Ok Ramfs_Path
begin

text \<open>
  What the virtual file system promises over a mounted RAM file system: a node that was made is found, has the
  attributes it was made with, and what is written to it is read back.
\<close>

section \<open>Links\<close>

lemma cstr_strncpy: "length (cstr s) \<le> n \<Longrightarrow> cstr (strncpy s n) = cstr s"
  by (induction s n rule: strncpy.induct) (auto simp: cstr_Cons split: if_splits)

text \<open>The state after an inode was linked: one more entry and one more link.\<close>

definition linked :: "ramfs \<Rightarrow> ff_state \<Rightarrow> u32 \<Rightarrow> ramfs_directory \<Rightarrow> u32 \<Rightarrow> ramfs" where
  "linked fs h d dir' q = upd_idata (i_nlinks_update (\<lambda>n. n + 1)) q (fs\<lparr>kh := h, dirs := (dirs fs)(d := dir')\<rparr>)"

lemma link_room:
  assumes ok: "ramfs_ok F L fs" and dp: "ramfs_idata_by_inode fs dirino = dp" "dp \<noteq> 0" "dirino \<noteq> 0" "S_ISDIR (i_mode (idatas fs dp))"
    and q: "ramfs_idata_by_inode fs ino = q" "q \<noteq> 0" and d: "d = i_data (idatas fs dp)"
    and name: "length (cstr name) \<le> 255" "length (cstr name) \<le> namelen" "dir_map (dirs fs d) (cstr name) = None"
    and room: "room (kh fs) 500"
  shows "\<exists>h dir'. ramfs_link_inode fs ino dirino name namelen = Some (0, linked fs h d dir' q) \<and>
    ramfs_ok F L (linked fs h d dir' q) \<and> dir_ok dir' \<and> dir_map dir' = (dir_map (dirs fs d))(cstr name \<mapsto> i_no (idatas fs q))"
proof -
  have dok: "d \<noteq> 0" "dir_ok (dirs fs d)"
    using ramfs_okD(4) [OF ok dp(3)] dp(1,2,4) by (simp_all add: inode_ok_def d Let_def)
  define buf where "buf = strncpy name namelen"
  have buf: "cstr buf = cstr name" unfolding buf_def by (rule cstr_strncpy [OF name(2)])
  have len: "length (cstr buf) \<le> UINT_MAX" unfolding buf using name(1) by (simp add: UINT_MAX_def)
  obtain dir1 h1 where e: "ramfs_directory_new_entry (kh fs) (dirs fs d) buf (i_no (idatas fs q)) = Some (0, dir1, h1)"
      "dir_ok dir1" "dir_map dir1 = (dir_map (dirs fs d))(cstr name \<mapsto> i_no (idatas fs q))"
    using dir_new_entry_room [OF ramfs_okD(1) [OF ok] dok(2), of buf 100 "i_no (idatas fs q)"] name(1,3) room by (auto simp: buf)
  define fs1 where "fs1 = fs\<lparr>kh := h1, dirs := (dirs fs)(d := dir1)\<rparr>"
  have ne: "new_entry fs d buf q = Some (0, fs1)" using e(1) by (simp add: new_entry_def fs1_def)
  then have "ramfs_ok F L fs1" using new_entry_ok [OF ok dok(2) len, of q] by auto
  then have "ramfs_ok F L (linked fs h1 d dir1 q)" unfolding linked_def fs1_def by (rule upd_idata_ok) simp_all
  moreover have "ramfs_link_inode fs ino dirino name namelen = Some (0, linked fs h1 d dir1 q)"
    using dp q dok(1) ne by (simp add: ramfs_link_inode_def linked_def fs1_def Let_def flip: d buf_def)
  ultimately show ?thesis using e(2,3) by blast
qed

section \<open>Names in the root directory\<close>

lemma root_path:
  assumes "theRootMnt v = Some mnt" "sb_children mnt = []"
  shows "vfs_mountnode_by_path v (FS_SEP # name) = (0, Some (mnt, name))"
  using assms by (simp add: vfs_mountnode_by_path_def chr0_def mount_walk.simps vfs_match_mountpath_def)

lemma strnrchr_none: "c \<notin> set s \<Longrightarrow> strnrchr_loop s n c None = None"
  by (induction s n c "None :: string option" rule: strnrchr_loop.induct) auto

lemma dirname_len_plain: "FS_SEP \<notin> set name \<Longrightarrow> vfs_path_dirname_len bef name n = 0"
  by (simp add: vfs_path_dirname_len_def strnrchr_def strnrchr_none)

lemma lookup_root_name:
  assumes ok: "ramfs_ok F L fs" and c: "component name" "length name \<le> n"
    and root: "d = i_data (idatas fs (ramfs_idata_by_inode fs (sb_root_ino fs)))" "hash_unique (dirs fs d) name"
  shows "ramfs_lookup_inode fs name n = (case dir_map (dirs fs d) name of None \<Rightarrow> (errno_code ENOENT, 0) | Some i \<Rightarrow> (0, i))"
proof -
  note r = ramfs_okD(5-7) [OF ok]
  have "dir_ok (dirs fs d)" using ramfs_okD(4) [OF ok r(1,2)] r(3) by (simp add: inode_ok_def root(1) Let_def)
  then have "walk_ok fs d [name]" using root(2) by (simp add: Let_def split: option.split)
  then have "lookup_in fs d (spell name [] @ []) n = resolve fs d (name # map snd [])"
    using c lookup_in_resolve [of name "[]" fs d "[]" n] by simp
  moreover have "chr0 name \<noteq> NUL" "n \<noteq> 0" using c by (cases name; auto simp: component_def chr0_def)+
  ultimately show ?thesis using r by (simp add: ramfs_lookup_inode_def Let_def flip: root(1) split: option.split)
qed

section \<open>Making a node\<close>

text \<open>The mode \<^verbatim>\<open>vfs_mknod\<close> gives a node.\<close>

definition node_mode :: "u32 \<Rightarrow> u32" where
  "node_mode mode = (if S_FMT mode = 0 then mode OR S_IFREG else mode)"

lemma node_mode_not_dir: "\<not> S_ISDIR mode \<Longrightarrow> \<not> S_ISDIR (node_mode mode)"
proof -
  have "(mode OR S_IFREG) AND 0xf000 = (mode AND 0xf000) OR S_IFREG"
    by (simp add: bit.conj_disj_distrib2 S_IFREG_def)
  then show "\<not> S_ISDIR mode \<Longrightarrow> \<not> S_ISDIR (node_mode mode)"
    by (auto simp: node_mode_def S_ISDIR_def S_FMT_def S_IFREG_def S_IFDIR_def)
qed

lemma node_mode_dev: "S_ISCHR (node_mode mode) = S_ISCHR mode" "S_ISBLK (node_mode mode) = S_ISBLK mode"
proof -
  have "(mode OR S_IFREG) AND 0xf000 = (mode AND 0xf000) OR S_IFREG"
    by (simp add: bit.conj_disj_distrib2 S_IFREG_def)
  then show "S_ISCHR (node_mode mode) = S_ISCHR mode" "S_ISBLK (node_mode mode) = S_ISBLK mode"
    by (auto simp: node_mode_def S_ISCHR_def S_ISBLK_def S_FMT_def S_IFREG_def S_IFCHR_def S_IFBLK_def)
qed

text \<open>What a new node is after it was linked once.\<close>

definition new_inode :: "u32 \<Rightarrow> u32 \<Rightarrow> u32 \<Rightarrow> inode" where
  "new_inode ino mode info = (set_dev mode info (zero_inode\<lparr>i_no := ino, i_mode := mode\<rparr>))\<lparr>i_nlinks := 1\<rparr>"

lemma new_inode_fields:
  "i_mode (new_inode ino mode info) = mode" "i_nlinks (new_inode ino mode info) = 1" "i_size (new_inode ino mode info) = 0"
  "S_ISCHR mode \<or> S_ISBLK mode \<Longrightarrow> inode_devno (new_inode ino mode info) = ucast info"
  by (simp_all add: new_inode_def zero_inode_def inode_devno_def) (auto simp: set_dev_def makedev_parts)

definition node_info :: "u32 \<Rightarrow> u64 \<Rightarrow> u32" where
  "node_info mode dev = (if S_ISCHR mode \<or> S_ISBLK mode then ucast dev else 0)"

lemma make_node_room:
  assumes ok: "ramfs_ok F L fs" and free: "\<not> bt_full L (inodes_btree fs)" and mode: "\<not> S_ISDIR mode" and room: "room (kh fs) (n + 115)" "33 \<le> n"
  shows "\<exists>p ino fs1. ramfs_make_node fs mode info = Some (0, ino, upd_idata (set_dev mode info) p fs1) \<and>
    fresh_inode F L fs mode p ino fs1 \<and> ramfs_ok F L (upd_idata (set_dev mode info) p fs1) \<and> room (kh fs1) n"
proof -
  obtain p m h where p: "kmalloc (kh fs) 88 = Some (p, h)" "p \<noteq> 0" "ff_inv h" "\<And>k. (p, k) \<notin> ff_blocks (kh fs)"
      "ff_blocks h = insert (p, m) (ff_blocks (kh fs))" "room h n"
    using kmalloc_room [OF ramfs_okD(1) [OF ok] room(1), of n 88] room(2) by auto
  obtain ino fs1 where f: "ramfs_inode_new fs mode = Some (0, p, fs1)" "fresh_inode F L fs mode p ino fs1" "kh fs1 = h"
    using inode_new_at [OF ramfs_okD(2,3) [OF ok] free p(1-5), of mode] by auto
  have "i_no (idatas fs1 p) = ino" using f(2) by (simp add: fresh_inode_def)
  then have "ramfs_make_node fs mode info = Some (0, ino, upd_idata (set_dev mode info) p fs1)"
    using f(1) by (auto simp: ramfs_make_node_def set_dev_def Let_def upd_idata_def)
  moreover have "ramfs_ok F L (upd_idata (set_dev mode info) p fs1)"
    by (rule upd_idata_ok [OF fresh_inode_ok [OF ok f(2) mode]]) simp_all
  ultimately show ?thesis using f(2,3) p(6) by auto
qed

text \<open>The state after a node was made and linked under a name of the root directory.\<close>

definition node_made :: "nat \<Rightarrow> nat \<Rightarrow> ramfs \<Rightarrow> string \<Rightarrow> u32 \<Rightarrow> u32 \<Rightarrow> u32 \<Rightarrow> u32 \<Rightarrow> ramfs \<Rightarrow> bool" where
  "node_made F L fs name mode info p ino fs' \<longleftrightarrow>
     ramfs_ok F L fs' \<and> sb_root_ino fs' = sb_root_ino fs \<and> p \<noteq> 0 \<and> ino \<noteq> 0 \<and> ramfs_idata_by_inode fs ino = 0 \<and>
     (\<forall>i. ramfs_idata_by_inode fs' i = (if i = ino then p else ramfs_idata_by_inode fs i)) \<and>
     idatas fs' = (idatas fs)(p := new_inode ino mode info) \<and> mem fs' = mem fs \<and> pm fs' = pm fs \<and>
     (\<forall>m. (p, m) \<notin> ff_blocks (kh fs)) \<and>
     (let d = i_data (idatas fs (ramfs_idata_by_inode fs (sb_root_ino fs))) in
      dir_ok (dirs fs' d) \<and> dir_map (dirs fs' d) = (dir_map (dirs fs d))(name \<mapsto> ino) \<and> (\<forall>e. e \<noteq> d \<longrightarrow> dirs fs' e = dirs fs e))"

lemma make_and_link:
  assumes ok: "ramfs_ok F L fs" and free: "\<not> bt_full L (inodes_btree fs)" and mode: "\<not> S_ISDIR mode" and room: "room (kh fs) 700"
    and name: "component name" "length name \<le> 255" "length name \<le> namelen"
    and d: "d = i_data (idatas fs (ramfs_idata_by_inode fs (sb_root_ino fs)))" "dir_map (dirs fs d) name = None"
  shows "\<exists>p ino fs1 fs'. ramfs_make_node fs mode info = Some (0, ino, fs1) \<and>
    ramfs_link_inode fs1 ino (sb_root_ino fs) name namelen = Some (0, fs') \<and> node_made F L fs name mode info p ino fs'"
proof -
  note r = ramfs_okD(5-7) [OF ok]
  define rp where "rp = ramfs_idata_by_inode fs (sb_root_ino fs)"
  obtain p ino fs0 where n: "ramfs_make_node fs mode info = Some (0, ino, upd_idata (set_dev mode info) p fs0)"
      "fresh_inode F L fs mode p ino fs0" "ramfs_ok F L (upd_idata (set_dev mode info) p fs0)" "room (kh fs0) 500"
    using make_node_room [OF ok free mode room_mono [OF room], of 500 info] by auto
  define fs1 where "fs1 = upd_idata (set_dev mode info) p fs0"
  have fr: "p \<noteq> 0" "ino \<noteq> 0" "ramfs_idata_by_inode fs ino = 0" "\<And>m. (p, m) \<notin> ff_blocks (kh fs)"
      "\<And>i. ramfs_idata_by_inode fs1 i = (if i = ino then p else ramfs_idata_by_inode fs i)"
      "dirs fs1 = dirs fs" "sb_root_ino fs1 = sb_root_ino fs" "mem fs1 = mem fs" "pm fs1 = pm fs" "kh fs1 = kh fs0"
      "idatas fs1 = (idatas fs)(p := set_dev mode info (zero_inode\<lparr>i_no := ino, i_mode := mode\<rparr>))"
    using n(2) by (simp_all add: fresh_inode_def fs1_def upd_idata_def ramfs_idata_by_inode_def)
  have "inode_ok fs (sb_root_ino fs) rp" using ramfs_okD(4) [OF ok r(1,2)] by (simp add: rp_def)
  then have rp: "rp \<noteq> p" using fr(4) by (auto simp: inode_ok_def)
  have ri: "sb_root_ino fs \<noteq> ino" using r(2) fr(3) by auto
  have cn: "cstr name = name" using name(1) by (simp add: component_def cstr_id)
  have same: "idatas fs1 rp = idatas fs rp" using rp fr(11) by simp
  obtain h dir' where l: "ramfs_link_inode fs1 ino (sb_root_ino fs) name namelen = Some (0, linked fs1 h d dir' p)"
      "ramfs_ok F L (linked fs1 h d dir' p)" "dir_ok dir'" "dir_map dir' = (dir_map (dirs fs d))(name \<mapsto> ino)"
    using link_room [of F L fs1 "sb_root_ino fs" rp ino p d name namelen] n(3,4) r name(2,3) d(2) ri same fr(1,5,6,10,11)
    unfolding fs1_def [symmetric] by (auto simp: cn d(1) rp_def)
  have i: "ramfs_idata_by_inode (linked fs1 h d dir' p) = ramfs_idata_by_inode fs1"
    by (simp add: linked_def upd_idata_def ramfs_idata_by_inode_def fun_eq_iff)
  have "node_made F L fs name mode info p ino (linked fs1 h d dir' p)"
    using l(2-4) fr unfolding node_made_def i
    by (simp add: d(1) [symmetric] Let_def linked_def upd_idata_def new_inode_def zero_inode_def set_dev_def)
  then show ?thesis using n(1) l(1) unfolding fs1_def by blast
qed

text \<open>The root directory of a file system.\<close>

definition root_dir :: "ramfs \<Rightarrow> ramfs_directory" where
  "root_dir fs = dirs fs (i_data (idatas fs (ramfs_idata_by_inode fs (sb_root_ino fs))))"

lemma ramfs_ops [simp]:
  "make_inode (fs_oper ramfs_driver) = Some ramfs_make_node" "link_inode (fs_oper ramfs_driver) = Some ramfs_link_inode"
  "lookup_inode (fs_oper ramfs_driver) = Some ramfs_lookup_inode" "inode_get (fs_oper ramfs_driver) = Some ramfs_inode_get"
  "read_inode (fs_oper ramfs_driver) = Some ramfs_read_inode" "write_inode (fs_oper ramfs_driver) = Some ramfs_write_inode"
  by (simp_all add: ramfs_driver_def ramfs_fsops_def)

lemma root_dir_made:
  assumes ok: "ramfs_ok F L fs" and m: "node_made F L fs name mode info p ino fs'"
  shows "dir_map (root_dir fs') = (dir_map (root_dir fs))(name \<mapsto> ino)" "dir_ok (root_dir fs')"
    "i \<noteq> 0 \<Longrightarrow> i \<noteq> ino \<Longrightarrow> ramfs_inode_get fs' i = ramfs_inode_get fs i"
    "ramfs_inode_get fs' ino = (0, Some (new_inode ino mode info))"
proof -
  have f: "p \<noteq> 0" "ino \<noteq> 0" "ramfs_idata_by_inode fs ino = 0" "\<And>i. ramfs_idata_by_inode fs' i = (if i = ino then p else ramfs_idata_by_inode fs i)"
      "idatas fs' = (idatas fs)(p := new_inode ino mode info)" "\<And>m. (p, m) \<notin> ff_blocks (kh fs)" "sb_root_ino fs' = sb_root_ino fs"
    using m by (simp_all add: node_made_def)
  have old: "ramfs_idata_by_inode fs i \<noteq> p" if "i \<noteq> 0" for i
    using ramfs_okD(4) [OF ok that] f(1,6) by (cases "ramfs_idata_by_inode fs i = 0") (auto simp: inode_ok_def)
  note r = ramfs_okD(5-7) [OF ok]
  have "sb_root_ino fs \<noteq> ino" using r(2) f(3) by auto
  then have root: "root_dir fs' = dirs fs' (i_data (idatas fs (ramfs_idata_by_inode fs (sb_root_ino fs))))"
    using old [OF r(1)] f(4,5,7) by (simp add: root_dir_def)
  show "dir_map (root_dir fs') = (dir_map (root_dir fs))(name \<mapsto> ino)" "dir_ok (root_dir fs')"
    using m unfolding root by (simp_all add: node_made_def root_dir_def Let_def)
  show "i \<noteq> 0 \<Longrightarrow> i \<noteq> ino \<Longrightarrow> ramfs_inode_get fs' i = ramfs_inode_get fs i"
    using old f(4,5) by (simp add: ramfs_inode_get_def Let_def)
  show "ramfs_inode_get fs' ino = (0, Some (new_inode ino mode info))"
    using f(1,4,5) by (simp add: ramfs_inode_get_def)
qed

lemma dropWhile_component: "component name \<Longrightarrow> dropWhile (\<lambda>c. c = FS_SEP) name = name"
  by (cases name) (auto simp: component_def)

lemma mknod_room:
  assumes root: "theRootMnt v = Some mnt" "sb_fs mnt = ramfs_driver" "sb_children mnt = []"
    and ok: "ramfs_ok F L (fsys v)" "\<not> bt_full L (inodes_btree (fsys v))" "room (kh (fsys v)) 700"
    and name: "component name" "length name \<le> 254" "dir_map (root_dir (fsys v)) name = None"
    and mode: "\<not> S_ISDIR mode" "\<not> S_ISLNK mode"
  shows "\<exists>p ino fs'. vfs_mknod v (FS_SEP # name) mode dev = Some (0, v\<lparr>fsys := fs'\<rparr>) \<and>
    node_made F L (fsys v) name (node_mode mode) (node_info (node_mode mode) dev) p ino fs'"
proof -
  let ?fs = "fsys v" and ?m = "node_mode mode"
  have sep: "FS_SEP \<notin> set name" "length name \<le> SIZE_MAX" "length name \<le> 255" using name(1,2) by (simp_all add: component_def SIZE_MAX_def)
  obtain p ino fs1 fs' where ml: "ramfs_make_node ?fs ?m (node_info ?m dev) = Some (0, ino, fs1)"
      "ramfs_link_inode fs1 ino (sb_root_ino ?fs) name SIZE_MAX = Some (0, fs')"
      "node_made F L ?fs name ?m (node_info ?m dev) p ino fs'"
    using make_and_link [OF ok(1,2) node_mode_not_dir [OF mode(1)] ok(3) name(1) sep(3,2) refl] name(3) unfolding root_dir_def by blast
  have "mknod_in v mnt (sb_root_ino ?fs) ?m dev (at_offset (before (FS_SEP # name) name) name 0) = Some (0, v\<lparr>fsys := fs'\<rparr>)"
    using ml(1,2) root(2) by (simp add: mknod_in_def node_info_def at_offset_def dropWhile_component [OF name(1)])
  then have "vfs_mknod v (FS_SEP # name) mode dev = Some (0, v\<lparr>fsys := fs'\<rparr>)"
    using root mode ramfs_okD(6,7) [OF ok(1)] unfolding vfs_mknod_def root_path [OF root(1,3)]
    by (simp add: dirname_len_plain [OF sep(1)] ramfs_lookup_inode_def vfs_inode_get_def ramfs_inode_get_def Let_def flip: node_mode_def)
  then show ?thesis using ml(3) by blast
qed

lemma lookup_root:
  assumes root: "theRootMnt v = Some mnt" "sb_fs mnt = ramfs_driver" "sb_children mnt = []"
    and ok: "ramfs_ok F L (fsys v)" and name: "component name" "length name \<le> 254" "hash_unique (root_dir (fsys v)) name"
  shows "vfs_lookup v (FS_SEP # name) =
    (case dir_map (root_dir (fsys v)) name of None \<Rightarrow> (errno_code ENOENT, Some mnt, 0) | Some i \<Rightarrow> (0, Some mnt, i))"
proof -
  have "length name \<le> SIZE_MAX" using name(2) by (simp add: SIZE_MAX_def)
  from lookup_root_name [OF ok name(1) this refl name(3) [unfolded root_dir_def]] show ?thesis
    using root(2) unfolding vfs_lookup_def root_path [OF root(1,3)] by (simp add: root_dir_def split: option.split)
qed

section \<open>Properties\<close>

text \<open>C9. Making a node and looking it up: under a new name of the root directory, \<^verbatim>\<open>vfs_mknod\<close> succeeds, the path then
  leads to the new node, \<^verbatim>\<open>vfs_stat\<close> shows the mode asked for (a regular file when no type was), one link, no contents
  and, for a device, the low half of the device number; every other inode is as before and the file system stays well
  formed.\<close>

theorem vfs_mknod_then_lookup:
  assumes "theRootMnt v = Some mnt" "sb_fs mnt = ramfs_driver" "sb_children mnt = []"
    and "ramfs_ok F L (fsys v)" "\<not> bt_full L (inodes_btree (fsys v))" "room (kh (fsys v)) 700"
    and "component name" "length name \<le> 254" "dir_map (root_dir (fsys v)) name = None" "hash_unique (root_dir (fsys v)) name"
    and "\<not> S_ISDIR mode" "\<not> S_ISLNK mode"
  shows "\<exists>ino v'. vfs_mknod v (FS_SEP # name) mode dev = Some (0, v') \<and> ramfs_ok F L (fsys v') \<and>
    vfs_lookup v' (FS_SEP # name) = (0, Some mnt, ino) \<and>
    vfs_stat v' (FS_SEP # name) =
      (0, Some \<lparr>st_dev = sb_dev mnt, st_ino = ino, st_mode = (if S_FMT mode = 0 then mode OR S_IFREG else mode), st_nlink = 1,
                st_rdev = (if S_ISCHR mode \<or> S_ISBLK mode then ucast (ucast dev :: u32) else 0), st_size = 0\<rparr>) \<and>
    (\<forall>i. i \<noteq> 0 \<longrightarrow> i \<noteq> ino \<longrightarrow> vfs_inode_get v' mnt i = vfs_inode_get v mnt i)"
proof -
  note root = assms(1-3) and ok = assms(4)
  obtain p ino fs' where m: "vfs_mknod v (FS_SEP # name) mode dev = Some (0, v\<lparr>fsys := fs'\<rparr>)"
      "node_made F L (fsys v) name (node_mode mode) (node_info (node_mode mode) dev) p ino fs'"
    using mknod_room [OF assms(1-9,11,12)] by blast
  define v' where "v' = v\<lparr>fsys := fs'\<rparr>"
  have root': "theRootMnt v' = Some mnt" "fsys v' = fs'" using root(1) by (simp_all add: v'_def)
  have ok': "ramfs_ok F L fs'" using m(2) by (simp add: node_made_def)
  note dm = root_dir_made [OF ok m(2)]
  note rootok = ramfs_okD(4) [OF ok ramfs_okD(5,6) [OF ok]]
  have "dir_ok (root_dir (fsys v))" using rootok ramfs_okD(7) [OF ok] by (simp add: inode_ok_def root_dir_def Let_def)
  then have "hash_unique (root_dir fs') name" using assms(10) dm(1,2) by (auto simp: hash_unique_dom)
  then have l: "vfs_lookup v' (FS_SEP # name) = (0, Some mnt, ino)"
    using lookup_root [OF root'(1) root(2,3), of F L name] ok' assms(7,8) dm(1) by (simp add: root'(2))
  have "vfs_stat v' (FS_SEP # name) =
      (0, Some \<lparr>st_dev = sb_dev mnt, st_ino = ino, st_mode = node_mode mode, st_nlink = 1,
                st_rdev = (if S_ISCHR mode \<or> S_ISBLK mode then ucast (ucast dev :: u32) else 0), st_size = 0\<rparr>)"
    using root(2) dm(4) l
    by (simp add: vfs_stat_def vfs_inode_stat_def vfs_inode_get_def root'(2) new_inode_fields node_mode_dev node_info_def)
  moreover have "\<forall>i. i \<noteq> 0 \<longrightarrow> i \<noteq> ino \<longrightarrow> vfs_inode_get v' mnt i = vfs_inode_get v mnt i"
    using dm(3) root(2) by (simp add: vfs_inode_get_def root'(2))
  ultimately show ?thesis using m(1) ok' l unfolding v'_def [symmetric] node_mode_def by (auto simp: root'(2))
qed

text \<open>A RAM file system of 4096 bytes of heap, mounted.\<close>

lemma ex_mounted: "\<exists>fs. mounted fs \<and> room (kh fs) 2000 \<and> pm fs = pm ex_unmounted"
  using mount_room [of ex_unmounted 2000] big_heap_inv(1) room_mono [OF big_heap_room, of "2000 + 1600"]
  by (auto simp: ex_unmounted_def)

lemma hash_plain: "strhash ''tty'' \<noteq> strhash ''..''" "strhash ''tty'' \<noteq> strhash ''.''"
  by (simp_all add: strhash_def hash_step_def schar_def)

definition ex_vfs :: "ramfs \<Rightarrow> unit vfs" where
  "ex_vfs fs = \<lparr>theFileSystems = [ramfs_driver], theRootMnt = Some (Mount 0x40 0 ramfs_driver [] []), fsys = fs,
     devtab = no_devices, devstate = (), stack_idata = zero_inode\<rparr>"

theorem vfs_mknod_then_lookup_witness:
  "\<exists>fs v' ino. mounted fs \<and> vfs_mknod (ex_vfs fs) ''/tty'' (S_IFCHR OR 0x1a4) 0x401 = Some (0, v') \<and>
     vfs_lookup v' ''/tty'' = (0, Some (Mount 0x40 0 ramfs_driver [] []), ino)"
proof -
  obtain fs where fs: "mounted fs" "room (kh fs) 2000" using ex_mounted by blast
  let ?v = "ex_vfs fs" and ?m = "Mount 0x40 0 ramfs_driver [] []"
  have ok: "ramfs_ok 64 0 fs" "\<not> bt_full 0 (inodes_btree fs)"
      "dir_map (root_dir fs) = [''..'' \<mapsto> sb_root_ino fs, ''.'' \<mapsto> sb_root_ino fs]"
    using fs(1) by (simp_all add: mounted_def root_dir_def Let_def)
  have "dir_ok (root_dir fs)"
    using ramfs_okD(4) [OF ok(1) ramfs_okD(5,6) [OF ok(1)]] ramfs_okD(7) [OF ok(1)] by (simp add: inode_ok_def root_dir_def Let_def)
  then have u: "hash_unique (root_dir fs) ''tty''" using ok(3) hash_plain by (auto simp: hash_unique_dom)
  have m: "\<not> S_ISDIR (S_IFCHR OR 0x1a4)" "\<not> S_ISLNK (S_IFCHR OR 0x1a4)"
    by (simp_all add: S_ISDIR_def S_ISLNK_def S_FMT_def S_IFCHR_def S_IFDIR_def S_IFLNK_def)
  have c: "component ''tty''" "length ''tty'' \<le> 254" by (simp_all add: component_def FS_SEP_def NUL_def)
  have v: "theRootMnt ?v = Some ?m" "fsys ?v = fs" by (simp_all add: ex_vfs_def)
  obtain ino v' where r: "vfs_mknod ?v (FS_SEP # ''tty'') (S_IFCHR OR 0x1a4) 0x401 = Some (0, v')"
      "vfs_lookup v' (FS_SEP # ''tty'') = (0, Some ?m, ino)"
    using vfs_mknod_then_lookup [of ?v ?m 64 0 "''tty''" "S_IFCHR OR 0x1a4" "0x401"] v ok(1,2) room_mono [OF fs(2), of 700] c u m ok(3)
    by auto
  have p: "FS_SEP # ''tty'' = ''/tty''" by (simp add: FS_SEP_def)
  show ?thesis using fs(1) r unfolding p by blast
qed

end
