(* ===== verification/Ramfs_Data.thy ===== *)
theory Ramfs_Data
  imports Ramfs
begin

text \<open>
  Reading and writing file data in the direct blocks of an inode: what was written is read back, and other
  stored bytes stay as they are.
\<close>

section \<open>Frames in the kernel's address space\<close>

definition frame_addr :: "nat \<Rightarrow> u32" where
  "frame_addr e = va (of_nat (4096 * e))"

text \<open>The blocks of an inode are distinct allocated frames that the kernel can address.\<close>

definition blk_ok :: "ramfs \<Rightarrow> u32 \<Rightarrow> bool" where
  "blk_ok fs p \<longleftrightarrow>
     (let bs = directblock (idatas fs p); edge = unat (theEdgeOfAllocatedMemory (pm fs)) in
      length bs = 12 \<and> pmem_inv (pm fs) \<and> edge \<le> 0x40000 \<and>
      (\<forall>k<12. bs ! k \<noteq> 0 \<longrightarrow> (\<exists>e. bs ! k = frame_addr e \<and> e < edge)) \<and>
      (\<forall>j<12. \<forall>k<12. j \<noteq> k \<longrightarrow> bs ! j \<noteq> 0 \<longrightarrow> bs ! j \<noteq> bs ! k))"

definition has_room :: "ramfs \<Rightarrow> nat \<Rightarrow> bool" where
  "has_room fs n \<longleftrightarrow>
     unat (theEdgeOfAllocatedMemory (pm fs)) + n \<le> unat (theEndOfUpperMemory (pm fs)) \<and>
     unat (theEdgeOfAllocatedMemory (pm fs)) + n \<le> 0x40000"

lemma frame_addr_unat:
  assumes "e < 0x40000" "n < 4096"
  shows "unat (frame_addr e + of_nat n) = 0xC0000000 + 4096 * e + n"
proof -
  have "frame_addr e + of_nat n = of_nat (0xC0000000 + 4096 * e + n)"
    by (simp add: frame_addr_def va_def KERN_OFF_def)
  moreover have "0xC0000000 + 4096 * e + n < 2 ^ 32" using assms by simp
  ultimately show ?thesis by (simp only: unat_of_nat_u32)
qed

lemma unat_frame_addr: "e < 0x40000 \<Longrightarrow> unat (frame_addr e) = 0xC0000000 + 4096 * e"
  using frame_addr_unat [of e 0] by (simp only: of_nat_0 add_0_right) simp

lemma frame_addr_nonzero: "e < 0x40000 \<Longrightarrow> frame_addr e \<noteq> 0"
proof -
  assume "e < 0x40000"
  then have "0 < unat (frame_addr e)" by (simp only: unat_frame_addr)
  then show ?thesis by auto
qed

lemma frame_addr_inj: "e < 0x40000 \<Longrightarrow> e' < 0x40000 \<Longrightarrow> frame_addr e = frame_addr e' \<Longrightarrow> e = e'"
proof -
  assume e: "e < 0x40000" "e' < 0x40000" and eq: "frame_addr e = frame_addr e'"
  show "e = e'" using unat_frame_addr [OF e(1)] unat_frame_addr [OF e(2)] unfolding eq by linarith
qed

lemma unat_diff_u32: "unat (a - b :: u32) = (if unat b \<le> unat a then unat a - unat b else 2 ^ 32 + unat a - unat b)"
proof -
  have "size a = 32" by (simp add: word_size)
  then show ?thesis
    using unat_sub_if_size [of a b] u32_bound [of b] by (cases "unat b \<le> unat a") (simp_all add: word_le_nat_alt)
qed

text \<open>A write inside one frame changes exactly the bytes it covers.\<close>

lemma mem_write_frame:
  assumes "e < 0x40000" "e' < 0x40000" "off + length bs \<le> 4096" "o' < 4096"
  shows "mem_write m (frame_addr e + of_nat off) bs (frame_addr e' + of_nat o') =
    (if e' = e \<and> off \<le> o' \<and> o' < off + length bs then bs ! (o' - off) else m (frame_addr e' + of_nat o'))"
proof (cases "bs = []")
  case False
  then have off: "off < 4096" using assms(3) by (cases bs) auto
  let ?a = "frame_addr e + of_nat off" and ?b = "frame_addr e' + of_nat o'"
  have a: "unat ?a = 0xC0000000 + 4096 * e + off" and b: "unat ?b = 0xC0000000 + 4096 * e' + o'"
    using frame_addr_unat assms off by simp_all
  have d: "unat (?b - ?a) = (if unat ?a \<le> unat ?b then unat ?b - unat ?a else 2 ^ 32 + unat ?b - unat ?a)"
    by (rule unat_diff_u32)
  consider "e' = e" "off \<le> o'" | "e' = e" "o' < off" | "e < e'" | "e' < e" by linarith
  then show ?thesis
  proof cases
    case 1
    then have "unat (?b - ?a) = o' - off" using d a b by simp
    then show ?thesis using 1 by (simp add: mem_write_def) linarith
  next
    case 2
    then have "\<not> unat (?b - ?a) < length bs" using d a b assms(3) by simp
    then show ?thesis using 2 by (simp add: mem_write_def)
  next
    case 3
    then have "4096 * e + 4096 \<le> 4096 * e'" by simp
    then have "\<not> unat (?b - ?a) < length bs" using d a b assms(3) by simp
    then show ?thesis using 3 by (simp add: mem_write_def)
  next
    case 4
    then have "4096 * e' + 4096 \<le> 4096 * e" by simp
    then have "unat ?b < unat ?a" using a b assms(4) by simp
    then have "unat (?b - ?a) = 2 ^ 32 + unat ?b - unat ?a" using d by simp
    then have "\<not> unat (?b - ?a) < length bs" using a b assms(1,3) off by simp
    then show ?thesis using 4 by (simp add: mem_write_def)
  qed
qed (auto simp: mem_write_def)

section \<open>The stored bytes of a file\<close>

definition file_at :: "ramfs \<Rightarrow> u32 \<Rightarrow> nat \<Rightarrow> u8 option" where
  "file_at fs p i =
     (let b = directblock (idatas fs p) ! (i div 4096) in
      if b = 0 then None else Some (mem fs (b + of_nat (i mod 4096))))"

text \<open>From \<open>fs\<close> to \<open>fs'\<close>, the bytes \<open>bs\<close> were stored at \<open>pos\<close> and nothing else that was stored changed.\<close>

definition wrote :: "u32 \<Rightarrow> ramfs \<Rightarrow> nat \<Rightarrow> u8 list \<Rightarrow> ramfs \<Rightarrow> bool" where
  "wrote p fs pos bs fs' \<longleftrightarrow>
     blk_ok fs' p \<and> inodes_btree fs' = inodes_btree fs \<and> i_size (idatas fs' p) = i_size (idatas fs p) \<and>
     (\<forall>i < length bs. file_at fs' p (pos + i) = Some (bs ! i)) \<and>
     (\<forall>k < 49152. k < pos \<or> pos + length bs \<le> k \<longrightarrow> file_at fs p k \<noteq> None \<longrightarrow> file_at fs' p k = file_at fs p k)"

lemma wroteD:
  assumes "wrote p fs pos bs fs'"
  shows "blk_ok fs' p" "inodes_btree fs' = inodes_btree fs" "i_size (idatas fs' p) = i_size (idatas fs p)"
    "i < length bs \<Longrightarrow> file_at fs' p (pos + i) = Some (bs ! i)"
    "k < 49152 \<Longrightarrow> k < pos \<or> pos + length bs \<le> k \<Longrightarrow> file_at fs p k \<noteq> None \<Longrightarrow> file_at fs' p k = file_at fs p k"
  using assms unfolding wrote_def by blast+

lemma wrote_trans:
  assumes "wrote p fs pos xs fs1" "wrote p fs1 (pos + length xs) ys fs2" "pos + length xs + length ys \<le> 49152"
  shows "wrote p fs pos (xs @ ys) fs2"
proof -
  have "file_at fs2 p (pos + i) = Some ((xs @ ys) ! i)" if "i < length (xs @ ys)" for i
  proof (cases "i < length xs")
    case True
    then have x: "file_at fs1 p (pos + i) = Some (xs ! i)" by (rule wroteD(4) [OF assms(1)])
    then have "file_at fs2 p (pos + i) = file_at fs1 p (pos + i)"
      using True assms(3) by (intro wroteD(5) [OF assms(2)]) auto
    then show ?thesis using True x by (simp add: nth_append)
  next
    case False
    then have "i - length xs < length ys" using that by simp
    from wroteD(4) [OF assms(2) this] show ?thesis using False by (simp add: nth_append)
  qed
  moreover have "file_at fs2 p k = file_at fs p k"
    if "k < 49152" "k < pos \<or> pos + length (xs @ ys) \<le> k" "file_at fs p k \<noteq> None" for k
  proof -
    have k: "file_at fs1 p k = file_at fs p k" using that by (intro wroteD(5) [OF assms(1)]) auto
    moreover have "file_at fs2 p k = file_at fs1 p k" using that k by (intro wroteD(5) [OF assms(2)]) auto
    ultimately show ?thesis by simp
  qed
  ultimately show ?thesis using wroteD(1-3) [OF assms(1)] wroteD(1-3) [OF assms(2)] by (simp add: wrote_def)
qed

lemma kmem_alloc_frame:
  assumes "pmem_inv (pm fs)" "has_room fs (Suc n)" "kmem_alloc (pm fs) 1 = (b, pm')"
  shows "b = frame_addr (unat (theEdgeOfAllocatedMemory (pm fs)))" "pmem_inv pm'"
    "unat (theEdgeOfAllocatedMemory pm') = unat (theEdgeOfAllocatedMemory (pm fs)) + 1"
    "theEndOfUpperMemory pm' = theEndOfUpperMemory (pm fs)"
proof -
  obtain q where q: "pmem_alloc (pm fs) 1 = (q, pm')" "b = va q"
    using assms(3) by (auto simp: kmem_alloc_def split: prod.splits)
  have room: "\<not> unat (theEndOfUpperMemory (pm fs)) < unat (theEdgeOfAllocatedMemory (pm fs)) + unat (1 :: u32)"
    using assms(2) by (simp add: has_room_def)
  define E where "E = unat (theEdgeOfAllocatedMemory (pm fs))"
  have one: "(0 :: u32) < 1" "unat (1 :: u32) < 2 ^ 31" by simp_all
  have "unat q = 4096 * E \<and> pmem_inv pm' \<and> unat (theEdgeOfAllocatedMemory pm') = E + 1 \<and>
      theEndOfUpperMemory pm' = theEndOfUpperMemory (pm fs)"
    using assms(1) one q(1)
  proof (cases rule: pmem_alloc_cases)
    case full
    then show ?thesis using room by simp
  next
    case some
    then show ?thesis by (simp add: E_def)
  qed
  then show "pmem_inv pm'" "unat (theEdgeOfAllocatedMemory pm') = unat (theEdgeOfAllocatedMemory (pm fs)) + 1"
    "theEndOfUpperMemory pm' = theEndOfUpperMemory (pm fs)" and "b = frame_addr (unat (theEdgeOfAllocatedMemory (pm fs)))"
  proof -
    assume f: "unat q = 4096 * E \<and> pmem_inv pm' \<and> unat (theEdgeOfAllocatedMemory pm') = E + 1 \<and>
      theEndOfUpperMemory pm' = theEndOfUpperMemory (pm fs)"
    then show "pmem_inv pm'" "unat (theEdgeOfAllocatedMemory pm') = unat (theEdgeOfAllocatedMemory (pm fs)) + 1"
      "theEndOfUpperMemory pm' = theEndOfUpperMemory (pm fs)" by (simp_all add: E_def)
    have "q = of_nat (unat q)" by simp
    then have "q = of_nat (4096 * E)" using f by (simp only:)
    then show "b = frame_addr (unat (theEdgeOfAllocatedMemory (pm fs)))" by (simp add: frame_addr_def q(2) E_def)
  qed
qed

section \<open>Writing\<close>

lemma blk_okD:
  assumes "blk_ok fs p" "k < 12"
  shows "length (directblock (idatas fs p)) = 12" "pmem_inv (pm fs)"
    "unat (theEdgeOfAllocatedMemory (pm fs)) \<le> 0x40000"
    "directblock (idatas fs p) ! k \<noteq> 0 \<Longrightarrow>
       \<exists>e. directblock (idatas fs p) ! k = frame_addr e \<and> e < unat (theEdgeOfAllocatedMemory (pm fs))"
    "j < 12 \<Longrightarrow> j \<noteq> k \<Longrightarrow> directblock (idatas fs p) ! j \<noteq> 0 \<Longrightarrow>
       directblock (idatas fs p) ! j \<noteq> directblock (idatas fs p) ! k"
  using assms by (auto simp: blk_ok_def Let_def)

lemma blk_addr:
  "blk_ok fs p \<Longrightarrow> k < 12 \<Longrightarrow> directblock (idatas fs p) ! k \<noteq> 0 \<Longrightarrow>
     \<exists>e. directblock (idatas fs p) ! k = frame_addr e \<and> e < 0x40000"
  using blk_okD(3,4) order.strict_trans2 by blast

text \<open>Getting the block for an index keeps the stored bytes and gives a frame of the inode.\<close>

definition got_block :: "ramfs \<Rightarrow> u32 \<Rightarrow> nat \<Rightarrow> u32 \<Rightarrow> ramfs \<Rightarrow> bool" where
  "got_block fs p k b fs' \<longleftrightarrow>
     blk_ok fs' p \<and> directblock (idatas fs' p) ! k = b \<and> b \<noteq> 0 \<and> mem fs' = mem fs \<and>
     inodes_btree fs' = inodes_btree fs \<and> i_size (idatas fs' p) = i_size (idatas fs p) \<and>
     (\<forall>j<12. j \<noteq> k \<longrightarrow> directblock (idatas fs' p) ! j = directblock (idatas fs p) ! j) \<and>
     (directblock (idatas fs p) ! k \<noteq> 0 \<longrightarrow> directblock (idatas fs p) ! k = b)"

lemma block_or_new:
  assumes ok: "blk_ok fs p" and room: "has_room fs (Suc n)" and k: "k < 12"
    and r: "ramfs_block_by_index_or_new fs p k = (b, fs')"
  shows "got_block fs p k b fs' \<and> has_room fs' n"
proof (cases "directblock (idatas fs p) ! k = 0")
  case False
  then show ?thesis using r k ok room by (auto simp: ramfs_block_by_index_or_new_def has_room_def got_block_def)
next
  case True
  note d = blk_okD [OF ok]
  let ?bs = "directblock (idatas fs p)" and ?e = "unat (theEdgeOfAllocatedMemory (pm fs))"
  obtain pm' where a: "kmem_alloc (pm fs) 1 = (b, pm')"
    and fs': "fs' = upd_idata (\<lambda>i. i\<lparr>directblock := (directblock i)[k := b], block_count := block_count i + 1\<rparr>) p (fs\<lparr>pm := pm'\<rparr>)"
    using r k True by (auto simp: ramfs_block_by_index_or_new_def ramfs_new_block_def Let_def split: prod.splits)
  note al = kmem_alloc_frame [OF d(2) [OF k] room a]
  have e: "?e < 0x40000" using room by (simp add: has_room_def)
  have b: "b \<noteq> 0" "b = frame_addr ?e" using al(1) frame_addr_nonzero [OF e] by simp_all
  have bs': "directblock (idatas fs' p) = ?bs[k := b]" by (simp add: fs' upd_idata_def)
  have pm': "pm fs' = pm'" by (simp add: fs' upd_idata_def)
  have fresh: "?bs ! j \<noteq> b" if j: "j < 12" for j
  proof
    assume eq: "?bs ! j = b"
    then obtain e' where e': "b = frame_addr e'" "e' < ?e" using d(4) [OF j] b(1) by auto
    then have "e' = ?e" using frame_addr_inj [of e' ?e] b(2) e by auto
    then show False using e'(2) by simp
  qed
  have "\<exists>e. ?bs[k := b] ! j = frame_addr e \<and> e < ?e + 1" if j: "j < 12" "?bs[k := b] ! j \<noteq> 0" for j
  proof (cases "j = k")
    case False
    then obtain e' where "?bs ! j = frame_addr e'" "e' < ?e" using d(4) [OF j(1)] j(2) by auto
    then show ?thesis using False by (intro exI [of _ e']) simp
  next
    case True
    then show ?thesis using b(2) d(1) [OF k] k by (intro exI [of _ ?e]) simp
  qed
  moreover have "?bs[k := b] ! i \<noteq> ?bs[k := b] ! j" if "i < 12" "j < 12" "i \<noteq> j" "?bs[k := b] ! i \<noteq> 0" for i j
    using d(1) [OF k] d(5) [OF that(2,1,3)] fresh [OF that(1)] fresh [OF that(2)] that
    by (cases "i = k"; cases "j = k") auto
  ultimately have "blk_ok fs' p"
    unfolding blk_ok_def Let_def bs' pm' al(3) using d(1) [OF k] al(2) e by auto
  moreover have "has_room fs' n" using room al by (simp add: has_room_def pm')
  moreover have "mem fs' = mem fs" "inodes_btree fs' = inodes_btree fs" "i_size (idatas fs' p) = i_size (idatas fs p)"
    by (simp_all add: fs' upd_idata_def)
  ultimately show ?thesis using True b d(1) [OF k] k by (simp add: got_block_def bs')
qed

lemma div_block:
  fixes i :: nat
  assumes "off + n \<le> 4096"
  shows "4096 * k + off \<le> i \<and> i < 4096 * k + off + n \<longleftrightarrow>
    i div 4096 = k \<and> off \<le> i mod 4096 \<and> i mod 4096 < off + n"
proof
  assume l: "4096 * k + off \<le> i \<and> i < 4096 * k + off + n"
  then have "i div 4096 = k" using assms by (intro div_nat_eqI) auto
  then have "i = 4096 * k + i mod 4096" by auto
  then show "i div 4096 = k \<and> off \<le> i mod 4096 \<and> i mod 4096 < off + n" using l \<open>i div 4096 = k\<close> by linarith
next
  assume "i div 4096 = k \<and> off \<le> i mod 4096 \<and> i mod 4096 < off + n"
  moreover have "i = 4096 * (i div 4096) + i mod 4096" by simp
  ultimately show "4096 * k + off \<le> i \<and> i < 4096 * k + off + n" by auto
qed

lemma file_at_write:
  assumes ok: "blk_ok fs p" and k: "k < 12" and b: "directblock (idatas fs p) ! k = b" "b \<noteq> 0" and len: "off + length bs \<le> 4096"
    and fs': "fs' = fs\<lparr>mem := mem_write (mem fs) (b + of_nat off) bs\<rparr>" and i: "i < 49152"
  shows "file_at fs' p i = (if 4096 * k + off \<le> i \<and> i < 4096 * k + off + length bs
    then Some (bs ! (i - (4096 * k + off))) else file_at fs p i)"
proof -
  obtain e where e: "b = frame_addr e" "e < 0x40000" using blk_addr [OF ok k] b by auto
  have j: "i div 4096 < 12" "i mod 4096 < 4096" using i by (simp_all add: less_mult_imp_div_less)
  have f: "idatas fs' = idatas fs" "mem fs' = mem_write (mem fs) (frame_addr e + of_nat off) bs" by (simp_all add: fs' e)
  show ?thesis
  proof (cases "directblock (idatas fs p) ! (i div 4096) = 0")
    case True
    then have "i div 4096 \<noteq> k" using b by auto
    then show ?thesis using True div_block [OF len, of k i] by (simp add: file_at_def f)
  next
    case False
    then obtain e' where e': "directblock (idatas fs p) ! (i div 4096) = frame_addr e'" "e' < 0x40000"
      using blk_addr [OF ok j(1)] by auto
    have same: "e' = e \<longleftrightarrow> i div 4096 = k"
    proof
      assume "i div 4096 = k"
      then have "frame_addr e' = frame_addr e" using e'(1) e(1) b(1) by simp
      then show "e' = e" by (rule frame_addr_inj [OF e'(2) e(2)])
    next
      assume "e' = e"
      then have "directblock (idatas fs p) ! (i div 4096) = directblock (idatas fs p) ! k" using e'(1) e(1) b(1) by simp
      then show "i div 4096 = k" using blk_okD(5) [OF ok k j(1)] False by auto
    qed
    have "i - (4096 * k + off) = i mod 4096 - off" if "i div 4096 = k"
    proof -
      have "i = 4096 * k + i mod 4096" using that by auto
      then show ?thesis by linarith
    qed
    then show ?thesis
      using mem_write_frame [OF e(2) e'(2) len j(2), of "mem fs"] False same
      unfolding div_block [OF len] by (auto simp: file_at_def f e' Let_def)
  qed
qed

lemma store_block_wrote:
  assumes ok: "blk_ok fs p" and room: "has_room fs (Suc n)" and k: "k < 12" and len: "off + length bs \<le> 4096"
  shows "\<exists>fs'. store_block fs p k off bs = Some fs' \<and> wrote p fs (4096 * k + off) bs fs' \<and> has_room fs' n"
proof -
  obtain b fs1 where b: "ramfs_block_by_index_or_new fs p k = (b, fs1)" by force
  have g: "got_block fs p k b fs1" and room1: "has_room fs1 n" using block_or_new [OF ok room k b] by auto
  define fs2 where "fs2 = fs1\<lparr>mem := mem_write (mem fs1) (b + of_nat off) bs\<rparr>"
  have st: "store_block fs p k off bs = Some fs2" using g b by (simp add: store_block_def got_block_def fs2_def)
  have ok1: "blk_ok fs1 p" "directblock (idatas fs1 p) ! k = b" "b \<noteq> 0" using g by (simp_all add: got_block_def)
  have f: "idatas fs2 = idatas fs1" "pm fs2 = pm fs1" "inodes_btree fs2 = inodes_btree fs1" by (simp_all add: fs2_def)
  note at2 = file_at_write [OF ok1(1) k ok1(2,3) len fs2_def]
  have keep: "file_at fs1 p i = file_at fs p i" if "i < 49152" "file_at fs p i \<noteq> None" for i
  proof -
    have "i div 4096 < 12" using that(1) by (simp add: less_mult_imp_div_less)
    then show ?thesis using g that(2) by (cases "i div 4096 = k") (auto simp: file_at_def got_block_def Let_def split: if_splits)
  qed
  have "4096 * k + 4096 \<le> 49152" using k by simp
  then have "wrote p fs (4096 * k + off) bs fs2"
    unfolding wrote_def using ok1 g at2 keep len by (auto simp: got_block_def f blk_ok_def)
  then show ?thesis using st room1 by (auto simp: has_room_def f)
qed

definition blocks_for :: "nat \<Rightarrow> nat" where
  "blocks_for n = (n + 4095) div 4096"

lemma wrote_refl: "blk_ok fs p \<Longrightarrow> wrote p fs pos [] fs"
  by (simp add: wrote_def)

lemma write_blocks_wrote:
  assumes "blk_ok fs p" "has_room fs (blocks_for (length rest))" "4096 * blkindex + length rest \<le> 49152"
  shows "\<exists>fs'. write_blocks fs p blkindex rest nwrite = (0, nwrite + length rest, fs') \<and>
    wrote p fs (4096 * blkindex) rest fs'"
  using assms
proof (induction fs p blkindex rest nwrite rule: write_blocks.induct)
  case (1 fs p blkindex rest nwrite)
  consider "4096 \<le> length rest" | "length rest < 4096" "rest \<noteq> []" | "rest = []" by fastforce
  then show ?case
  proof cases
    case 1
    define n where "n = blocks_for (length (drop 4096 rest))"
    have n: "blocks_for (length rest) = Suc n" using 1 by (simp add: blocks_for_def n_def)
    have k: "blkindex < 12" using 1 "1.prems"(3) by simp
    have "0 + length (take 4096 rest) \<le> 4096" by simp
    then obtain fs1 where fs1: "store_block fs p blkindex 0 (take 4096 rest) = Some fs1"
        "wrote p fs (4096 * blkindex) (take 4096 rest) fs1" "has_room fs1 n"
      using store_block_wrote [OF "1.prems"(1) "1.prems"(2) [unfolded n] k] by (metis add_0_right)
    have l: "length (take 4096 rest) = 4096" using 1 by simp
    have "4096 * (blkindex + 1) + length (drop 4096 rest) \<le> 49152" using 1 "1.prems"(3) by simp
    then obtain fs2 where fs2: "write_blocks fs1 p (blkindex + 1) (drop 4096 rest) (nwrite + 4096) =
          (0, nwrite + 4096 + length (drop 4096 rest), fs2)" "wrote p fs1 (4096 * (blkindex + 1)) (drop 4096 rest) fs2"
      using "1.IH" [OF 1 fs1(1) wroteD(1) [OF fs1(2)]] fs1(3) by (auto simp: n_def)
    have "wrote p fs (4096 * blkindex) (take 4096 rest @ drop 4096 rest) fs2"
      using wrote_trans [OF fs1(2), of "drop 4096 rest" fs2] fs2(2) l "1.prems"(3) 1 by (simp add: add.commute)
    then show ?thesis using 1 fs1 fs2 by (subst write_blocks.simps) simp
  next
    case 2
    have "blocks_for (length rest) = Suc 0"
      using 2 by (cases rest) (auto simp: blocks_for_def intro!: div_nat_eqI)
    moreover have "blkindex < 12" using 2 "1.prems"(3) by (cases rest) auto
    ultimately obtain fs1 where "store_block fs p blkindex 0 rest = Some fs1" "wrote p fs (4096 * blkindex) rest fs1"
      using store_block_wrote [of fs p 0 blkindex 0 rest] "1.prems"(1,2) 2 by auto
    then show ?thesis using 2 by (subst write_blocks.simps) simp
  next
    case 3
    then show ?thesis using wrote_refl [OF "1.prems"(1)] by (subst write_blocks.simps) simp
  qed
qed

section \<open>Reading\<close>

lemma as_int_id: "n < 2 ^ 31 \<Longrightarrow> as_int n = int n"
  by (simp add: as_int_def sint_u32 unat_of_nat_u32)

definition stored :: "ramfs \<Rightarrow> u32 \<Rightarrow> nat \<Rightarrow> nat \<Rightarrow> bool" where
  "stored fs p a b \<longleftrightarrow> (\<forall>i. a \<le> i \<and> i < b \<longrightarrow> file_at fs p i \<noteq> None)"

definition file_bytes :: "ramfs \<Rightarrow> u32 \<Rightarrow> nat \<Rightarrow> nat \<Rightarrow> u8 list" where
  "file_bytes fs p a b = map (\<lambda>i. the (file_at fs p i)) [a..<b]"

lemma file_bytes_append: "a \<le> b \<Longrightarrow> b \<le> c \<Longrightarrow> file_bytes fs p a b @ file_bytes fs p b c = file_bytes fs p a c"
  using upt_add_eq_append [of a b "c - b"] unfolding file_bytes_def by (simp flip: map_append)

lemma block_bytes_stored:
  assumes k: "k < 12" and n: "off + n \<le> 4096" and st: "stored fs p (4096 * k + off) (4096 * k + off + n)"
  shows "block_bytes fs (idatas fs p) k off n = file_bytes fs p (4096 * k + off) (4096 * k + off + n)"
proof (cases "n = 0")
  case True
  then show ?thesis by (simp add: block_bytes_def file_bytes_def mem_read_def Let_def)
next
  case False
  have dm: "(4096 * k + off + i) div 4096 = k" "(4096 * k + off + i) mod 4096 = off + i" if "i < n" for i
    using that n div_block [of off n k "4096 * k + off + i"] by (auto simp: mod_nat_eqI)
  let ?b = "directblock (idatas fs p) ! k"
  have "file_at fs p (4096 * k + off + 0) \<noteq> None" using st False by (simp add: stored_def)
  then have b: "?b \<noteq> 0" using dm [of 0] False by (auto simp: file_at_def Let_def)
  have at: "mem fs (?b + of_nat off + of_nat i) = the (file_at fs p (4096 * k + off + i))" if "i < n" for i
    using dm [OF that] b by (simp add: file_at_def add.assoc)
  have "block_bytes fs (idatas fs p) k off n = map (\<lambda>i. mem fs (?b + of_nat off + of_nat i)) [0..<n]"
    using k b by (simp add: block_bytes_def ramfs_block_by_index_def mem_read_def)
  also have "\<dots> = map (\<lambda>i. the (file_at fs p (4096 * k + off + i))) [0..<n]"
    using at by (intro map_cong [OF refl]) simp
  also have "\<dots> = file_bytes fs p (4096 * k + off) (4096 * k + off + n)"
    unfolding file_bytes_def by (rule nth_equalityI) simp_all
  finally show ?thesis .
qed

lemma read_blocks_stored:
  assumes "pos + nread = 4096 * blkindex" "nread \<le> buflen" "pos + buflen \<le> 49152" "stored fs p (pos + nread) (pos + buflen)"
    "int (pos + buflen) \<le> i_size (idatas fs p)"
  shows "read_blocks fs (idatas fs p) pos buflen blkindex nread = file_bytes fs p (pos + nread) (pos + buflen)"
  using assms
proof (induction fs "idatas fs p" pos buflen blkindex nread rule: read_blocks.induct)
  case (1 fs pos buflen blkindex nread)
  have small: "as_int m = int m" if "m \<le> 49152" for m using that by (intro as_int_id) simp
  consider "nread + 4096 \<le> buflen" | "nread < buflen" "buflen < nread + 4096" | "nread = buflen"
    using "1.prems"(2) by linarith
  then show ?case
  proof cases
    case 1
    then have c: "nread + 4096 \<le> buflen \<and> as_int (pos + nread + 4096) \<le> i_size (idatas fs p)"
      using "1.prems" small by simp
    have "block_bytes fs (idatas fs p) blkindex 0 4096 = file_bytes fs p (pos + nread) (pos + nread + 4096)"
      using block_bytes_stored [of blkindex 0 4096 fs p] "1.prems" 1 by (simp add: stored_def)
    moreover have "read_blocks fs (idatas fs p) pos buflen (blkindex + 1) (nread + 4096) =
        file_bytes fs p (pos + nread + 4096) (pos + buflen)"
      using "1.hyps" [OF c] "1.prems" 1 by (simp add: stored_def flip: add.assoc)
    ultimately show ?thesis
      using c file_bytes_append [of "pos + nread" "pos + nread + 4096" "pos + buflen" fs p]
      by (subst read_blocks.simps) simp
  next
    case 2
    have e: "4096 * blkindex + buflen - nread = pos + buflen" using 2 "1.prems"(1) by linarith
    have "block_bytes fs (idatas fs p) blkindex 0 (buflen - nread) = file_bytes fs p (pos + nread) (pos + buflen)"
      using block_bytes_stored [of blkindex 0 "buflen - nread" fs p] "1.prems" 2 e by (simp add: stored_def)
    then show ?thesis using 2 "1.prems" small by (subst read_blocks.simps) (simp add: Let_def)
  next
    case 3
    then show ?thesis by (subst read_blocks.simps) (simp add: file_bytes_def)
  qed
qed

lemma read_inode_stored:
  assumes p: "ramfs_idata_by_inode fs ino = p" "p \<noteq> 0" and len: "pos + buflen \<le> 49152" and st: "stored fs p pos (pos + buflen)"
    and sz: "int (pos + buflen) \<le> i_size (idatas fs p)"
  shows "ramfs_read_inode fs ino pos buflen = (0, file_bytes fs p pos (pos + buflen))"
proof (cases "int pos \<ge> i_size (idatas fs p)")
  case True
  then show ?thesis using p sz by (simp add: ramfs_read_inode_def file_bytes_def)
next
  case False
  define k off where "k = pos div 4096" and "off = pos mod 4096"
  have pos: "pos = 4096 * k + off" "off < 4096" by (simp_all add: k_def off_def)
  show ?thesis
  proof (cases "off = 0")
    case True
    then have "read_blocks fs (idatas fs p) pos buflen k 0 = file_bytes fs p pos (pos + buflen)"
      using read_blocks_stored [of pos 0 k buflen fs p] pos len st sz by simp
    then show ?thesis using True False p by (simp add: ramfs_read_inode_def Let_def flip: k_def off_def)
  next
    case off: False
    define n where "n = min (4096 - off) buflen"
    have n: "off + n \<le> 4096" "n \<le> buflen" "n = buflen \<or> pos + n = 4096 * (k + 1)" using pos by (auto simp: n_def)
    have "block_bytes fs (idatas fs p) k off n = file_bytes fs p pos (pos + n)"
      using block_bytes_stored [of k off n fs p] pos len n st off by (simp add: stored_def)
    moreover have "read_blocks fs (idatas fs p) pos buflen (k + 1) n = file_bytes fs p (pos + n) (pos + buflen)"
    proof (cases "n = buflen")
      case True
      then show ?thesis by (subst read_blocks.simps) (simp add: file_bytes_def)
    next
      case False
      then show ?thesis
        using read_blocks_stored [of pos n "k + 1" buflen fs p] n len st sz by (auto simp: stored_def)
    qed
    moreover have "ramfs_read_inode fs ino pos buflen =
        (0, block_bytes fs (idatas fs p) k off n @ read_blocks fs (idatas fs p) pos buflen (k + 1) n)"
      using off False p n(2) sz by (auto simp: ramfs_read_inode_def Let_def min_def n_def simp flip: k_def off_def)
    ultimately show ?thesis using file_bytes_append [of pos "pos + n" "pos + buflen" fs p] n(2) by simp
  qed
qed

lemma has_room_mono: "has_room fs n \<Longrightarrow> m \<le> n \<Longrightarrow> has_room fs m"
  by (auto simp: has_room_def)

lemma blocks_for_mono: "m \<le> n \<Longrightarrow> blocks_for m \<le> blocks_for n"
  unfolding blocks_for_def by (intro div_le_mono) simp

definition stored_all :: "ramfs \<Rightarrow> u32 \<Rightarrow> nat \<Rightarrow> u8 list \<Rightarrow> int \<times> nat \<times> ramfs" where
  "stored_all fs p pos buf =
     (if pos mod 4096 \<noteq> 0 then
        let n = min (4096 - pos mod 4096) (length buf) in
        case store_block fs p (pos div 4096) (pos mod 4096) (take n buf) of
          None \<Rightarrow> (errno_code EIO, 0, fs)
        | Some fs \<Rightarrow> write_blocks fs p (pos div 4096 + 1) (drop n buf) n
      else write_blocks fs p (pos div 4096) buf 0)"

lemma stored_all_wrote:
  assumes ok: "blk_ok fs p" and room: "has_room fs (Suc (blocks_for (length buf)))" and len: "pos + length buf \<le> 49152"
  shows "\<exists>fs'. stored_all fs p pos buf = (0, length buf, fs') \<and> wrote p fs pos buf fs'"
proof -
  define k off where "k = pos div 4096" and "off = pos mod 4096"
  have pos: "pos = 4096 * k + off" "off < 4096" by (simp_all add: k_def off_def)
  show ?thesis
  proof (cases "off = 0")
    case True
    then show ?thesis
      using write_blocks_wrote [OF ok has_room_mono [OF room], of buf k 0] pos len
      by (simp add: stored_all_def flip: k_def off_def)
  next
    case False
    define n where "n = min (4096 - off) (length buf)"
    have n: "off + length (take n buf) \<le> 4096" "length (take n buf) = n" using pos(2) by (auto simp: n_def)
    have "k < 12" using pos len False by simp
    then obtain fs1 where fs1: "store_block fs p k off (take n buf) = Some fs1" "wrote p fs pos (take n buf) fs1"
        "has_room fs1 (blocks_for (length buf))"
      using store_block_wrote [OF ok room _ n(1)] pos(1) by metis
    have r1: "has_room fs1 (blocks_for (length (drop n buf)))" by (rule has_room_mono [OF fs1(3)], rule blocks_for_mono) simp
    have "\<exists>fs2. write_blocks fs1 p (k + 1) (drop n buf) n = (0, n + length (drop n buf), fs2) \<and> wrote p fs1 (pos + n) (drop n buf) fs2"
    proof (cases "drop n buf = []")
      case True
      then show ?thesis using wrote_refl [OF wroteD(1) [OF fs1(2)]] by (subst write_blocks.simps) simp
    next
      case False
      then have e: "pos + n = 4096 * (k + 1)" using pos by (auto simp: n_def min_def split: if_splits)
      moreover have "length (drop n buf) = length buf - n" "n \<le> length buf" by (simp_all add: n_def)
      ultimately show ?thesis
        using write_blocks_wrote [OF wroteD(1) [OF fs1(2)] r1, of "k + 1" n] len by simp
    qed
    then obtain fs2 where fs2: "write_blocks fs1 p (k + 1) (drop n buf) n = (0, n + length (drop n buf), fs2)"
        "wrote p fs1 (pos + length (take n buf)) (drop n buf) fs2" unfolding n(2) by blast
    have "wrote p fs pos (take n buf @ drop n buf) fs2"
      using wrote_trans [OF fs1(2) fs2(2)] len n(2) by (simp add: n_def)
    then show ?thesis using False fs1(1) fs2(1) by (simp add: stored_all_def n_def Let_def flip: k_def off_def)
  qed
qed

lemma write_inode_stored:
  assumes "ramfs_idata_by_inode fs ino = p" "p \<noteq> 0" "stored_all fs p pos buf = (ret, n, fs')" "pos + length buf < 2 ^ 31"
  shows "ramfs_write_inode fs ino pos buf =
    (ret, n, upd_idata (i_size_update (\<lambda>s. max s (int (pos + length buf)))) p fs')"
proof -
  have "upd_idata (i_size_update (\<lambda>s. max s e)) p fs' =
      (if e > i_size (idatas fs' p) then upd_idata (i_size_update (\<lambda>_. e)) p fs' else fs')" for e
    by (cases "idatas fs' p") (auto simp: upd_idata_def fun_upd_idem max_def)
  moreover have "ramfs_write_inode fs ino pos buf =
      (case stored_all fs p pos buf of (ret, nwrite, fs) \<Rightarrow>
         (ret, nwrite, if as_int (pos + length buf) > i_size (idatas fs p)
                       then upd_idata (i_size_update (\<lambda>_. as_int (pos + length buf))) p fs else fs))"
    unfolding ramfs_write_inode_def stored_all_def Let_def assms(1) using assms(2) by (simp only: if_False)
  ultimately show ?thesis unfolding assms(3) as_int_id [OF assms(4)] by simp
qed

text \<open>Writing keeps the numbers, modes and directories of all inodes, the inode tree and the heap.\<close>

definition same_nodes :: "ramfs \<Rightarrow> ramfs \<Rightarrow> bool" where
  "same_nodes fs fs' \<longleftrightarrow>
     kh fs' = kh fs \<and> inodes_btree fs' = inodes_btree fs \<and> dirs fs' = dirs fs \<and> sb_root_ino fs' = sb_root_ino fs \<and>
     (\<forall>q. i_no (idatas fs' q) = i_no (idatas fs q) \<and> i_mode (idatas fs' q) = i_mode (idatas fs q) \<and>
          i_data (idatas fs' q) = i_data (idatas fs q) \<and> i_nlinks (idatas fs' q) = i_nlinks (idatas fs q))"

lemma same_nodes_refl: "same_nodes fs fs"
  by (simp add: same_nodes_def)

lemma same_nodes_trans: "same_nodes a b \<Longrightarrow> same_nodes b c \<Longrightarrow> same_nodes a c"
  by (simp add: same_nodes_def)

lemma block_or_new_same: "ramfs_block_by_index_or_new fs p k = (b, fs') \<Longrightarrow> same_nodes fs fs'"
  by (auto simp: ramfs_block_by_index_or_new_def ramfs_new_block_def same_nodes_def upd_idata_def Let_def split: if_splits prod.splits)

lemma store_block_same: "store_block fs p k off bs = Some fs' \<Longrightarrow> same_nodes fs fs'"
  by (auto simp: store_block_def same_nodes_def split: prod.splits if_splits dest!: block_or_new_same)

lemma write_blocks_same: "write_blocks fs p k rest n = (r, m, fs') \<Longrightarrow> same_nodes fs fs'"
proof (induction fs p k rest n rule: write_blocks.induct)
  case (1 fs p k rest n)
  show ?case
  proof (cases "4096 \<le> length rest")
    case True
    then show ?thesis
      using "1.prems" "1.IH" same_nodes_trans store_block_same
      by (subst (asm) write_blocks.simps) (auto simp: same_nodes_refl split: option.splits, metis)
  next
    case False
    then show ?thesis
      using "1.prems" store_block_same
      by (subst (asm) write_blocks.simps) (auto simp: same_nodes_refl split: option.splits if_splits)
  qed
qed

lemma stored_all_same: "stored_all fs p pos buf = (r, m, fs') \<Longrightarrow> same_nodes fs fs'"
  using store_block_same write_blocks_same same_nodes_trans
  by (auto simp: stored_all_def same_nodes_refl Let_def split: if_splits option.splits) blast+

lemma write_then_read:
  assumes p: "ramfs_idata_by_inode fs ino = p" "p \<noteq> 0" and ok: "blk_ok fs p"
    and room: "has_room fs (Suc (blocks_for (length buf)))" and len: "pos + length buf \<le> 49152"
  shows "\<exists>fs'. ramfs_write_inode fs ino pos buf = (0, length buf, fs') \<and>
    ramfs_read_inode fs' ino pos (length buf) = (0, buf) \<and> blk_ok fs' p \<and>
    i_size (idatas fs' p) = max (i_size (idatas fs p)) (int (pos + length buf)) \<and>
    same_nodes fs fs' \<and>
    (\<forall>k < 49152. k < pos \<or> pos + length buf \<le> k \<longrightarrow> file_at fs p k \<noteq> None \<longrightarrow> file_at fs' p k = file_at fs p k)"
proof -
  obtain fs1 where s: "stored_all fs p pos buf = (0, length buf, fs1)" and w: "wrote p fs pos buf fs1"
    using stored_all_wrote [OF ok room len] by blast
  define fs' where "fs' = upd_idata (i_size_update (\<lambda>s. max s (int (pos + length buf)))) p fs1"
  have wr: "ramfs_write_inode fs ino pos buf = (0, length buf, fs')"
    using write_inode_stored [OF p s] len by (simp add: fs'_def)
  have f: "directblock (idatas fs' p) = directblock (idatas fs1 p)" "mem fs' = mem fs1" "pm fs' = pm fs1"
      "inodes_btree fs' = inodes_btree fs1" "i_size (idatas fs' p) = max (i_size (idatas fs1 p)) (int (pos + length buf))"
    by (simp_all add: fs'_def upd_idata_def)
  have at: "file_at fs' p = file_at fs1 p" by (rule ext) (simp add: file_at_def Let_def f)
  have st: "stored fs' p pos (pos + length buf)"
    unfolding stored_def at using wroteD(4) [OF w] by (metis add_less_cancel_left le_add_diff_inverse option.distinct(1))
  have "file_bytes fs' p pos (pos + length buf) = buf"
    unfolding file_bytes_def at using wroteD(4) [OF w] by (intro nth_equalityI) simp_all
  moreover have "ramfs_read_inode fs' ino pos (length buf) = (0, file_bytes fs' p pos (pos + length buf))"
    using p wroteD(2) [OF w] by (intro read_inode_stored [OF _ _ len st]) (simp_all add: ramfs_idata_by_inode_def f)
  moreover have "blk_ok fs' p" using wroteD(1) [OF w] by (simp add: blk_ok_def f)
  moreover have "same_nodes fs fs'" using stored_all_same [OF s] by (simp add: same_nodes_def fs'_def upd_idata_def)
  ultimately show ?thesis using wr f(5) wroteD(3) [OF w] wroteD(5) [OF w] by (auto simp: at)
qed

section \<open>Properties\<close>

text \<open>C7. What is written to a file is read back: writing in the range of the direct blocks, with enough free frames,
  succeeds and stores every byte; reading the same range then gives the bytes written.  The size of the file
  becomes the end of the range if that is larger, bytes stored outside the range keep their value, and the blocks of
  the inode stay distinct frames.\<close>

theorem ramfs_write_then_read:
  assumes p: "ramfs_idata_by_inode fs ino = p" "p \<noteq> 0" and ok: "blk_ok fs p"
    and room: "has_room fs (Suc (blocks_for (length buf)))" and len: "pos + length buf \<le> 49152"
  shows "\<exists>fs'. ramfs_write_inode fs ino pos buf = (0, length buf, fs') \<and>
    ramfs_read_inode fs' ino pos (length buf) = (0, buf) \<and> blk_ok fs' p \<and>
    i_size (idatas fs' p) = max (i_size (idatas fs p)) (int (pos + length buf)) \<and>
    (\<forall>k < 49152. k < pos \<or> pos + length buf \<le> k \<longrightarrow> file_at fs p k \<noteq> None \<longrightarrow> file_at fs' p k = file_at fs p k)"
  using write_then_read [OF assms] by blast

text \<open>A file system with an empty regular file as inode 1.\<close>

definition ex_fs :: ramfs where
  "ex_fs = \<lparr>kh = heap0, pm = \<lparr>theEdgeOfAllocatedMemory = 300, theEndOfUpperMemory = 1000\<rparr>, mem = (\<lambda>_. 0),
     idatas = (\<lambda>_. zero_inode\<lparr>i_no := 1, i_mode := S_IFREG\<rparr>), dirs = (\<lambda>_. ex_dir),
     inodes_btree = BNode 0 4 2 [Leaf 0x10, Leaf 0x20, Null, Null], sb_parent = 0, sb_root_ino = 0, invalid_inode = 0x10\<rparr>"

theorem ramfs_write_then_read_witness:
  "\<exists>fs'. ramfs_write_inode ex_fs 1 4094 [7, 8, 9, 10] = (0, 4, fs') \<and> ramfs_read_inode fs' 1 4094 4 = (0, [7, 8, 9, 10])"
proof -
  have "ramfs_idata_by_inode ex_fs 1 = 0x20" by (simp add: ramfs_idata_by_inode_def btree_get_index_def ex_fs_def)
  moreover have "blk_ok ex_fs 0x20" by (simp add: blk_ok_def ex_fs_def zero_inode_def pmem_inv_def Let_def)
  moreover have l: "length [7, 8, 9, 10 :: u8] = 4" by simp
  moreover have "has_room ex_fs (Suc (blocks_for (length [7, 8, 9, 10 :: u8])))"
    unfolding l by (simp add: has_room_def ex_fs_def blocks_for_def)
  ultimately show ?thesis using ramfs_write_then_read [of ex_fs 1 "0x20" "[7, 8, 9, 10]" 4094] unfolding l by auto
qed

end
