(* ===== verification/Fs_Sys.thy ===== *)
theory Fs_Sys
  imports Process Vfs_Spec Ramfs_Data
begin

text \<open>
  The file system calls of \<^verbatim>\<open>src/fs/fs_sys.c\<close> on the file descriptors of the current process.  A call gives \<open>None\<close>
  when the process table is read out of bounds, a null pointer is used or a heap search does not return; otherwise
  the value it returns and the new state.  File positions are 32-bit signed integers.
\<close>

section \<open>Flags\<close>

definition O_RDWR :: u32 where "O_RDWR = 0x0001"
definition O_RDONLY :: u32 where "O_RDONLY = 0x0002"
definition O_WRONLY :: u32 where "O_WRONLY = 0x0004"
definition O_APPEND :: u32 where "O_APPEND = 0x0008"
definition O_CREAT :: u32 where "O_CREAT = 0x0010"
definition O_TRUNC :: u32 where "O_TRUNC = 0x0020"

datatype whence = SEEK_SET | SEEK_CUR | SEEK_END | BAD_WHENCE

definition off_t :: "int \<Rightarrow> int" where
  "off_t n = sint (word_of_int n :: u32)"

section \<open>Opening\<close>

definition bad_access :: "u32 \<Rightarrow> bool" where
  "bad_access rw \<longleftrightarrow>
     rw AND O_RDWR \<noteq> 0 \<and> rw AND NOT O_RDWR \<noteq> 0 \<or> rw AND O_RDONLY \<noteq> 0 \<and> rw AND NOT O_RDONLY \<noteq> 0 \<or>
     rw AND O_WRONLY \<noteq> 0 \<and> rw AND NOT O_WRONLY \<noteq> 0"

text \<open>The last part of \<^verbatim>\<open>sys_open\<close>: the inode is known and the descriptor \<open>f\<close> chosen.\<close>

definition open_inode :: "'w kern \<Rightarrow> u32 \<Rightarrow> u32 \<times> nat \<Rightarrow> mountnode \<Rightarrow> u32 \<Rightarrow> int \<times> 'w kern" where
  "open_inode k flags f sb ino =
     (case vfs_inode_get (kvfs k) sb ino of
        (ret, None) \<Rightarrow> (- ret, k)
      | (_, Some idata) \<Rightarrow>
          let idata = idata\<lparr>i_nfds := i_nfds idata + 1\<rparr>;
              (_, v) = vfs_inode_set (kvfs k) sb ino idata;
              k = k\<lparr>kvfs := v\<rparr>;
              fmt = S_FMT (i_mode idata);
              k = (if fmt = S_IFCHR then
                     (case device_by_devno (devtab v) DEV_CHR (inode_devno idata) of
                        None \<Rightarrow> k
                      | Some dev \<Rightarrow> if Option.is_none (dev_has_data dev) then k else upd_fd f (fd_pos_update (\<lambda>_. -1)) k)
                   else if fmt = S_IFSOCK \<or> fmt = S_IFIFO then k
                   else if flags AND (O_RDWR OR O_WRONLY) \<noteq> 0 \<and> flags AND O_TRUNC = 0 \<and> flags AND O_APPEND \<noteq> 0
                   then upd_fd f (fd_pos_update (\<lambda>_. i_size idata)) k
                   else k)
          in (int (snd f), upd_fd f (\<lambda>fd. fd\<lparr>fd_sb := Some sb, fd_ino := ino\<rparr>) k))"

definition sys_open :: "'w kern \<Rightarrow> string \<Rightarrow> u32 \<Rightarrow> (int \<times> 'w kern) option" where
  "sys_open k pathname flags =
     (let rw = flags AND (O_RDWR OR O_RDONLY OR O_WRONLY) in
      if rw = 0 then Some (- errno_code EINVAL, k)
      else if bad_access rw then Some (- errno_code EINVAL, k)
      else
        let (ret, sb, ino) = vfs_lookup (kvfs k) pathname in
        if ret \<noteq> 0 \<and> \<not> (ret = errno_code ENOENT \<and> flags AND O_CREAT \<noteq> 0) then Some (- ret, k)
        else
          let ino = (if ret = 0 then ino else 0) in
          do { pid \<leftarrow> current_pid k;
               fd \<leftarrow> alloc_fd_for_pid k pid;
               if fd < 0 then Some (- errno_code EMFILE, k)
               else do { filedes \<leftarrow> get_filedescr_for_pid k pid fd;
                         f \<leftarrow> filedes;
                         let k = upd_fd f (\<lambda>fd. fd\<lparr>fd_flags := flags, fd_pos := 0\<rparr>) k;
                         if ino = 0 \<and> flags AND O_CREAT \<noteq> 0 then
                           do { (ret, v) \<leftarrow> vfs_mknod (kvfs k) pathname (S_IFREG OR ps_umask (procs k (current_proc k))) 0;
                                let k = k\<lparr>kvfs := v\<rparr>;
                                if ret \<noteq> 0 then Some (- ret, k)
                                else case vfs_lookup v pathname of
                                       (ret, sb, ino) \<Rightarrow>
                                         if ret \<noteq> 0 then Some (- errno_code EKERN, k)
                                         else do { sb \<leftarrow> sb; Some (open_inode k flags f sb ino) } }
                         else do { sb \<leftarrow> sb; Some (open_inode k flags f sb ino) } } })"

section \<open>Reading and writing\<close>

definition sys_read :: "'w kern \<Rightarrow> int \<Rightarrow> nat \<Rightarrow> (int \<times> u8 list \<times> 'w kern) option" where
  "sys_read k fd cnt =
     (let p = current_proc k in
      if p = 0 then Some (- errno_code EKERN, [], k)
      else if \<not> (0 \<le> fd \<and> fd < N_PROCESS_FDS) then Some (- errno_code EINVAL, [], k)
      else
        let f = (p, nat fd); filedes = get_fd k f in
        if fd_flags filedes AND O_WRONLY \<noteq> 0 then Some (- errno_code EBADF, [], k)
        else do { sb \<leftarrow> fd_sb filedes;
                  let (ret, bs, v) = vfs_inode_read (kvfs k) sb (fd_ino filedes) (fd_pos filedes) cnt;
                  let k = k\<lparr>kvfs := v\<rparr>;
                  if ret \<noteq> 0 then Some (- ret, bs, k)
                  else Some (int (length bs), bs,
                         if fd_pos filedes \<ge> 0 then upd_fd f (fd_pos_update (\<lambda>pos. off_t (pos + int (length bs)))) k else k) })"

definition sys_write :: "'w kern \<Rightarrow> int \<Rightarrow> u8 list \<Rightarrow> (int \<times> 'w kern) option" where
  "sys_write k fd buf =
     (let p = current_proc k in
      if p = 0 then Some (- errno_code EKERN, k)
      else if \<not> (0 \<le> fd \<and> fd < N_PROCESS_FDS) then Some (- errno_code EINVAL, k)
      else
        let f = (p, nat fd); filedes = get_fd k f in
        if fd_flags filedes AND O_RDONLY \<noteq> 0 then Some (- errno_code EBADF, k)
        else do { sb \<leftarrow> fd_sb filedes;
                  let (ret, n, v) = vfs_inode_write (kvfs k) sb (fd_ino filedes) (fd_pos filedes) buf;
                  let k = k\<lparr>kvfs := v\<rparr>;
                  if ret \<noteq> 0 then Some (- ret, k)
                  else Some (int n, if fd_pos filedes \<ge> 0 then upd_fd f (fd_pos_update (\<lambda>pos. off_t (pos + int n))) k else k) })"

definition sys_close :: "'w kern \<Rightarrow> int \<Rightarrow> (int \<times> 'w kern) option" where
  "sys_close k fd =
     do { pid \<leftarrow> current_pid k;
          filedes \<leftarrow> get_filedescr_for_pid k pid fd;
          case filedes of
            None \<Rightarrow> Some (errno_code EBADF, k)
          | Some f \<Rightarrow>
              do { sb \<leftarrow> fd_sb (get_fd k f);
                   case vfs_inode_get (kvfs k) sb (fd_ino (get_fd k f)) of
                     (ret, None) \<Rightarrow> Some (ret, k)
                   | (_, Some idata) \<Rightarrow>
                       let (_, v) = vfs_inode_set (kvfs k) sb (fd_ino (get_fd k f)) (idata\<lparr>i_nfds := i_nfds idata - 1\<rparr>)
                       in Some (0, upd_fd f (fd_ino_update (\<lambda>_. 0)) (k\<lparr>kvfs := v\<rparr>)) } }"

section \<open>Seeking\<close>

text \<open>The new position before it is brought into the bounds of the file.\<close>

definition seek_pos :: "filedescr \<Rightarrow> inode \<Rightarrow> int \<Rightarrow> whence \<Rightarrow> int option" where
  "seek_pos fildes idata offset whence =
     (case whence of
        SEEK_CUR \<Rightarrow> Some (off_t (fd_pos fildes + offset))
      | SEEK_SET \<Rightarrow> Some offset
      | SEEK_END \<Rightarrow> Some (off_t (i_size idata - offset))
      | BAD_WHENCE \<Rightarrow> None)"

definition seek_clamp :: "inode \<Rightarrow> int \<Rightarrow> int" where
  "seek_clamp idata pos =
     (let pos = (if pos > i_size idata then i_size idata else pos) in if pos < 0 then 0 else pos)"

definition not_seekable :: "'w vfs \<Rightarrow> inode \<Rightarrow> errno option" where
  "not_seekable v idata =
     (let fmt = S_FMT (i_mode idata) in
      if fmt = S_IFIFO \<or> fmt = S_IFSOCK then Some ESPIPE
      else if fmt = S_IFDIR then Some EISDIR
      else if fmt = S_IFCHR then
        (case device_by_devno (devtab v) DEV_CHR (inode_devno idata) of
           None \<Rightarrow> Some ENXIO
         | Some dev \<Rightarrow> if Option.is_none (dev_has_data dev) then None else Some ESPIPE)
      else None)"

definition sys_lseek :: "'w kern \<Rightarrow> int \<Rightarrow> int \<Rightarrow> whence \<Rightarrow> (int \<times> 'w kern) option" where
  "sys_lseek k fd offset whence =
     do { pid \<leftarrow> current_pid k;
          filedes \<leftarrow> get_filedescr_for_pid k pid fd;
          case filedes of
            None \<Rightarrow> Some (- errno_code EBADF, k)
          | Some f \<Rightarrow>
              let fildes = get_fd k f in
              if fd_ino fildes = 0 then Some (- errno_code EBADF, k)
              else if fd_pos fildes < 0 then Some (- errno_code ESPIPE, k)
              else
                do { sb \<leftarrow> fd_sb fildes;
                     case vfs_inode_get (kvfs k) sb (fd_ino fildes) of
                       (ret, None) \<Rightarrow> Some (- ret, k)
                     | (_, Some idata) \<Rightarrow>
                         (case not_seekable (kvfs k) idata of
                            Some e \<Rightarrow> Some (- errno_code e, k)
                          | None \<Rightarrow>
                              (case seek_pos fildes idata offset whence of
                                 None \<Rightarrow> Some (- errno_code EINVAL, k)
                               | Some pos \<Rightarrow>
                                   Some (pos, upd_fd f (fd_pos_update (\<lambda>_. seek_clamp idata pos)) k))) } }"

section \<open>Paths\<close>

definition sys_mkdir :: "'w kern \<Rightarrow> string \<Rightarrow> u32 \<Rightarrow> (int \<times> 'w kern) option" where
  "sys_mkdir k pathname mode = do { (ret, v) \<leftarrow> vfs_mkdir (kvfs k) pathname mode; Some (ret, k\<lparr>kvfs := v\<rparr>) }"

definition sys_unlink :: "'w kern \<Rightarrow> string \<Rightarrow> int \<times> 'w kern" where
  "sys_unlink k path = (let (ret, v) = vfs_unlink (kvfs k) path in (ret, k\<lparr>kvfs := v\<rparr>))"

definition sys_rename :: "'w kern \<Rightarrow> string \<Rightarrow> string \<Rightarrow> (int \<times> 'w kern) option" where
  "sys_rename k oldpath newpath = do { (ret, v) \<leftarrow> vfs_rename (kvfs k) oldpath newpath; Some (ret, k\<lparr>kvfs := v\<rparr>) }"

text \<open>Calls that are not implemented.\<close>

definition sys_mount :: int where "sys_mount = errno_code ETODO"
definition sys_lsdir :: int where "sys_lsdir = errno_code ETODO"
definition sys_ftruncate :: int where "sys_ftruncate = errno_code ETODO"
definition sys_fstat :: int where "sys_fstat = - errno_code ETODO"

end
