(* ===== verification/Fs_Spec.thy ===== *)
theory Fs_Spec
  imports Fs_Sys
begin

text \<open>
  What the file system calls promise: positions stay within the file, and a file that a process creates gives back
  what is written to it, through the descriptor table, the virtual file system, the RAM file system and the
  allocators of memory.
\<close>

section \<open>Descriptors\<close>

lemma get_fd_upd:
  assumes "snd f < length (ps_fds (procs k (fst f)))"
  shows "get_fd (upd_fd f g k) f = g (get_fd k f)"
  using assms by (simp add: get_fd_def upd_fd_def upd_proc_def)

lemma upd_fd_same [simp]:
  "kvfs (upd_fd f g k) = kvfs k" "ksched (upd_fd f g k) = ksched k" "theProcessTable (upd_fd f g k) = theProcessTable k"
  "current_proc (upd_fd f g k) = current_proc k" "proc_by_pid (upd_fd f g k) pid = proc_by_pid k pid"
  "ps_pid (procs (upd_fd f g k) p) = ps_pid (procs k p)" "ps_umask (procs (upd_fd f g k) p) = ps_umask (procs k p)"
  "length (ps_fds (procs (upd_fd f g k) p)) = length (ps_fds (procs k p))"
  by (simp_all add: upd_fd_def upd_proc_def current_proc_def proc_by_pid_def)

lemma kvfs_same [simp]:
  "current_proc (k\<lparr>kvfs := v\<rparr>) = current_proc k" "proc_by_pid (k\<lparr>kvfs := v\<rparr>) pid = proc_by_pid k pid"
  "get_fd (k\<lparr>kvfs := v\<rparr>) f = get_fd k f"
  by (simp_all add: current_proc_def proc_by_pid_def get_fd_def)

text \<open>The current process is in the table and has all its descriptors.\<close>

definition proc_ok :: "'w kern \<Rightarrow> u32 \<Rightarrow> bool" where
  "proc_ok k p \<longleftrightarrow> current_proc k = p \<and> p \<noteq> 0 \<and> proc_by_pid k (ps_pid (procs k p)) = Some p \<and> length (ps_fds (procs k p)) = 20"

lemma proc_ok_pid:
  assumes "proc_ok k p"
  shows "current_pid k = Some (ps_pid (procs k p))"
    "0 \<le> fd \<Longrightarrow> fd < 20 \<Longrightarrow> get_filedescr_for_pid k (ps_pid (procs k p)) fd = Some (Some (p, nat fd))"
  using assms by (simp_all add: proc_ok_def current_pid_def get_filedescr_for_pid_def N_PROCESS_FDS_def)

lemma proc_ok_upd [simp]: "proc_ok (upd_fd f g k) p = proc_ok k p" "proc_ok (k\<lparr>kvfs := v\<rparr>) p = proc_ok k p"
  by (simp_all add: proc_ok_def)

lemma first_free_fd_range:
  "\<exists>fd\<in>set fds. fd_ino fd < 1 \<Longrightarrow> i \<le> first_free_fd fds i \<and> first_free_fd fds i < i + int (length fds)"
proof (induction fds arbitrary: i)
  case (Cons a fds)
  show ?case
  proof (cases "fd_ino a < 1")
    case False
    then show ?thesis using Cons.IH [of "i + 1"] Cons.prems by simp
  qed simp
qed simp

section \<open>Positions\<close>

text \<open>Where a call of \<^verbatim>\<open>lseek\<close> aims at, in a file of the given size.\<close>

fun seek_target :: "int \<Rightarrow> int \<Rightarrow> int \<Rightarrow> whence \<Rightarrow> int" where
  "seek_target pos sz offset SEEK_SET = offset"
| "seek_target pos sz offset SEEK_CUR = pos + offset"
| "seek_target pos sz offset SEEK_END = sz"
| "seek_target pos sz offset BAD_WHENCE = 0"

lemma off_t_id: "- (2 ^ 31) \<le> n \<Longrightarrow> n < 2 ^ 31 \<Longrightarrow> off_t n = n"
  unfolding off_t_def by (simp add: sint_sbintrunc' signed_take_bit_int_eq_self)

lemma seek_open_pos:
  assumes ok: "proc_ok k p" and fd: "0 \<le> fd" "fd < 20" and f: "f = get_fd k (p, nat fd)"
    and op: "fd_ino f \<noteq> 0" "0 \<le> fd_pos f" "fd_sb f = Some sb"
    and g: "vfs_inode_get (kvfs k) sb (fd_ino f) = (0, Some idata)" "not_seekable (kvfs k) idata = None"
  shows "sys_lseek k fd offset whence =
    (case seek_pos f idata offset whence of
       None \<Rightarrow> Some (- errno_code EINVAL, k)
     | Some pos \<Rightarrow> Some (pos, upd_fd (p, nat fd) (fd_pos_update (\<lambda>_. seek_clamp idata pos)) k))"
  unfolding sys_lseek_def proc_ok_pid(1) [OF ok] using op g
  by (simp add: proc_ok_pid(2) [OF ok fd] f [symmetric] Let_def)

section \<open>Creating a file\<close>

lemma inode_set_back:
  assumes "sb_fs sb = ramfs_driver" "ramfs_inode_get (fsys v) ino = (0, Some i)" "i_nlinks i \<noteq> 0"
  shows "snd (vfs_inode_set v sb ino (i\<lparr>i_nfds := n\<rparr>)) = v"
proof -
  have p: "ramfs_idata_by_inode (fsys v) ino \<noteq> 0" "idatas (fsys v) (ramfs_idata_by_inode (fsys v) ino) = i"
    using assms(2) by (auto simp: ramfs_inode_get_def Let_def split: if_splits)
  have "ramfs_inode_set (fsys v) ino i = (0, fsys v)"
    using p assms(3) by (simp add: ramfs_inode_set_def upd_idata_def Let_def fun_upd_idem)
  then show ?thesis using assms(1,2) by (simp add: vfs_inode_set_def ramfs_driver_def ramfs_fsops_def)
qed

lemma open_reg:
  assumes "sb_fs sb = ramfs_driver" "ramfs_inode_get (fsys (kvfs k)) ino = (0, Some i)" "i_nlinks i \<noteq> 0" "S_FMT (i_mode i) = S_IFREG"
    and "flags AND O_APPEND = 0"
  shows "open_inode k flags f sb ino = (int (snd f), upd_fd f (\<lambda>fd. fd\<lparr>fd_sb := Some sb, fd_ino := ino\<rparr>) k)"
proof -
  have s: "snd (vfs_inode_set (kvfs k) sb ino (i\<lparr>i_nfds := i_nfds i + 1\<rparr>)) = kvfs k" by (rule inode_set_back [OF assms(1-3)])
  have g: "vfs_inode_get (kvfs k) sb ino = (0, Some i)" using assms(1,2) by (simp add: vfs_inode_get_def)
  have "S_IFREG \<noteq> S_IFCHR" "S_IFREG \<noteq> S_IFSOCK" "S_IFREG \<noteq> S_IFIFO"
    by (simp_all add: S_IFREG_def S_IFCHR_def S_IFSOCK_def S_IFIFO_def)
  then show ?thesis using assms(4,5) s by (simp add: open_inode_def g Let_def split_def)
qed

text \<open>The kernel's file system is a RAM file system mounted at the root, with room for one more node called \<open>name\<close>.\<close>

definition can_create :: "nat \<Rightarrow> nat \<Rightarrow> 'w vfs \<Rightarrow> mountnode \<Rightarrow> string \<Rightarrow> bool" where
  "can_create F L v mnt name \<longleftrightarrow>
     theRootMnt v = Some mnt \<and> sb_fs mnt = ramfs_driver \<and> sb_children mnt = [] \<and>
     ramfs_ok F L (fsys v) \<and> \<not> bt_full L (inodes_btree (fsys v)) \<and> room (kh (fsys v)) 700 \<and>
     component name \<and> length name \<le> 254 \<and> dir_map (root_dir (fsys v)) name = None \<and> hash_unique (root_dir (fsys v)) name"

lemma created_lookup:
  assumes c: "can_create F L v mnt name" and m: "node_made F L (fsys v) name mode info q ino fs'"
  shows "vfs_lookup (v\<lparr>fsys := fs'\<rparr>) (FS_SEP # name) = (0, Some mnt, ino)"
proof -
  have c': "theRootMnt v = Some mnt" "sb_fs mnt = ramfs_driver" "sb_children mnt = []" "ramfs_ok F L (fsys v)" "component name"
      "length name \<le> 254" "hash_unique (root_dir (fsys v)) name"
    using c by (simp_all add: can_create_def)
  have ok': "ramfs_ok F L fs'" using m by (simp add: node_made_def)
  note dm = root_dir_made [OF c'(4) m]
  have "dir_ok (root_dir (fsys v))"
    using ramfs_okD(4) [OF c'(4) ramfs_okD(5,6) [OF c'(4)]] ramfs_okD(7) [OF c'(4)] by (simp add: inode_ok_def root_dir_def Let_def)
  then have "hash_unique (root_dir fs') name" using c'(7) dm(1,2) by (auto simp: hash_unique_dom)
  then show ?thesis
    using lookup_root [of "v\<lparr>fsys := fs'\<rparr>" mnt F L name] c'(1-3,5,6) ok' dm(1) by simp
qed

lemma open_creates:
  assumes ok: "proc_ok k p" and free: "\<exists>fd\<in>set (ps_fds (procs k p)). fd_ino fd < 1"
    and c: "can_create F L (kvfs k) mnt name" and um: "S_FMT (S_IFREG OR ps_umask (procs k p)) = S_IFREG"
    and fl: "flags = O_RDWR OR O_CREAT"
  shows "\<exists>fd q ino fs' k1. sys_open k (FS_SEP # name) flags = Some (fd, k1) \<and> 0 \<le> fd \<and> fd < 20 \<and> proc_ok k1 p \<and>
    get_fd k1 (p, nat fd) = \<lparr>fd_sb = Some mnt, fd_ino = ino, fd_flags = flags, fd_pos = 0\<rparr> \<and>
    kvfs k1 = (kvfs k)\<lparr>fsys := fs'\<rparr> \<and> node_made F L (fsys (kvfs k)) name (S_IFREG OR ps_umask (procs k p)) 0 q ino fs'"
proof -
  define m where "m = S_IFREG OR ps_umask (procs k p)"
  define fd where "fd = first_free_fd (ps_fds (procs k p)) 0"
  have fd: "0 \<le> fd" "fd < 20" using first_free_fd_range [OF free, of 0] ok by (simp_all add: fd_def proc_ok_def)
  define f where "f = (p, nat fd)"
  define k0 where "k0 = upd_fd f (\<lambda>fd. fd\<lparr>fd_flags := flags, fd_pos := 0\<rparr>) k"
  note cD = c [unfolded can_create_def]
  have md: "\<not> S_ISDIR m" "\<not> S_ISLNK m" "node_mode m = m" "node_info m 0 = 0"
    using um by (simp_all add: m_def S_ISDIR_def S_ISLNK_def S_IFREG_def S_IFDIR_def S_IFLNK_def node_mode_def node_info_def)
  obtain q ino fs' where mk: "vfs_mknod (kvfs k) (FS_SEP # name) m 0 = Some (0, (kvfs k)\<lparr>fsys := fs'\<rparr>)"
      "node_made F L (fsys (kvfs k)) name m 0 q ino fs'"
    using mknod_room [of "kvfs k" mnt F L name m 0] cD md by auto
  have l0: "vfs_lookup (kvfs k) (FS_SEP # name) = (errno_code ENOENT, Some mnt, 0)"
    using lookup_root [of "kvfs k" mnt F L name] cD by simp
  note l1 = created_lookup [OF c mk(2)]
  have "alloc_fd_for_pid k (ps_pid (procs k p)) = Some fd" using ok by (simp add: alloc_fd_for_pid_def proc_ok_def fd_def)
  moreover have acc: "flags AND (O_RDWR OR O_RDONLY OR O_WRONLY) = O_RDWR" "\<not> bad_access O_RDWR" "O_RDWR \<noteq> 0"
      "flags AND O_CREAT \<noteq> 0" "flags AND O_APPEND = 0"
    by (simp_all add: fl O_RDWR_def O_RDONLY_def O_WRONLY_def O_CREAT_def O_APPEND_def bad_access_def)
  moreover have "ps_umask (procs k0 (current_proc k0)) = ps_umask (procs k p)" using ok by (simp add: k0_def proc_ok_def)
  moreover have "kvfs k0 = kvfs k" by (simp add: k0_def)
  moreover define k1 where "k1 = upd_fd f (\<lambda>fd. fd\<lparr>fd_sb := Some mnt, fd_ino := ino\<rparr>) (k0\<lparr>kvfs := (kvfs k)\<lparr>fsys := fs'\<rparr>\<rparr>)"
  have "ramfs_inode_get fs' ino = (0, Some (new_inode ino m 0))" using root_dir_made(4) mk(2) cD by blast
  then have "open_inode (k0\<lparr>kvfs := (kvfs k)\<lparr>fsys := fs'\<rparr>\<rparr>) flags f mnt ino = (fd, k1)"
    using open_reg [of mnt "k0\<lparr>kvfs := (kvfs k)\<lparr>fsys := fs'\<rparr>\<rparr>" ino "new_inode ino m 0" flags f] cD um acc(5) fd
    by (simp add: new_inode_fields m_def f_def k1_def)
  ultimately have "sys_open k (FS_SEP # name) flags = Some (fd, k1)"
    using fd mk(1) l0 l1 proc_ok_pid [OF ok] fd
    by (simp add: sys_open_def Let_def m_def [symmetric] k0_def [symmetric] f_def [symmetric])
  moreover have "get_fd k1 f = \<lparr>fd_sb = Some mnt, fd_ino = ino, fd_flags = flags, fd_pos = 0\<rparr>"
    using ok fd by (simp add: k1_def k0_def f_def proc_ok_def get_fd_upd)
  ultimately show ?thesis using fd ok mk(2) unfolding f_def m_def by (intro exI) (auto simp: k1_def k0_def f_def)
qed

section \<open>Reading and writing an open file\<close>

text \<open>Descriptor \<open>fd\<close> of the current process is open for reading and writing at \<open>pos\<close> in the regular file at \<open>q\<close>.\<close>

definition open_at :: "'w kern \<Rightarrow> u32 \<Rightarrow> int \<Rightarrow> mountnode \<Rightarrow> u32 \<Rightarrow> u32 \<Rightarrow> nat \<Rightarrow> bool" where
  "open_at k p fd sb ino q pos \<longleftrightarrow>
     proc_ok k p \<and> 0 \<le> fd \<and> fd < 20 \<and> sb_fs sb = ramfs_driver \<and> ino \<noteq> 0 \<and>
     fd_sb (get_fd k (p, nat fd)) = Some sb \<and> fd_ino (get_fd k (p, nat fd)) = ino \<and>
     fd_flags (get_fd k (p, nat fd)) AND (O_RDONLY OR O_WRONLY) = 0 \<and> fd_pos (get_fd k (p, nat fd)) = int pos \<and>
     ramfs_idata_by_inode (fsys (kvfs k)) ino = q \<and> q \<noteq> 0 \<and> S_FMT (i_mode (idatas (fsys (kvfs k)) q)) = S_IFREG"

lemma flag_clear: "(x :: u32) AND (a OR b) = 0 \<Longrightarrow> x AND a = 0 \<and> x AND b = 0"
  by (simp add: bit.conj_disj_distrib or_eq_0_iff)

lemma reg_modes:
  "S_IFREG \<noteq> S_IFCHR" "S_IFREG \<noteq> S_IFBLK" "S_IFREG \<noteq> S_IFSOCK" "S_IFREG \<noteq> S_IFIFO" "S_IFREG \<noteq> S_IFLNK" "S_IFREG \<noteq> S_IFDIR"
  by (simp_all add: S_IFREG_def S_IFCHR_def S_IFBLK_def S_IFSOCK_def S_IFIFO_def S_IFLNK_def S_IFDIR_def)

lemma off_t_small: "0 \<le> n \<Longrightarrow> n < 2 ^ 31 \<Longrightarrow> off_t n = n"
  by (rule off_t_id) simp_all

lemma same_nodes_idata: "same_nodes fs fs' \<Longrightarrow> ramfs_idata_by_inode fs' ino = ramfs_idata_by_inode fs ino"
  by (simp add: same_nodes_def ramfs_idata_by_inode_def)

lemma fd_at: "proc_ok k p \<Longrightarrow> 0 \<le> fd \<Longrightarrow> fd < 20 \<Longrightarrow> snd (p, nat fd) < length (ps_fds (procs k (fst (p, nat fd))))"
  by (simp add: proc_ok_def)

lemma write_open:
  assumes o: "open_at k p fd sb ino q pos"
    and w: "ramfs_write_inode (fsys (kvfs k)) ino pos buf = (0, length buf, fs')" "same_nodes (fsys (kvfs k)) fs'"
    and len: "pos + length buf < 2 ^ 31"
  shows "\<exists>k'. sys_write k fd buf = Some (int (length buf), k') \<and> open_at k' p fd sb ino q (pos + length buf) \<and>
    kvfs k' = (kvfs k)\<lparr>fsys := fs'\<rparr>"
proof -
  define f where "f = (p, nat fd)"
  note oD = o [unfolded open_at_def, folded f_def]
  have ok: "proc_ok k p" "0 \<le> fd" "fd < 20" using oD by simp_all
  define k' where "k' = upd_fd f (fd_pos_update (\<lambda>x. off_t (x + int (length buf)))) (k\<lparr>kvfs := (kvfs k)\<lparr>fsys := fs'\<rparr>\<rparr>)"
  have "vfs_inode_write (kvfs k) sb ino (int pos) buf = (0, length buf, (kvfs k)\<lparr>fsys := fs'\<rparr>)"
    using oD w(1) by (simp add: vfs_inode_write_def ramfs_inode_get_def Let_def)
  then have "sys_write k fd buf = Some (int (length buf), k')"
    using oD flag_clear [of "fd_flags (get_fd k f)" O_RDONLY O_WRONLY]
    by (simp add: sys_write_def proc_ok_def N_PROCESS_FDS_def Let_def k'_def f_def [symmetric])
  moreover have "get_fd k' f = (get_fd k f)\<lparr>fd_pos := int (pos + length buf)\<rparr>"
    using fd_at [OF ok] oD off_t_small [of "int pos + int (length buf)"] len
    by (simp add: k'_def get_fd_upd f_def)
  moreover have "kvfs k' = (kvfs k)\<lparr>fsys := fs'\<rparr>" "proc_ok k' p" using ok by (simp_all add: k'_def)
  ultimately show ?thesis
    using oD same_nodes_idata [OF w(2)] w(2) unfolding open_at_def f_def [symmetric] by (auto simp: same_nodes_def)
qed

lemma seek_open:
  assumes o: "open_at k p fd sb ino q pos" and t: "int t \<le> i_size (idatas (fsys (kvfs k)) q)"
  shows "\<exists>k'. sys_lseek k fd (int t) SEEK_SET = Some (int t, k') \<and> open_at k' p fd sb ino q t \<and> kvfs k' = kvfs k"
proof -
  define f where "f = (p, nat fd)"
  note oD = o [unfolded open_at_def, folded f_def]
  have ok: "proc_ok k p" "0 \<le> fd" "fd < 20" using oD by simp_all
  define k' where "k' = upd_fd f (fd_pos_update (\<lambda>_. int t)) k"
  have g: "vfs_inode_get (kvfs k) sb ino = (0, Some (idatas (fsys (kvfs k)) q))"
    using oD by (simp add: vfs_inode_get_def ramfs_inode_get_def)
  have "not_seekable (kvfs k) (idatas (fsys (kvfs k)) q) = None" using oD by (simp add: not_seekable_def reg_modes)
  then have "sys_lseek k fd (int t) SEEK_SET = Some (int t, k')"
    using oD g t proc_ok_pid [OF ok(1)]
    by (simp add: sys_lseek_def seek_pos_def seek_clamp_def Let_def k'_def f_def [symmetric])
  moreover have "get_fd k' f = (get_fd k f)\<lparr>fd_pos := int t\<rparr>" using fd_at [OF ok] by (simp add: k'_def get_fd_upd f_def)
  moreover have "kvfs k' = kvfs k" "proc_ok k' p" using ok by (simp_all add: k'_def)
  ultimately show ?thesis using oD unfolding open_at_def f_def [symmetric] by auto
qed

lemma read_open:
  assumes o: "open_at k p fd sb ino q pos" and r: "ramfs_read_inode (fsys (kvfs k)) ino pos n = (0, bs)"
    and "int pos < i_size (idatas (fsys (kvfs k)) q) \<or> bs = []"
  shows "\<exists>k'. sys_read k fd n = Some (int (length bs), bs, k')"
proof -
  define f where "f = (p, nat fd)"
  note oD = o [unfolded open_at_def, folded f_def]
  have "vfs_inode_read (kvfs k) sb ino (int pos) n = (0, bs, kvfs k)"
    using oD r assms(3) by (auto simp: vfs_inode_read_def ramfs_inode_get_def Let_def reg_modes)
  then show ?thesis
    using oD flag_clear [of "fd_flags (get_fd k f)" O_RDONLY O_WRONLY]
    by (simp add: sys_read_def proc_ok_def N_PROCESS_FDS_def Let_def f_def [symmetric])
qed

section \<open>Properties\<close>

text \<open>C4. A process that creates a file reads back what it writes: with a free descriptor and room in the heap and in
  the frames, opening a new name for reading and writing with \<^verbatim>\<open>O_CREAT\<close> succeeds, writing up to 48 KB, seeking to the
  start and reading gives the bytes written.\<close>

theorem file_round_trip:
  assumes "proc_ok k p" "\<exists>fd\<in>set (ps_fds (procs k p)). fd_ino fd < 1"
    and "can_create F L (kvfs k) mnt name" "S_FMT (S_IFREG OR ps_umask (procs k p)) = S_IFREG"
    and "pmem_inv (pm (fsys (kvfs k)))" "unat (theEdgeOfAllocatedMemory (pm (fsys (kvfs k)))) \<le> 0x40000"
    and "has_room (fsys (kvfs k)) (Suc (blocks_for (length buf)))" "length buf \<le> 49152"
  shows "\<exists>fd k1 k2 k3 k4. sys_open k (FS_SEP # name) (O_RDWR OR O_CREAT) = Some (fd, k1) \<and> 0 \<le> fd \<and> fd < N_PROCESS_FDS \<and>
    sys_write k1 fd buf = Some (int (length buf), k2) \<and> sys_lseek k2 fd 0 SEEK_SET = Some (0, k3) \<and>
    sys_read k3 fd (length buf) = Some (int (length buf), buf, k4)"
proof -
  obtain fd q ino fs1 k1 where op: "sys_open k (FS_SEP # name) (O_RDWR OR O_CREAT) = Some (fd, k1)" "0 \<le> fd" "fd < 20" "proc_ok k1 p"
      "get_fd k1 (p, nat fd) = \<lparr>fd_sb = Some mnt, fd_ino = ino, fd_flags = O_RDWR OR O_CREAT, fd_pos = 0\<rparr>"
      "kvfs k1 = (kvfs k)\<lparr>fsys := fs1\<rparr>" "node_made F L (fsys (kvfs k)) name (S_IFREG OR ps_umask (procs k p)) 0 q ino fs1"
    using open_creates [OF assms(1-4) refl] by blast
  have n: "ramfs_idata_by_inode fs1 ino = q" "q \<noteq> 0" "ino \<noteq> 0" "pm fs1 = pm (fsys (kvfs k))"
      "idatas fs1 q = new_inode ino (S_IFREG OR ps_umask (procs k p)) 0"
    using op(7) by (simp_all add: node_made_def)
  have o1: "open_at k1 p fd mnt ino q 0"
    using op assms(3,4) n
    by (simp add: open_at_def can_create_def new_inode_fields O_RDWR_def O_CREAT_def O_RDONLY_def O_WRONLY_def)
  have ok: "blk_ok fs1 q"
    using assms(5,6) by (simp add: blk_ok_def n(4,5) Let_def new_inode_def zero_inode_def set_dev_def)
  have "has_room fs1 (Suc (blocks_for (length buf)))" using assms(7) by (simp add: has_room_def n(4))
  then obtain fs2 where w: "ramfs_write_inode fs1 ino 0 buf = (0, length buf, fs2)" "ramfs_read_inode fs2 ino 0 (length buf) = (0, buf)"
      "i_size (idatas fs2 q) = max (i_size (idatas fs1 q)) (int (length buf))" "same_nodes fs1 fs2"
    using write_then_read [OF n(1,2) ok, of buf 0] assms(8) by auto
  obtain k2 where k2: "sys_write k1 fd buf = Some (int (length buf), k2)" "open_at k2 p fd mnt ino q (length buf)"
      "kvfs k2 = (kvfs k1)\<lparr>fsys := fs2\<rparr>"
    using write_open [OF o1, of buf fs2] w(1,4) assms(8) by (auto simp: op(6))
  have sz: "i_size (idatas fs2 q) = int (length buf)" using w(3) by (simp add: n(5) new_inode_fields)
  obtain k3 where k3: "sys_lseek k2 fd 0 SEEK_SET = Some (0, k3)" "open_at k3 p fd mnt ino q 0" "kvfs k3 = kvfs k2"
    using seek_open [OF k2(2), of 0] sz by (auto simp: k2(3))
  obtain k4 where "sys_read k3 fd (length buf) = Some (int (length buf), buf, k4)"
    using read_open [OF k3(2), of "length buf" buf] w(2) sz by (auto simp: k3(3) k2(3))
  then show ?thesis using op(1-3) k2(1) k3(1) by (auto simp: N_PROCESS_FDS_def)
qed

text \<open>A process with no open files on a mounted file system.\<close>

definition ex_kern :: "ramfs \<Rightarrow> unit kern" where
  "ex_kern fs = \<lparr>kvfs = ex_vfs fs, ksched = ex_sched,
     procs = (\<lambda>_. \<lparr>ps_userstack = 0, ps_heap_end = 0, ps_pid = 1, ps_ppid = 0, ps_tty = 0, ps_umask = 0x1a4, ps_cwd = ''/'',
       ps_fds = replicate 20 \<lparr>fd_sb = None, fd_ino = 0, fd_flags = 0, fd_pos = 0\<rparr>\<rparr>),
     theProcessTable = [0, 0x1000]\<rparr>"

lemma ex_kern_ok: "proc_ok (ex_kern fs) 0x1000" "\<exists>fd\<in>set (ps_fds (procs (ex_kern fs) p)). fd_ino fd < 1"
  by (simp_all add: proc_ok_def ex_kern_def current_proc_def ex_sched_def proc_by_pid_def NPROC_MAX_def)

lemma ex_can_create:
  assumes "mounted fs" "room (kh fs) 2000"
  shows "can_create 64 0 (ex_vfs fs) (Mount 0x40 0 ramfs_driver [] []) ''tty''"
proof -
  have ok: "ramfs_ok 64 0 fs" "\<not> bt_full 0 (inodes_btree fs)"
      "dir_map (root_dir fs) = [''..'' \<mapsto> sb_root_ino fs, ''.'' \<mapsto> sb_root_ino fs]"
    using assms(1) by (simp_all add: mounted_def root_dir_def Let_def)
  have "dir_ok (root_dir fs)"
    using ramfs_okD(4) [OF ok(1) ramfs_okD(5,6) [OF ok(1)]] ramfs_okD(7) [OF ok(1)] by (simp add: inode_ok_def root_dir_def Let_def)
  then have "hash_unique (root_dir fs) ''tty''" using ok(3) hash_plain by (auto simp: hash_unique_dom)
  then show ?thesis
    using ok room_mono [OF assms(2), of 700] by (simp add: can_create_def ex_vfs_def component_def FS_SEP_def NUL_def)
qed

theorem file_round_trip_witness:
  "\<exists>fs fd k1 k2 k3 k4. mounted fs \<and> sys_open (ex_kern fs) (FS_SEP # ''tty'') (O_RDWR OR O_CREAT) = Some (fd, k1) \<and>
     sys_write k1 fd [7, 8, 9] = Some (3, k2) \<and> sys_lseek k2 fd 0 SEEK_SET = Some (0, k3) \<and>
     sys_read k3 fd 3 = Some (3, [7, 8, 9], k4)"
proof -
  obtain fs where fs: "mounted fs" "room (kh fs) 2000" "pm fs = pm ex_unmounted" using ex_mounted by blast
  let ?k = "ex_kern fs"
  have v: "kvfs ?k = ex_vfs fs" "fsys (ex_vfs fs) = fs" by (simp_all add: ex_kern_def ex_vfs_def)
  have l: "length [7, 8, 9 :: u8] = 3" by simp
  have um: "S_FMT (S_IFREG OR ps_umask (procs ?k 0x1000)) = S_IFREG" by (simp add: ex_kern_def S_FMT_def S_IFREG_def)
  have pm: "pmem_inv (pm fs)" "unat (theEdgeOfAllocatedMemory (pm fs)) \<le> 0x40000" "has_room fs (Suc (blocks_for 3))"
    by (simp_all add: fs(3) ex_unmounted_def big_pmem_def pmem_inv_def has_room_def blocks_for_def)
  show ?thesis
    using file_round_trip [OF ex_kern_ok(1,2) _ um, of 64 0 "Mount 0x40 0 ramfs_driver [] []" "''tty''" "[7, 8, 9]"]
      ex_can_create [OF fs(1,2)] pm fs(1) unfolding v l by fastforce
qed

text \<open>C39. Seeking in an open, seekable file goes where it is asked to: from the start, from the current position or, with
  offset 0, to the end.  A target within the file becomes the position and is returned; a target outside of it leaves the
  position at the nearer end of the file.  Nothing else changes, and an unknown \<^verbatim>\<open>whence\<close> is refused.\<close>

theorem sys_lseek_moves:
  assumes "proc_ok k p" "0 \<le> fd" "fd < 20" "f = get_fd k (p, nat fd)"
    and "fd_ino f \<noteq> 0" "0 \<le> fd_pos f" "fd_sb f = Some sb"
    and "vfs_inode_get (kvfs k) sb (fd_ino f) = (0, Some idata)" "not_seekable (kvfs k) idata = None"
    and "0 \<le> i_size idata" "i_size idata < 2 ^ 31" "whence = SEEK_END \<longrightarrow> offset = 0"
    and "t = seek_target (fd_pos f) (i_size idata) offset whence" "- (2 ^ 31) \<le> t" "t < 2 ^ 31"
  shows "if whence = BAD_WHENCE then sys_lseek k fd offset whence = Some (- errno_code EINVAL, k)
    else \<exists>ret k'. sys_lseek k fd offset whence = Some (ret, k') \<and>
      k' = upd_fd (p, nat fd) (fd_pos_update (\<lambda>_. max 0 (min t (i_size idata)))) k \<and>
      get_fd k' (p, nat fd) = f\<lparr>fd_pos := max 0 (min t (i_size idata))\<rparr> \<and>
      (0 \<le> t \<and> t \<le> i_size idata \<longrightarrow> ret = t)"
proof -
  note u = seek_open_pos [OF assms(1-9), of offset whence]
  have g: "get_fd (upd_fd (p, nat fd) h k) (p, nat fd) = h f" for h
    using assms(1-4) by (simp add: get_fd_upd proc_ok_def)
  have c: "seek_clamp idata t = max 0 (min t (i_size idata))" using assms(10) by (simp add: seek_clamp_def)
  have "seek_pos f idata offset whence = (if whence = BAD_WHENCE then None else Some t)"
    using off_t_id [OF assms(14,15)] assms(12,13) by (cases whence) (simp_all add: seek_pos_def)
  then show ?thesis unfolding u by (cases "whence = BAD_WHENCE") (simp_all add: c g)
qed

text \<open>A process with an open file of nine bytes.\<close>

definition ex_open :: "unit kern" where
  "ex_open = (ex_kern (ex_fs\<lparr>idatas := (\<lambda>_. zero_inode\<lparr>i_no := 1, i_mode := S_IFREG, i_size := 9\<rparr>)\<rparr>))\<lparr>procs := (\<lambda>_. (procs (ex_kern ex_fs) 0)\<lparr>ps_fds :=
     \<lparr>fd_sb = Some (Mount 0x40 0 ramfs_driver [] []), fd_ino = 1, fd_flags = O_RDWR, fd_pos = 0\<rparr> #
     replicate 19 \<lparr>fd_sb = None, fd_ino = 0, fd_flags = 0, fd_pos = 0\<rparr>\<rparr>)\<rparr>"

theorem sys_lseek_moves_witness:
  "\<exists>k'. sys_lseek ex_open 0 5 SEEK_SET = Some (5, k') \<and> fd_pos (get_fd k' (0x1000, 0)) = 5"
proof -
  let ?sb = "Mount 0x40 0 ramfs_driver [] []"
  have ok: "proc_ok ex_open 0x1000"
    by (simp add: proc_ok_def ex_open_def ex_kern_def current_proc_def ex_sched_def proc_by_pid_def NPROC_MAX_def)
  have f: "get_fd ex_open (0x1000, 0) = \<lparr>fd_sb = Some ?sb, fd_ino = 1, fd_flags = O_RDWR, fd_pos = 0\<rparr>"
    by (simp add: get_fd_def ex_open_def)
  have fs: "fsys (kvfs ex_open) = ex_fs\<lparr>idatas := (\<lambda>_. zero_inode\<lparr>i_no := 1, i_mode := S_IFREG, i_size := 9\<rparr>)\<rparr>" by (simp add: ex_open_def ex_kern_def ex_vfs_def)
  have g: "ramfs_inode_get (fsys (kvfs ex_open)) 1 = (0, Some (zero_inode\<lparr>i_no := 1, i_mode := S_IFREG, i_size := 9\<rparr>))"
    by (simp add: fs ramfs_inode_get_def ramfs_idata_by_inode_def btree_get_index_def ex_fs_def)
  have ns: "not_seekable (kvfs ex_open) (zero_inode\<lparr>i_no := 1, i_mode := S_IFREG, i_size := 9\<rparr>) = None"
    by (simp add: not_seekable_def S_FMT_def S_IFREG_def S_IFIFO_def S_IFSOCK_def S_IFDIR_def S_IFCHR_def)
  have vg: "vfs_inode_get (kvfs ex_open) ?sb 1 = (0, Some (zero_inode\<lparr>i_no := 1, i_mode := S_IFREG, i_size := 9\<rparr>))"
    by (simp add: vfs_inode_get_def g)
  show ?thesis
    using sys_lseek_moves [OF ok _ _ refl, of 0 ?sb "zero_inode\<lparr>i_no := 1, i_mode := S_IFREG, i_size := 9\<rparr>" SEEK_SET 5 5] f vg ns by simp
qed

end
