(* ===== verification/Kbd.thy ===== *)
theory Kbd
  imports Libc_String
begin

text \<open>
  The keyboard of \<^verbatim>\<open>src/dev/kbd.c\<close>: the scan code buffer, the state of the keys and the layout.  The handlers that the
  code installs are named by a datatype; \<^verbatim>\<open>Tty\<close> calls them.
\<close>

section \<open>State\<close>

datatype kbd_event_f = On_scan | Tty_keyboard_handler

record kbd =
  kb_head :: u8
  kb_tail :: u8
  kb_buf :: "u8 list"
  theKeyboard :: "bool list"
  on_press :: "kbd_event_f option"
  on_release :: "kbd_event_f option"
  kb_sc :: u8

definition CTRL_MOD :: nat where "CTRL_MOD = 0x1D"
definition KEY_COUNT :: nat where "KEY_COUNT = 128"
definition KBD_BUF_SIZE :: nat where "KBD_BUF_SIZE = 256"

section \<open>The buffer\<close>

definition kbd_buf_clear :: "kbd \<Rightarrow> kbd" where
  "kbd_buf_clear k = k\<lparr>kb_head := 0, kb_tail := 0\<rparr>"

definition kbd_pop_scancode :: "kbd \<Rightarrow> u8 \<times> kbd" where
  "kbd_pop_scancode k =
     (if kb_head k = kb_tail k then (0, k)
      else if unat (kb_tail k) \<noteq> KBD_BUF_SIZE - 1 then (kb_buf k ! unat (kb_tail k), k\<lparr>kb_tail := kb_tail k + 1\<rparr>)
      else (kb_buf k ! (KBD_BUF_SIZE - 1), k\<lparr>kb_tail := 0\<rparr>))"

definition next_circular :: "u8 \<Rightarrow> u8" where
  "next_circular v = (if unat v \<noteq> KBD_BUF_SIZE - 1 then v + 1 else 0)"

text \<open>The sum is computed as an \<^verbatim>\<open>int\<close>, so at the last index the full buffer is not noticed.\<close>

definition kbd_push_scancode :: "u8 \<Rightarrow> kbd \<Rightarrow> kbd" where
  "kbd_push_scancode scan_id k =
     (let k = (if unat (kb_tail k) = unat (kb_head k) + 1 then k\<lparr>kb_tail := next_circular (kb_tail k)\<rparr> else k);
          head = next_circular (kb_head k)
      in k\<lparr>kb_head := head, kb_buf := (kb_buf k)[unat head := scan_id]\<rparr>)"

section \<open>Layout\<close>

datatype scan_key = Key (sk_normal: u8) (sk_shift: u8) (sk_ctrl: u8)

definition qwerty_layout :: "scan_key list" where
  "qwerty_layout =
    [Key 0 0 0, Key 0 0 0, Key 49 33 0, Key 50 64 0,
     Key 51 35 0, Key 52 36 0, Key 53 37 0, Key 54 94 0,
     Key 55 38 0, Key 56 42 0, Key 57 40 0, Key 48 41 0,
     Key 45 95 0, Key 61 43 0, Key 8 8 0, Key 0 0 0,
     Key 113 81 16, Key 119 87 21, Key 101 69 5, Key 114 82 17,
     Key 116 84 19, Key 121 89 23, Key 117 85 20, Key 105 73 9,
     Key 111 79 14, Key 112 80 15, Key 91 123 0, Key 93 125 0,
     Key 10 10 0, Key 0 0 0, Key 97 65 1, Key 115 83 18,
     Key 100 68 4, Key 102 70 6, Key 103 71 7, Key 104 72 8,
     Key 106 74 10, Key 107 75 11, Key 108 76 12, Key 59 58 0,
     Key 39 34 0, Key 0 0 0, Key 0 0 0, Key 92 124 0,
     Key 122 90 24, Key 120 88 22, Key 99 67 3, Key 118 86 0,
     Key 98 66 2, Key 110 78 12, Key 109 77 13, Key 44 60 0,
     Key 46 62 0, Key 47 63 0, Key 0 0 0, Key 0 0 0,
     Key 0 0 0, Key 32 32 0]
    @ replicate 70 (Key 0 0 0)"

definition kbd_state_shift :: "kbd \<Rightarrow> bool" where
  "kbd_state_shift k \<longleftrightarrow> theKeyboard k ! 0x2A \<or> theKeyboard k ! 0x36"

definition kbd_state_ctrl :: "kbd \<Rightarrow> bool" where
  "kbd_state_ctrl k \<longleftrightarrow> theKeyboard k ! CTRL_MOD"

text \<open>\<open>None\<close> for a scan code past the keys.\<close>

definition kbd_state :: "u8 \<Rightarrow> kbd \<Rightarrow> bool option" where
  "kbd_state scan_id k = (if unat scan_id < KEY_COUNT then Some (theKeyboard k ! unat scan_id) else None)"

definition translate_from_scan :: "scan_key list option \<Rightarrow> u8 \<Rightarrow> kbd \<Rightarrow> u8" where
  "translate_from_scan layout scan_code k =
     (if scan_code AND 0x80 \<noteq> 0 then 0
      else let key = (case layout of None \<Rightarrow> qwerty_layout | Some l \<Rightarrow> l) ! unat scan_code
           in if kbd_state_ctrl k then sk_ctrl key else if kbd_state_shift k then sk_shift key else sk_normal key)"

section \<open>Events\<close>

definition on_scan :: "u8 \<Rightarrow> kbd \<Rightarrow> kbd" where
  "on_scan b k = k\<lparr>kb_sc := b\<rparr>"

definition kbd_set_onpress :: "kbd_event_f option \<Rightarrow> kbd \<Rightarrow> kbd" where
  "kbd_set_onpress f k = k\<lparr>on_press := f\<rparr>"

definition kbd_set_onrelease :: "kbd_event_f option \<Rightarrow> kbd \<Rightarrow> kbd" where
  "kbd_set_onrelease f k = k\<lparr>on_release := f\<rparr>"

text \<open>What the interrupt does to the keyboard, and the handler that it then calls with the scan code.\<close>

definition key_event :: "u8 \<Rightarrow> kbd \<Rightarrow> kbd \<times> kbd_event_f option" where
  "key_event scan_code k =
     (let k = kbd_push_scancode scan_code k in
      if scan_code AND 0x80 = 0 then (k\<lparr>theKeyboard := (theKeyboard k)[unat scan_code := True]\<rparr>, on_press k)
      else (k\<lparr>theKeyboard := (theKeyboard k)[unat (scan_code AND 0x7F) := False]\<rparr>, on_release k))"

definition kbd_setup :: "kbd \<Rightarrow> kbd" where
  "kbd_setup k = kbd_buf_clear (k\<lparr>theKeyboard := replicate KEY_COUNT False\<rparr>)"

section \<open>The state of the keys\<close>

text \<open>A key is down exactly when the last event with its code was a press.\<close>

fun key_down :: "nat \<Rightarrow> u8 list \<Rightarrow> bool" where
  "key_down key [] = False"
| "key_down key (e # es) = (if unat (e AND 0x7F) = key then e AND 0x80 = 0 else key_down key es)"

lemma low_seven: "(e :: u8) AND 0x80 = 0 \<Longrightarrow> e AND 0x7F = e" "unat (e AND 0x7F) < 128"
proof -
  have m: "(0x7F :: u8) = mask 7" "(0x80 :: u8) = push_bit 7 1" by (simp_all add: mask_eq_exp_minus_1)
  show "unat (e AND 0x7F) < 128" unfolding m unat_mask_and by simp
  show "e AND 0x7F = e" if "e AND 0x80 = 0"
  proof (rule bit_word_eqI)
    fix n assume n: "n < LENGTH(8)"
    have "\<not> bit e 7" using arg_cong [OF that, of "\<lambda>x. bit x 7"] unfolding m by (simp add: bit_simps)
    then show "bit (e AND 0x7F) n = bit e n" using n unfolding m by (cases "n = 7") (auto simp: bit_simps)
  qed
qed

lemma keys_tracked:
  "theKeyboard (fold (\<lambda>e k. fst (key_event e k)) es (kbd_setup k)) = map (\<lambda>key. key_down key (rev es)) [0..<128]"
proof (induction es rule: rev_induct)
  case Nil
  then show ?case by (simp add: kbd_setup_def kbd_buf_clear_def KEY_COUNT_def map_replicate_const)
next
  case (snoc e es)
  note l = low_seven [of e]
  have "theKeyboard (fst (key_event e q)) = (theKeyboard q)[unat (e AND 0x7F) := e AND 0x80 = 0]" for q
    using l(1) by (auto simp: key_event_def kbd_push_scancode_def Let_def)
  then show ?case using snoc l(2) by (auto simp: nth_list_update intro!: nth_equalityI)
qed

end
