(* ===== verification/Screen.thy ===== *)
theory Screen
  imports Cosec_Prelude "HOL-Library.Monad_Syntax"
begin

text \<open>
  The text consoles of \<^verbatim>\<open>src/dev/screen.c\<close>.  The array \<^verbatim>\<open>vcsa_buf\<close> of all consoles is a function from offsets, and
  what lies behind it is at the offsets past its end; so is the video memory.  \<open>None\<close> is a hanging processor or an
  access outside the array of cursors.
\<close>

section \<open>Consoles\<close>

definition SCR_WIDTH :: int where "SCR_WIDTH = 80"
definition SCR_HEIGHT :: int where "SCR_HEIGHT = 25"
definition TAB_INDENT :: int where "TAB_INDENT = 8"
definition N_VCSA_DEVICES :: int where "N_VCSA_DEVICES = 8"
definition CONSOLE_VCSA :: int where "CONSOLE_VCSA = 0"
definition VIDEOMEM_VCSA :: int where "VIDEOMEM_VCSA = 0x7f"
definition VCSA_DEFAULT_ATTRIBUTE :: u8 where "VCSA_DEFAULT_ATTRIBUTE = 7"
definition VCS_DO_NOT_MOVE :: int where "VCS_DO_NOT_MOVE = -1"

datatype vcsa_eraser = VCSA_ERASE_AFTER_CURSOR | VCSA_ERASE_BEFORE_CURSOR | VCSA_ERASE_WHOLE

record vcs =
  vc_line :: u32
  vc_col :: u32
  vc_attr :: u8

record screen =
  active_vcs :: int
  vcs_data :: "vcs list"
  vcsa_buf :: "nat \<Rightarrow> u8"
  videobuf :: "nat \<Rightarrow> u8"
  crt14 :: u8
  crt15 :: u8

definition GET_VCSA_BUF :: "int \<Rightarrow> nat" where
  "GET_VCSA_BUF n = nat (2 * SCR_WIDTH * SCR_HEIGHT * n)"

definition vcs_at :: "screen \<Rightarrow> int \<Rightarrow> vcs option" where
  "vcs_at sc vcsno = (if 0 \<le> vcsno \<and> vcsno < N_VCSA_DEVICES then Some (vcs_data sc ! nat vcsno) else None)"

definition upd_vcs :: "int \<Rightarrow> (vcs \<Rightarrow> vcs) \<Rightarrow> screen \<Rightarrow> screen" where
  "upd_vcs vcsno f sc = sc\<lparr>vcs_data := (vcs_data sc)[nat vcsno := f (vcs_data sc ! nat vcsno)]\<rparr>"

definition vcs_current :: "screen \<Rightarrow> int" where
  "vcs_current sc = active_vcs sc"

text \<open>The two bytes of the cursor's cell in the registers of the VGA controller.\<close>

definition move_hw_cursor :: "u32 \<Rightarrow> u32 \<Rightarrow> screen \<Rightarrow> screen" where
  "move_hw_cursor cursorX cursorY sc =
     (let temp = cursorY * 80 + cursorX in sc\<lparr>crt14 := ucast (drop_bit 8 temp), crt15 := ucast temp\<rparr>)"

definition clear_vga_sym :: "nat \<Rightarrow> u8 \<Rightarrow> (nat \<Rightarrow> u8) \<Rightarrow> nat \<Rightarrow> u8" where
  "clear_vga_sym p attr buf = buf(p := 0x20, p + 1 := attr)"

definition the_vcs :: "screen \<Rightarrow> int \<Rightarrow> int" where
  "the_vcs sc vcsno = (if vcsno = VIDEOMEM_VCSA then active_vcs sc else vcsno)"

text \<open>The number is tested after the bias is taken off, but the biased one is used.\<close>

definition vcsa_set_attribute :: "int \<Rightarrow> u8 \<Rightarrow> screen \<Rightarrow> screen option" where
  "vcsa_set_attribute vcsno attr sc =
     (let vcsno = the_vcs sc vcsno; vcsind = (if vcsno < 0x80 then vcsno else vcsno - 0x80) in
      if vcsind < 0 \<or> N_VCSA_DEVICES \<le> vcsind then Some sc
      else do { _ \<leftarrow> vcs_at sc vcsno; Some (upd_vcs vcsno (vc_attr_update (\<lambda>_. attr)) sc) })"

definition vcsa_get_attribute :: "int \<Rightarrow> screen \<Rightarrow> u8" where
  "vcsa_get_attribute vcsno sc =
     (let vcsno = the_vcs sc vcsno; vcsind = (if vcsno < 0x80 then vcsno else vcsno - 0x80)
      in case vcs_at sc vcsind of None \<Rightarrow> VCSA_DEFAULT_ATTRIBUTE | Some v \<Rightarrow> vc_attr v)"

definition vcsa_set_cursor :: "int \<Rightarrow> int \<Rightarrow> int \<Rightarrow> screen \<Rightarrow> screen option" where
  "vcsa_set_cursor vcsno x y sc =
     (let vcsno = the_vcs sc vcsno;
          x = (if x \<ge> SCR_WIDTH then SCR_WIDTH - 1 else x);
          y = (if y \<ge> SCR_HEIGHT then SCR_HEIGHT - 1 else y)
      in do { _ \<leftarrow> vcs_at sc vcsno;
              let sc = (if x \<ge> 0 then upd_vcs vcsno (vc_col_update (\<lambda>_. word_of_int x)) sc else sc);
              let sc = (if y \<ge> 0 then upd_vcs vcsno (vc_line_update (\<lambda>_. word_of_int y)) sc else sc);
              Some (if vcsno = active_vcs sc then move_hw_cursor (word_of_int x) (word_of_int y) sc else sc) })"

definition vcsa_get_cursor :: "int \<Rightarrow> screen \<Rightarrow> (int \<times> int) option" where
  "vcsa_get_cursor vcsno sc = map_option (\<lambda>v. (sint (vc_col v), sint (vc_line v))) (vcs_at sc (the_vcs sc vcsno))"

definition update_hw_cursor :: "screen \<Rightarrow> screen" where
  "update_hw_cursor sc = (let v = vcs_data sc ! nat (active_vcs sc) in move_hw_cursor (vc_col v) (vc_line v) sc)"

definition vcsa_refresh :: "screen \<Rightarrow> screen" where
  "vcsa_refresh sc =
     update_hw_cursor (sc\<lparr>videobuf := \<lambda>i. if i < nat (SCR_HEIGHT * SCR_WIDTH * 2)
                                            then vcsa_buf sc (GET_VCSA_BUF (active_vcs sc) + i) else videobuf sc i\<rparr>)"

definition if_active :: "int \<Rightarrow> (screen \<Rightarrow> screen) \<Rightarrow> screen \<Rightarrow> screen" where
  "if_active vcsno f sc = (if vcsno = active_vcs sc then f sc else sc)"

section \<open>Erasing and scrolling\<close>

definition erased :: "vcsa_eraser \<Rightarrow> bool \<Rightarrow> bool" where
  "erased method before = (if before then method \<noteq> VCSA_ERASE_AFTER_CURSOR else method \<noteq> VCSA_ERASE_BEFORE_CURSOR)"

definition vcsa_erase_line :: "int \<Rightarrow> vcsa_eraser \<Rightarrow> screen \<Rightarrow> screen option" where
  "vcsa_erase_line vcsno method sc =
     do { v \<leftarrow> vcs_at sc vcsno;
          let p = GET_VCSA_BUF vcsno + nat (2 * SCR_WIDTH * sint (vc_line v));
          let step = (\<lambda>buf j. if erased method (int j < sint (vc_col v)) then clear_vga_sym (p + 2 * j) (vc_attr v) buf else buf);
          Some (if_active vcsno vcsa_refresh (sc\<lparr>vcsa_buf := foldl step (vcsa_buf sc) [0..<nat SCR_WIDTH]\<rparr>)) }"

definition before_cursor :: "vcs \<Rightarrow> int \<Rightarrow> int \<Rightarrow> bool" where
  "before_cursor v i j =
     (if i < sint (vc_line v) then True else if i > sint (vc_line v) then False else j < sint (vc_col v))"

definition vcsa_erase_screen :: "int \<Rightarrow> vcsa_eraser \<Rightarrow> screen \<Rightarrow> screen option" where
  "vcsa_erase_screen vcsno method sc =
     do { v \<leftarrow> vcs_at sc vcsno;
          let p = GET_VCSA_BUF vcsno;
          let cell = (\<lambda>i buf j. if erased method (before_cursor v (int i) (int j))
                                then clear_vga_sym (p + 2 * (nat SCR_WIDTH * i + j)) (vc_attr v) buf else buf);
          let row = (\<lambda>buf i. foldl (cell i) buf [0..<nat SCR_WIDTH]);
          Some (if_active vcsno vcsa_refresh (sc\<lparr>vcsa_buf := foldl row (vcsa_buf sc) [0..<nat SCR_HEIGHT]\<rparr>)) }"

definition vcsa_clear :: "int \<Rightarrow> screen \<Rightarrow> screen option" where
  "vcsa_clear vcsno sc =
     (let vcsno = the_vcs sc vcsno in
      case vcs_at sc vcsno of
        None \<Rightarrow> Some sc
      | Some v \<Rightarrow>
          let sc = (if vc_attr v = 0 then upd_vcs vcsno (vc_attr_update (\<lambda>_. VCSA_DEFAULT_ATTRIBUTE)) sc else sc)
          in do { sc \<leftarrow> vcsa_erase_screen vcsno VCSA_ERASE_WHOLE sc;
                  sc \<leftarrow> vcsa_set_cursor vcsno 0 0 sc;
                  Some (if_active vcsno vcsa_refresh sc) })"

definition vcsa_switch :: "int \<Rightarrow> screen \<Rightarrow> screen" where
  "vcsa_switch vcsno sc =
     (if \<not> (0 \<le> vcsno \<and> vcsno < N_VCSA_DEVICES) then sc
      else if vcsno = active_vcs sc then sc
      else vcsa_refresh (sc\<lparr>active_vcs := vcsno\<rparr>))"

definition scroll_copy :: "nat \<Rightarrow> nat \<Rightarrow> (nat \<Rightarrow> u8) \<Rightarrow> nat \<Rightarrow> nat \<Rightarrow> u8" where
  "scroll_copy p d buf k = buf(p + 2 * k := buf (p + 2 * k + d), p + 2 * k + 1 := buf (p + 2 * k + d + 1))"

text \<open>More lines than the screen has are cleared past its end.\<close>

definition vcsa_scroll_lines :: "int \<Rightarrow> int \<Rightarrow> screen \<Rightarrow> screen option" where
  "vcsa_scroll_lines vcsno nlines sc =
     (let vcsno = the_vcs sc vcsno in
      do { v \<leftarrow> vcs_at sc vcsno;
           let p = GET_VCSA_BUF vcsno;
           let moved = nat (SCR_HEIGHT - nlines) * nat SCR_WIDTH;
           let buf = foldl (scroll_copy p (nat (2 * nlines * SCR_WIDTH))) (vcsa_buf sc) [0..<moved];
           let buf = foldl (\<lambda>buf k. clear_vga_sym (p + 2 * moved + 2 * k) (vc_attr v) buf) buf [0..<nat nlines * nat SCR_WIDTH];
           Some (if_active vcsno vcsa_refresh (sc\<lparr>vcsa_buf := buf\<rparr>)) })"

definition vcsa_scroll_line :: "int \<Rightarrow> screen \<Rightarrow> screen option" where
  "vcsa_scroll_line vcsno = vcsa_scroll_lines vcsno 1"

section \<open>Moving the cursor and printing\<close>

definition vcsa_move_cursor_by :: "int \<Rightarrow> int \<Rightarrow> int \<Rightarrow> screen \<Rightarrow> screen option" where
  "vcsa_move_cursor_by vcsno dx dy sc =
     (case vcs_at sc vcsno of
        None \<Rightarrow> Some sc
      | Some v \<Rightarrow>
          let ln = sint (vc_line v); col = sint (vc_col v);
              scr_ln = (if ln + dy \<ge> SCR_HEIGHT then ln + dy - (SCR_HEIGHT - 1) else 0);
              ln = (if ln + dy \<ge> SCR_HEIGHT then SCR_HEIGHT - 1 else if ln + dy < 0 then 0 else ln + dy);
              col = (if col + dx \<ge> SCR_WIDTH then SCR_WIDTH - 1 else if col + dx < 0 then 0 else col + dx);
              sc = upd_vcs vcsno (\<lambda>v. v\<lparr>vc_line := word_of_int ln, vc_col := word_of_int col\<rparr>) sc
          in if scr_ln \<noteq> 0 then vcsa_scroll_lines vcsno scr_ln sc else Some sc)"

definition vcsa_newline :: "int \<Rightarrow> screen \<Rightarrow> screen option" where
  "vcsa_newline vcsno sc =
     do { v \<leftarrow> vcs_at sc vcsno;
          let sc = upd_vcs vcsno (vc_col_update (\<lambda>_. 0)) sc;
          sc \<leftarrow> (if vc_line v + 1 < 25 then Some (upd_vcs vcsno (vc_line_update (\<lambda>_. vc_line v + 1)) sc)
                 else vcsa_scroll_line vcsno sc);
          Some (if_active vcsno update_hw_cursor sc) }"

definition vcsa_move_cursor_back :: "int \<Rightarrow> screen \<Rightarrow> screen option" where
  "vcsa_move_cursor_back vcsno sc =
     do { (x, y) \<leftarrow> vcsa_get_cursor vcsno sc;
          if y = 0 \<and> x = 0 then Some sc
          else if x = 0 then vcsa_set_cursor vcsno (SCR_WIDTH - 1) (y - 1) sc
          else vcsa_set_cursor vcsno (x - 1) y sc }"

definition vcsa_move_cursor_tabstop :: "int \<Rightarrow> screen \<Rightarrow> screen option" where
  "vcsa_move_cursor_tabstop vcsno sc =
     do { (x, y) \<leftarrow> vcsa_get_cursor vcsno sc;
          let x = TAB_INDENT * (1 + x div TAB_INDENT);
          vcsa_set_cursor vcsno (if x \<ge> SCR_WIDTH then SCR_WIDTH - 1 else x) y sc }"

definition vcsa_move_cursor_next :: "int \<Rightarrow> screen \<Rightarrow> screen option" where
  "vcsa_move_cursor_next vcsno sc =
     do { v \<leftarrow> vcs_at sc vcsno;
          sc \<leftarrow> (if vc_col v + 1 < 80 then Some (upd_vcs vcsno (vc_col_update (\<lambda>_. vc_col v + 1)) sc)
                 else vcsa_newline vcsno sc);
          Some (if_active vcsno update_hw_cursor sc) }"

definition vcsa_set_char :: "int \<Rightarrow> u8 \<Rightarrow> screen \<Rightarrow> screen option" where
  "vcsa_set_char vcsno c sc =
     (let vcsno = the_vcs sc vcsno in
      do { v \<leftarrow> vcs_at sc vcsno;
           let at = unat (2 * (80 * vc_line v + vc_col v));
           let p = GET_VCSA_BUF vcsno + at;
           let sc = sc\<lparr>vcsa_buf := (vcsa_buf sc)(p := c, p + 1 := vc_attr v)\<rparr>;
           Some (if_active vcsno (\<lambda>sc. sc\<lparr>videobuf := (videobuf sc)(at := vcsa_buf sc p, at + 1 := vcsa_buf sc (p + 1))\<rparr>) sc) })"

definition vcsa_cprint :: "int \<Rightarrow> u8 \<Rightarrow> screen \<Rightarrow> screen option" where
  "vcsa_cprint vcsno c sc =
     (let vcsno = the_vcs sc vcsno in
      do { _ \<leftarrow> vcs_at sc vcsno;
           sc \<leftarrow> vcsa_set_char vcsno c sc;
           vcsa_move_cursor_next vcsno sc })"

section \<open>Devices\<close>

text \<open>A line is in the video memory or at an offset from \<^verbatim>\<open>vcsa_buf\<close>.  The argument of the macro is not in parentheses,
  so the offset is not that of the console.\<close>

datatype vcs_line_at = In_video nat | In_buf nat

definition vcsa_lines :: int where "vcsa_lines = SCR_HEIGHT"
definition vcsa_linesize :: int where "vcsa_linesize = SCR_WIDTH * 2"

definition vcsa_devno :: "u32 \<Rightarrow> bool" where
  "vcsa_devno devno \<longleftrightarrow> \<not> (devno < 0x80 \<or> devno \<ge> 0x80 + 8)"

definition vcsa_get_line :: "u32 \<Rightarrow> int \<Rightarrow> vcs_line_at option" where
  "vcsa_get_line devno line =
     (if \<not> vcsa_devno devno then None
      else if line < 0 \<or> SCR_HEIGHT \<le> line then None
      else if devno = 0x80 then Some (In_video (nat (2 * SCR_WIDTH * line)))
      else Some (In_buf (unat (2 * 80 * 25 * devno - 0x80))))"

definition vcsa_get_roline :: "u32 \<Rightarrow> int \<Rightarrow> vcs_line_at option" where
  "vcsa_get_roline devno line = vcsa_get_line devno line"

definition vcsa_refresh_line :: "u32 \<Rightarrow> int \<Rightarrow> screen \<Rightarrow> int \<times> screen" where
  "vcsa_refresh_line devno line sc =
     (if \<not> vcsa_devno devno then (errno_code ENODEV, sc)
      else if line < 0 \<or> SCR_HEIGHT \<le> line then (errno_code ENXIO, sc)
      else if devno - 0x80 = word_of_int (active_vcs sc) then
        let bufoffset = nat (2 * SCR_WIDTH * line); bmem = unat (2 * 80 * 25 * devno - 0x80) + bufoffset
        in (0, sc\<lparr>videobuf := \<lambda>i. if bufoffset \<le> i \<and> i < bufoffset + nat (2 * SCR_WIDTH)
                                  then vcsa_buf sc (bmem + (i - bufoffset)) else videobuf sc i\<rparr>)
      else (0, sc))"

text \<open>Reading and writing the cells of a console from a position: the mode with attributes, the first byte and the
  number of bytes, or the error.\<close>

definition vcsa_range :: "u32 \<Rightarrow> u32 \<Rightarrow> u32 \<Rightarrow> int + (bool \<times> int \<times> u32 \<times> u32)" where
  "vcsa_range devno buflen pos =
     (let vcs_index = sint (if devno \<ge> 0x80 then devno - 0x80 else devno) in
      if vcs_index < 0 \<or> vcs_index \<ge> N_VCSA_DEVICES then Inl (errno_code ENODEV)
      else
        let vcsa_mode = (\<not> devno < 0x80);
            vpos = (if vcsa_mode then pos else 2 * pos)
        in if vpos > 4000 then Inl (errno_code ENXIO)
           else Inr (vcsa_mode, vcs_index, vpos,
                     if vcsa_mode then if vpos + buflen > 4000 then 4000 - vpos else buflen
                     else if pos + buflen > 2000 then 2000 - pos else buflen))"

definition cell_offset :: "bool \<Rightarrow> u32 \<Rightarrow> nat \<Rightarrow> nat" where
  "cell_offset vcsa_mode vpos k = unat vpos + (if vcsa_mode then k else 2 * k)"

definition vcsa_read :: "u32 \<Rightarrow> u32 \<Rightarrow> u32 \<Rightarrow> screen \<Rightarrow> int \<times> u8 list" where
  "vcsa_read devno buflen pos sc =
     (case vcsa_range devno buflen pos of
        Inl err \<Rightarrow> (err, [])
      | Inr (vcsa_mode, vcs_index, vpos, bytes_to_read) \<Rightarrow>
          let vbuf = (if vcs_index > 0 then videobuf sc else (\<lambda>i. vcsa_buf sc (GET_VCSA_BUF vcs_index + i)))
          in (0, map (\<lambda>k. vbuf (cell_offset vcsa_mode vpos k)) [0..<unat bytes_to_read]))"

definition vcsa_write :: "u32 \<Rightarrow> u8 list \<Rightarrow> u32 \<Rightarrow> screen \<Rightarrow> int \<times> nat \<times> screen" where
  "vcsa_write devno bs pos sc =
     (case vcsa_range devno (of_nat (length bs)) pos of
        Inl err \<Rightarrow> (err, 0, sc)
      | Inr (vcsa_mode, vcs_index, vpos, bytes_to_write) \<Rightarrow>
          let store = (\<lambda>base m k. m(base + cell_offset vcsa_mode vpos k := bs ! k));
              ks = [0..<unat bytes_to_write]
          in (0, unat bytes_to_write,
              if vcs_index > 0 then sc\<lparr>videobuf := foldl (store 0) (videobuf sc) ks\<rparr>
              else sc\<lparr>vcsa_buf := foldl (store (GET_VCSA_BUF vcs_index)) (vcsa_buf sc) ks\<rparr>))"

text \<open>The devices by their minor numbers: plain ones and, from 0x80, those with attributes.\<close>

definition get_vcs_device :: "u32 \<Rightarrow> (bool \<times> u32) option" where
  "get_vcs_device devno =
     (if devno < 8 then Some (False, devno)
      else if 0x80 \<le> devno \<and> devno < 0x80 + 8 then Some (True, devno - 0x80) else None)"

fun init_consoles :: "int list \<Rightarrow> screen \<Rightarrow> screen option" where
  "init_consoles [] sc = Some sc"
| "init_consoles (i # is) sc =
     (let sc = upd_vcs i (vc_attr_update (\<lambda>_. VCSA_DEFAULT_ATTRIBUTE)) sc in
      if i = active_vcs sc then
        init_consoles is (sc\<lparr>vcsa_buf := \<lambda>p. if GET_VCSA_BUF i \<le> p \<and> p < GET_VCSA_BUF i + nat (SCR_HEIGHT * SCR_WIDTH * 2)
                                             then videobuf sc (p - GET_VCSA_BUF i) else vcsa_buf sc p\<rparr>)
      else do { sc \<leftarrow> vcsa_clear i sc; init_consoles is sc })"

definition init_vcs_devices :: "screen \<Rightarrow> screen option" where
  "init_vcs_devices sc = init_consoles [0..N_VCSA_DEVICES - 1] (sc\<lparr>active_vcs := CONSOLE_VCSA\<rparr>)"

section \<open>The console of the kernel\<close>

definition cprint :: "u8 \<Rightarrow> screen \<Rightarrow> screen option" where
  "cprint c sc =
     do { sc \<leftarrow> (if c = 0x0A then vcsa_newline CONSOLE_VCSA sc
                 else if c = 0x0D then vcsa_set_cursor CONSOLE_VCSA 0 VCS_DO_NOT_MOVE sc
                 else if c = 0x09 then vcsa_move_cursor_tabstop CONSOLE_VCSA sc
                 else if c = 0x08 then vcsa_move_cursor_back CONSOLE_VCSA sc
                 else vcsa_cprint CONSOLE_VCSA c sc);
          Some (if_active CONSOLE_VCSA update_hw_cursor sc) }"

fun cprint_all :: "u8 list \<Rightarrow> screen \<Rightarrow> screen option" where
  "cprint_all [] sc = Some sc"
| "cprint_all (c # cs) sc = do { sc \<leftarrow> cprint c sc; cprint_all cs sc }"

text \<open>What \<^verbatim>\<open>k_vprintf\<close> does with the formatted text.\<close>

definition console_print :: "u8 list \<Rightarrow> screen \<Rightarrow> screen option" where
  "console_print s sc = do { sc \<leftarrow> cprint_all s sc; Some (if_active CONSOLE_VCSA vcsa_refresh sc) }"

end
