(* ===== verification/Tty.thy ===== *)
theory Tty
  imports Kbd Screen "HOL-Library.Monad_Syntax"
begin

text \<open>
  The terminals of \<^verbatim>\<open>src/dev/tty.c\<close> over the keyboard and the consoles.  Text to write is the memory from its first
  byte on, because escape sequences are read past its length.  \<open>None\<close> is a hanging processor, a null pointer that is
  read, or a copy outside the input queue.
\<close>

section \<open>State\<close>

definition MAX_TTY :: nat where "MAX_TTY = 64"
definition MAX_INPUT :: u32 where "MAX_INPUT = 512"

datatype tty_kbdmode = TTYKBD_RAW | TTYKBD_ANSI

record termios =
  c_iflag :: u32
  c_oflag :: u32
  c_cflag :: u32
  c_lflag :: u32
  c_cc :: "u8 list"
  c_ispeed :: u32
  c_ospeed :: u32

record tty_input_queue =
  q_start :: u32
  q_end :: u32
  q_buf :: "u8 list"

record tty_device =
  tty_kbmode :: tty_kbdmode
  tty_inpq :: tty_input_queue
  tty_conf :: termios
  tty_wx :: u16
  tty_wy :: u16
  tty_vcs :: u32
  tty_foreground_procgroup :: int

record terminals =
  trm_kbd :: kbd
  trm_scr :: screen
  theActiveTTY :: u32
  theTTYlist :: "tty_device option list"

definition ICANON :: u32 where "ICANON = 0x100"

definition stty_sane :: termios where
  "stty_sane = \<lparr>c_iflag = 0x100 OR 0x200 OR 0x800 OR 0x2000, c_oflag = 1 OR 2, c_cflag = 0x800 OR 0x300 OR 0x4000,
     c_lflag = ICANON OR 0x80 OR 0x400 OR 8 OR 2 OR 1 OR 0x40 OR 0x20000000,
     c_cc = (replicate 20 0)[0 := 0, 8 := 3], c_ispeed = 38400, c_ospeed = 38400\<rparr>"

section \<open>The input queue\<close>

text \<open>Bytes are added at \<^verbatim>\<open>start\<close> and taken at \<^verbatim>\<open>end\<close>.\<close>

definition small_memcpy :: "u8 list \<Rightarrow> nat \<Rightarrow> u8 list \<Rightarrow> u8 list" where
  "small_memcpy dst off src = foldl (\<lambda>d i. d[off + i := src ! i]) dst [0..<length src]"

definition tty_inpq_size :: "tty_input_queue \<Rightarrow> u32" where
  "tty_inpq_size q = (if q_start q < q_end q then (MAX_INPUT - q_start q) + q_end q else q_start q - q_end q)"

definition tty_inpq_at :: "tty_input_queue \<Rightarrow> u32 \<Rightarrow> u8" where
  "tty_inpq_at q index =
     (if q_start q + index < MAX_INPUT then q_buf q ! unat (q_start q + index)
      else q_buf q ! unat (index - (MAX_INPUT - q_start q)))"

definition byte_char :: "u8 \<Rightarrow> char" where
  "byte_char b = char_of (unat b)"

text \<open>The offset of a character in a range of the queue's buffer.\<close>

definition find_in :: "u8 list \<Rightarrow> u32 \<Rightarrow> u8 \<Rightarrow> int option" where
  "find_in bs n c =
     map_option (\<lambda>at. int (length bs - length at)) (strnchr (map byte_char bs) (sint n) (byte_char c))"

definition tty_inpq_strchr :: "tty_input_queue \<Rightarrow> u8 \<Rightarrow> int" where
  "tty_inpq_strchr q c =
     (if q_start q = q_end q then -1
      else
        let qend = drop (unat (q_end q)) (q_buf q) in
        if q_start q > q_end q then
          case find_in qend (q_start q - q_end q) c of None \<Rightarrow> -1 | Some at \<Rightarrow> at
        else
          let break_offset = MAX_INPUT - q_end q in
          case find_in qend break_offset c of
            Some at \<Rightarrow> at
          | None \<Rightarrow> (case find_in (q_buf q) (q_start q) c of Some at \<Rightarrow> at + sint break_offset | None \<Rightarrow> -1))"

definition tty_inpq_push :: "tty_input_queue \<Rightarrow> u8 list \<Rightarrow> bool \<times> tty_input_queue" where
  "tty_inpq_push q bs =
     (let start = q_start q; len = of_nat (length bs);
          put = (\<lambda>off bs q. q\<lparr>q_buf := small_memcpy (q_buf q) (unat off) bs\<rparr>)
      in if start < q_end q then
           if start + len + 1 \<ge> q_end q then (False, q)
           else (True, (put start bs q)\<lparr>q_start := start + len\<rparr>)
         else if start + len \<le> MAX_INPUT then
           let q = put start bs q; start = start + len in
           if start = MAX_INPUT \<and> q_end q = 0 then (False, q)
           else (True, q\<lparr>q_start := if start = MAX_INPUT then 0 else start\<rparr>)
         else
           let break_offset = MAX_INPUT - start in
           if len - break_offset + 1 \<ge> q_end q then (False, q)
           else (True, (put 0 (drop (unat break_offset) bs) (put start (take (unat break_offset) bs) q))
                   \<lparr>q_start := len - break_offset\<rparr>))"

fun tty_inpq_unpush :: "tty_input_queue \<Rightarrow> nat \<Rightarrow> bool \<times> tty_input_queue" where
  "tty_inpq_unpush q 0 = (True, q)"
| "tty_inpq_unpush q (Suc len) =
     (if q_start q = q_end q then (False, q)
      else tty_inpq_unpush (q\<lparr>q_start := (if q_start q = 0 then MAX_INPUT else q_start q) - 1\<rparr>) len)"

definition tty_inpq_pop :: "tty_input_queue \<Rightarrow> u32 \<Rightarrow> (u8 list \<times> tty_input_queue) option" where
  "tty_inpq_pop q len =
     (let start = q_start q; end1 = q_end q in
      if start = end1 then Some ([], q)
      else if end1 < start then
        let popped = (if len > start - end1 then end1 - start else len) in
        if unat end1 + unat popped > unat MAX_INPUT then None
        else Some (take (unat popped) (drop (unat end1) (q_buf q)), q\<lparr>q_end := end1 + popped\<rparr>)
      else
        let break_offset = MAX_INPUT - end1;
            popped = (if (MAX_INPUT - end1) + start < len then start + break_offset else len)
        in if popped < break_offset then None
           else Some (drop (unat end1) (q_buf q) @ take (unat (popped - break_offset)) (q_buf q), q\<lparr>q_end := break_offset\<rparr>))"

section \<open>Writing\<close>

definition ecma48_to_vga_color :: "u8 list" where
  "ecma48_to_vga_color = [0, 4, 2, 6, 1, 5, 3, 7]"

text \<open>The parameters are null pointers when they are missing; the default of the first one is 1, and then the pointer
  itself is read.\<close>

definition csi_erase :: "(vcsa_eraser \<Rightarrow> screen \<Rightarrow> screen option) \<Rightarrow> int option \<Rightarrow> screen \<Rightarrow> screen option" where
  "csi_erase erase a1 sc =
     (let arg1 = (case a1 of None \<Rightarrow> 1 | Some a \<Rightarrow> a) in
      if arg1 = 1 then
        case a1 of
          None \<Rightarrow> None
        | Some a \<Rightarrow> if a \<noteq> 0 then erase VCSA_ERASE_BEFORE_CURSOR sc else erase VCSA_ERASE_AFTER_CURSOR sc
      else if arg1 = 2 then erase VCSA_ERASE_WHOLE sc
      else Some sc)"

definition csi_graphic :: "int \<Rightarrow> int \<Rightarrow> screen \<Rightarrow> screen option" where
  "csi_graphic vcsno arg1 sc =
     (let attr = vcsa_get_attribute vcsno sc in
      if arg1 = 0 then vcsa_set_attribute vcsno VCSA_DEFAULT_ATTRIBUTE sc
      else if 30 \<le> arg1 \<and> arg1 \<le> 37 then
        vcsa_set_attribute vcsno ((attr AND 0xf0) OR ecma48_to_vga_color ! nat (arg1 - 30)) sc
      else if 40 \<le> arg1 \<and> arg1 \<le> 47 then
        vcsa_set_attribute vcsno ((attr AND 0x0f) OR push_bit 4 (ecma48_to_vga_color ! nat (arg1 - 40))) sc
      else Some sc)"

definition chr :: "char \<Rightarrow> u8" where
  "chr c = of_nat (of_char c)"

definition ecma48_csi :: "u8 \<Rightarrow> int \<Rightarrow> int option \<Rightarrow> int option \<Rightarrow> screen \<Rightarrow> screen option" where
  "ecma48_csi c vcsno a1 a2 sc =
     (let arg1 = (case a1 of None \<Rightarrow> 1 | Some a \<Rightarrow> a);
          arg2 = (case a2 of None \<Rightarrow> 1 | Some a \<Rightarrow> a)
      in if c = chr CHR ''A'' then vcsa_move_cursor_by vcsno 0 (- arg1) sc
         else if c = chr CHR ''B'' then vcsa_move_cursor_by vcsno 0 arg1 sc
         else if c = chr CHR ''D'' then vcsa_move_cursor_by vcsno (- arg1) 0 sc
         else if c = chr CHR ''C'' then vcsa_move_cursor_by vcsno arg1 0 sc
         else if c = chr CHR ''F'' then vcsa_move_cursor_by vcsno (- SCR_WIDTH) (- arg1) sc
         else if c = chr CHR ''E'' then vcsa_move_cursor_by vcsno (- SCR_WIDTH) arg1 sc
         else if c = chr CHR ''G'' then vcsa_set_cursor vcsno arg1 VCS_DO_NOT_MOVE sc
         else if c = chr CHR ''H'' then vcsa_set_cursor vcsno arg2 arg1 sc
         else if c = chr CHR ''J'' then csi_erase (vcsa_erase_screen vcsno) a1 sc
         else if c = chr CHR ''K'' then csi_erase (vcsa_erase_line vcsno) a1 sc
         else if c = chr CHR ''m'' then csi_graphic vcsno (case a1 of None \<Rightarrow> 0 | Some a \<Rightarrow> a) sc
         else Some sc)"

definition is_digit :: "u8 \<Rightarrow> bool" where
  "is_digit b \<longleftrightarrow> isdigit (sint b) \<noteq> 0"

text \<open>The digits of a parameter, in the arithmetic of \<^verbatim>\<open>int\<close>.  There is no end to them when all of memory is digits.\<close>

partial_function (option) csi_digits :: "(nat \<Rightarrow> u8) \<Rightarrow> nat \<Rightarrow> u32 \<Rightarrow> (u32 \<times> nat) option" where
  "csi_digits m s arg =
     (if is_digit (m s) then csi_digits m (s + 1) (arg * 10 + word_of_int (sint (m s) - 48)) else Some (arg, s))"

definition csi_sequence :: "(nat \<Rightarrow> u8) \<Rightarrow> int \<Rightarrow> nat \<Rightarrow> screen \<Rightarrow> (nat \<times> screen) option" where
  "csi_sequence m vcsno s sc =
     do { (a1, s) \<leftarrow> (if is_digit (m s) then map_option (\<lambda>(a, s). (Some (sint a), s)) (csi_digits m s 0) else Some (None, s));
          (a2, s) \<leftarrow> (if m s = chr CHR '';'' then map_option (\<lambda>(a, s). (Some (sint a), s)) (csi_digits m (s + 1) 0) else Some (None, s));
          sc \<leftarrow> ecma48_csi (m s) vcsno a1 a2 sc;
          Some (s, sc) }"

text \<open>An escape sequence from the byte after the escape; the position of its last byte.\<close>

definition esc_sequence :: "(nat \<Rightarrow> u8) \<Rightarrow> int \<Rightarrow> nat \<Rightarrow> screen \<Rightarrow> (nat \<times> screen) option" where
  "esc_sequence m vcsno s sc =
     (if m s = chr CHR ''c'' then map_option (Pair s) (vcsa_clear vcsno sc)
      else if m s = chr CHR ''D'' then map_option (Pair s) (vcsa_move_cursor_by vcsno 0 1 sc)
      else if m s = chr CHR ''E'' then map_option (Pair s) (vcsa_newline vcsno sc)
      else if m s = chr CHR ''M'' then map_option (Pair s) (vcsa_move_cursor_by vcsno 0 (-1) sc)
      else if m s = chr CHR ''['' then csi_sequence m vcsno (s + 1) sc
      else Some (s, sc))"

text \<open>A control character other than the escape.\<close>

definition control_char :: "int \<Rightarrow> u8 \<Rightarrow> screen \<Rightarrow> screen option" where
  "control_char vcsno c sc =
     (if c = 0x07 then Some sc
      else if c = 0x08 then do { sc \<leftarrow> vcsa_move_cursor_back vcsno sc; vcsa_set_char vcsno 0x20 sc }
      else if c = 0x09 then vcsa_move_cursor_tabstop vcsno sc
      else if c = 0x0a then vcsa_newline vcsno sc
      else if c = 0x0b \<or> c = 0x0c then vcsa_move_cursor_by vcsno 0 1 sc
      else if c = 0x0d then vcsa_set_cursor vcsno 0 VCS_DO_NOT_MOVE sc
      else if c = 0x7f then Some sc
      else do { sc \<leftarrow> vcsa_cprint vcsno (chr CHR ''^'') sc; vcsa_cprint vcsno (chr CHR ''@'' + c) sc })"

definition is_cntrl :: "u8 \<Rightarrow> bool" where
  "is_cntrl b \<longleftrightarrow> iscntrl (sint b) \<noteq> 0"

definition tty_put :: "(nat \<Rightarrow> u8) \<Rightarrow> int \<Rightarrow> nat \<Rightarrow> screen \<Rightarrow> (nat \<times> screen) option" where
  "tty_put m vcsno s sc =
     (if is_cntrl (m s) then
        if m s = 0x1b then esc_sequence m vcsno (s + 1) sc
        else map_option (Pair s) (control_char vcsno (m s) sc)
      else map_option (Pair s) (vcsa_cprint vcsno (m s) sc))"

partial_function (option) tty_write_loop :: "(nat \<Rightarrow> u8) \<Rightarrow> nat \<Rightarrow> int \<Rightarrow> nat \<Rightarrow> screen \<Rightarrow> screen option" where
  "tty_write_loop m buflen vcsno s sc =
     (if s < buflen then do { (s, sc) \<leftarrow> tty_put m vcsno s sc; tty_write_loop m buflen vcsno (s + 1) sc } else Some sc)"

definition dev_tty_write :: "tty_device \<Rightarrow> (nat \<Rightarrow> u8) \<Rightarrow> nat \<Rightarrow> screen \<Rightarrow> (int \<times> nat \<times> screen) option" where
  "dev_tty_write tty m buflen sc =
     (if tty_vcs tty \<ge> 8 then Some (errno_code ETODO, 0, sc)
      else do { sc \<leftarrow> tty_write_loop m buflen (int (unat (tty_vcs tty))) 0 sc; Some (0, buflen, sc) })"

definition get_tty_device :: "u32 \<Rightarrow> terminals \<Rightarrow> tty_device option" where
  "get_tty_device devno t = (if \<not> devno < 8 then None else theTTYlist t ! unat devno)"

definition tty_write :: "u32 \<Rightarrow> (nat \<Rightarrow> u8) \<Rightarrow> nat \<Rightarrow> terminals \<Rightarrow> (int \<times> terminals) option" where
  "tty_write ttyno m buflen t =
     (case get_tty_device ttyno t of
        None \<Rightarrow> Some (errno_code ENOENT, t)
      | Some tty \<Rightarrow> map_option (\<lambda>(ret, _, sc). (ret, t\<lparr>trm_scr := sc\<rparr>)) (dev_tty_write tty m buflen (trm_scr t)))"

section \<open>The keyboard\<close>

definition upd_tty :: "nat \<Rightarrow> (tty_device \<Rightarrow> tty_device) \<Rightarrow> terminals \<Rightarrow> terminals" where
  "upd_tty n f t = t\<lparr>theTTYlist := (theTTYlist t)[n := map_option f (theTTYlist t ! n)]\<rparr>"

definition tty_switch :: "u32 \<Rightarrow> terminals \<Rightarrow> terminals" where
  "tty_switch ttyno t =
     (if \<not> ttyno < 8 then t
      else t\<lparr>theActiveTTY := ttyno, trm_scr := vcsa_switch (int (unat ttyno)) (trm_scr t)\<rparr>)"

definition ecma48_code_from_scancode :: "u8 \<Rightarrow> kbd \<Rightarrow> u8 list" where
  "ecma48_code_from_scancode sc k = [translate_from_scan None sc k]"

text \<open>A character in canonical mode, which the code looks up in the wrong flags.\<close>

definition tty_edit :: "tty_device \<Rightarrow> nat \<Rightarrow> u8 list \<Rightarrow> terminals \<Rightarrow> terminals option" where
  "tty_edit tty n bs t =
     (let vcsno = int (unat (tty_vcs tty)) in
      if hd bs = 0x08 then
        let (ok, q) = tty_inpq_unpush (tty_inpq tty) 1; t = upd_tty n (tty_inpq_update (\<lambda>_. q)) t
        in if ok then map_option snd (tty_write (theActiveTTY t) (\<lambda>i. if i = 0 then 0x08 else 0) 1 t) else Some t
      else
        let (ok, q) = tty_inpq_push (tty_inpq tty) bs; t = upd_tty n (tty_inpq_update (\<lambda>_. q)) t
        in if hd bs = 0x0a then
             if ok then map_option (\<lambda>sc. t\<lparr>trm_scr := sc\<rparr>) (vcsa_newline vcsno (trm_scr t)) else Some t
           else if ok then map_option (\<lambda>sc. t\<lparr>trm_scr := sc\<rparr>) (vcsa_cprint vcsno (hd bs) (trm_scr t)) else Some t)"

definition tty_keyboard_handler :: "u8 \<Rightarrow> terminals \<Rightarrow> terminals option" where
  "tty_keyboard_handler sc t =
     (let n = unat (theActiveTTY t) in
      case theTTYlist t ! n of
        None \<Rightarrow> Some t
      | Some tty \<Rightarrow>
          if 0x3b \<le> sc \<and> sc \<le> 0x42 then Some (tty_switch (ucast (sc - 0x3b)) t)
          else
            (case tty_kbmode tty of
               TTYKBD_RAW \<Rightarrow> Some (upd_tty n (tty_inpq_update (\<lambda>q. snd (tty_inpq_push q [sc]))) t)
             | TTYKBD_ANSI \<Rightarrow>
                 let bs = ecma48_code_from_scancode sc (trm_kbd t) in
                 if hd bs = 0 then Some t
                 else if c_iflag (tty_conf tty) AND ICANON \<noteq> 0 then tty_edit tty n bs t else Some t))"

text \<open>The interrupt of the keyboard.\<close>

definition keyboard_irq :: "u8 \<Rightarrow> terminals \<Rightarrow> terminals option" where
  "keyboard_irq scan_code t =
     (let (k, handler) = key_event scan_code (trm_kbd t); t = t\<lparr>trm_kbd := k\<rparr>
      in case handler of
           None \<Rightarrow> Some t
         | Some On_scan \<Rightarrow> Some (t\<lparr>trm_kbd := on_scan scan_code k\<rparr>)
         | Some Tty_keyboard_handler \<Rightarrow> tty_keyboard_handler scan_code t)"

text \<open>The code waits for interrupts; \<open>irqs\<close> are the scan codes that arrive, and \<open>None\<close> also means that they were not
  enough.\<close>

fun wait_sc :: "u8 list \<Rightarrow> terminals \<Rightarrow> (terminals \<times> u8 list) option" where
  "wait_sc irqs t =
     (if kb_sc (trm_kbd t) \<noteq> 0 then Some (t, irqs)
      else case irqs of [] \<Rightarrow> None | i # irqs' \<Rightarrow> do { t \<leftarrow> keyboard_irq i t; wait_sc irqs' t })"

definition upd_kbd :: "(kbd \<Rightarrow> kbd) \<Rightarrow> terminals \<Rightarrow> terminals" where
  "upd_kbd f t = t\<lparr>trm_kbd := f (trm_kbd t)\<rparr>"

definition kbd_wait_scan :: "bool \<Rightarrow> u8 list \<Rightarrow> terminals \<Rightarrow> (u8 \<times> terminals \<times> u8 list) option" where
  "kbd_wait_scan release_too irqs t =
     do { let t = upd_kbd (kbd_set_onpress (Some On_scan)) t;
          let t = (if release_too then upd_kbd (kbd_set_onrelease (Some On_scan)) t else t);
          (t, irqs) \<leftarrow> wait_sc irqs (upd_kbd (kb_sc_update (\<lambda>_. 0)) t);
          let t = upd_kbd (kbd_set_onpress None) t;
          let t = (if release_too then upd_kbd (kbd_set_onrelease None) t else t);
          Some (kb_sc (trm_kbd t), t, irqs) }"

partial_function (option) kbd_getchar :: "u8 list \<Rightarrow> terminals \<Rightarrow> (u8 \<times> terminals \<times> u8 list) option" where
  "kbd_getchar irqs t =
     do { (sc, t, irqs) \<leftarrow> kbd_wait_scan False irqs t;
          let c = translate_from_scan None sc (trm_kbd t);
          if c = 0 then kbd_getchar irqs t else Some (c, t, irqs) }"

section \<open>Reading\<close>

fun wait_raw :: "nat \<Rightarrow> u8 list \<Rightarrow> terminals \<Rightarrow> (u32 \<times> terminals \<times> u8 list) option" where
  "wait_raw n irqs t =
     do { tty \<leftarrow> theTTYlist t ! n;
          let to_pop = tty_inpq_size (tty_inpq tty);
          if to_pop < 1 then (case irqs of [] \<Rightarrow> None | i # irqs' \<Rightarrow> do { t \<leftarrow> keyboard_irq i t; wait_raw n irqs' t })
          else Some (to_pop, t, irqs) }"

fun wait_line :: "nat \<Rightarrow> u8 list \<Rightarrow> terminals \<Rightarrow> (int \<times> terminals \<times> u8 list) option" where
  "wait_line n irqs t =
     do { tty \<leftarrow> theTTYlist t ! n;
          let eol_at = tty_inpq_strchr (tty_inpq tty) 0x0a;
          if eol_at \<ge> 0 then Some (eol_at, t, irqs)
          else (case irqs of [] \<Rightarrow> None | i # irqs' \<Rightarrow> do { t \<leftarrow> keyboard_irq i t; wait_line n irqs' t }) }"

definition pop_input :: "nat \<Rightarrow> u32 \<Rightarrow> terminals \<Rightarrow> (u8 list \<times> terminals) option" where
  "pop_input n to_pop t =
     do { tty \<leftarrow> theTTYlist t ! n;
          (bs, q) \<leftarrow> tty_inpq_pop (tty_inpq tty) to_pop;
          Some (bs, upd_tty n (tty_inpq_update (\<lambda>_. q)) t) }"

text \<open>The terminal is its number in the list.\<close>

definition dev_tty_read :: "nat \<Rightarrow> u32 \<Rightarrow> u8 list \<Rightarrow> terminals \<Rightarrow> (int \<times> u8 list \<times> terminals \<times> u8 list) option" where
  "dev_tty_read n buflen irqs t =
     do { tty \<leftarrow> theTTYlist t ! n;
          case tty_kbmode tty of
            TTYKBD_RAW \<Rightarrow>
              do { (to_pop, t, irqs) \<leftarrow> wait_raw n irqs t;
                   (bs, t) \<leftarrow> pop_input n (if buflen < to_pop then buflen else to_pop) t;
                   Some (0, bs, t, irqs) }
          | TTYKBD_ANSI \<Rightarrow>
              if c_iflag (tty_conf tty) AND ICANON \<noteq> 0 then
                do { (eol_at, t, irqs) \<leftarrow> wait_line n irqs t;
                     let to_pop = word_of_int eol_at + 1;
                     (bs, t) \<leftarrow> pop_input n (if to_pop > buflen then buflen else to_pop) t;
                     Some (0, bs, t, irqs) }
              else Some (0, [], t, irqs) }"

definition tty_read :: "u32 \<Rightarrow> u32 \<Rightarrow> u8 list \<Rightarrow> terminals \<Rightarrow> (int \<times> u8 list \<times> terminals \<times> u8 list) option" where
  "tty_read ttyno buflen irqs t =
     (case get_tty_device ttyno t of
        None \<Rightarrow> Some (errno_code ENOENT, [], t, irqs)
      | Some _ \<Rightarrow> dev_tty_read (unat ttyno) buflen irqs t)"

definition dev_tty_has_data :: bool where
  "dev_tty_has_data = False"

section \<open>Control and set-up\<close>

datatype tty_ioctl_op = KDGKBMODE | KDSKBMODE | UNKNOWN_OP

definition kbmode_code :: "tty_kbdmode \<Rightarrow> u32" where
  "kbmode_code m = (case m of TTYKBD_RAW \<Rightarrow> 0 | TTYKBD_ANSI \<Rightarrow> 1)"

text \<open>The argument is a pointer, which may be null.\<close>

definition dev_tty_ioctl :: "nat \<Rightarrow> tty_ioctl_op \<Rightarrow> u32 option \<Rightarrow> terminals \<Rightarrow> (int \<times> u32 option \<times> terminals) option" where
  "dev_tty_ioctl n op ret t =
     do { tty \<leftarrow> theTTYlist t ! n;
          Some (case (op, ret) of
                  (KDGKBMODE, Some _) \<Rightarrow> (0, Some (kbmode_code (tty_kbmode tty)), t)
                | (KDSKBMODE, Some r) \<Rightarrow>
                    if r = 0 then (0, ret, upd_tty n (tty_kbmode_update (\<lambda>_. TTYKBD_RAW)) t)
                    else if r = 1 then (0, ret, upd_tty n (tty_kbmode_update (\<lambda>_. TTYKBD_ANSI)) t)
                    else (errno_code EINVAL, ret, t)
                | _ \<Rightarrow> (errno_code EINVAL, ret, t)) }"

definition tty_ioctl :: "u32 \<Rightarrow> tty_ioctl_op \<Rightarrow> u32 option \<Rightarrow> terminals \<Rightarrow> (int \<times> u32 option \<times> terminals) option" where
  "tty_ioctl ttyno op arg t =
     (case get_tty_device ttyno t of None \<Rightarrow> Some (errno_code ENOENT, arg, t) | Some _ \<Rightarrow> dev_tty_ioctl (unat ttyno) op arg t)"

definition tty_set_foreground_procgroup :: "u32 \<Rightarrow> int \<Rightarrow> terminals \<Rightarrow> int \<times> terminals" where
  "tty_set_foreground_procgroup ttyno pg t =
     (case get_tty_device ttyno t of
        None \<Rightarrow> (errno_code ENOENT, t)
      | Some _ \<Rightarrow> (0, upd_tty (unat ttyno) (tty_foreground_procgroup_update (\<lambda>_. pg)) t))"

text \<open>\<open>vcs_tty\<close> are the structures before the set-up, whose other members it keeps.\<close>

definition init_tty :: "tty_device \<Rightarrow> nat \<Rightarrow> tty_device" where
  "init_tty tty i = tty\<lparr>tty_vcs := of_nat i, tty_conf := stty_sane, tty_kbmode := TTYKBD_ANSI, tty_wx := 80, tty_wy := 25,
     tty_inpq := (tty_inpq tty)\<lparr>q_start := 0, q_end := 0\<rparr>\<rparr>"

definition init_tty_family :: "tty_device list \<Rightarrow> terminals \<Rightarrow> terminals" where
  "init_tty_family vcs_tty t =
     t\<lparr>theActiveTTY := 0,
       theTTYlist := foldl (\<lambda>l i. l[i := Some (init_tty (vcs_tty ! i) i)]) (theTTYlist t) [0..<8]\<rparr>"

end
