(* ===== verification/Screen_Spec.thy ===== *)
theory Screen_Spec
  imports Screen
begin

text \<open>
  The operations on a console implement those of an abstract text screen, keep the display in step with the active
  console and leave the other consoles alone.
\<close>

section \<open>The abstract text screen\<close>

record text_screen =
  tx_rows :: "(u8 \<times> u8) list list"
  tx_ln :: nat
  tx_col :: nat
  tx_attr :: u8

definition t_put :: "u8 \<Rightarrow> text_screen \<Rightarrow> text_screen" where
  "t_put c t = t\<lparr>tx_rows := (tx_rows t)[tx_ln t := (tx_rows t ! tx_ln t)[tx_col t := (c, tx_attr t)]]\<rparr>"

definition t_scroll :: "nat \<Rightarrow> text_screen \<Rightarrow> text_screen" where
  "t_scroll k t = t\<lparr>tx_rows := drop k (tx_rows t) @ replicate k (replicate 80 (0x20, tx_attr t))\<rparr>"

definition t_newline :: "text_screen \<Rightarrow> text_screen" where
  "t_newline t =
     (let t = t\<lparr>tx_col := 0\<rparr> in if tx_ln t + 1 < 25 then t\<lparr>tx_ln := tx_ln t + 1\<rparr> else t_scroll 1 t)"

definition t_next :: "text_screen \<Rightarrow> text_screen" where
  "t_next t = (if tx_col t + 1 < 80 then t\<lparr>tx_col := tx_col t + 1\<rparr> else t_newline t)"

definition t_back :: "text_screen \<Rightarrow> text_screen" where
  "t_back t =
     (if tx_ln t = 0 \<and> tx_col t = 0 then t
      else if tx_col t = 0 then t\<lparr>tx_ln := tx_ln t - 1, tx_col := 79\<rparr> else t\<lparr>tx_col := tx_col t - 1\<rparr>)"

definition t_tab :: "text_screen \<Rightarrow> text_screen" where
  "t_tab t = t\<lparr>tx_col := min 79 (8 * (1 + tx_col t div 8))\<rparr>"

definition t_move :: "int \<Rightarrow> int \<Rightarrow> text_screen \<Rightarrow> text_screen" where
  "t_move dx dy t =
     (let l = int (tx_ln t) + dy; c = int (tx_col t) + dx;
          t = t\<lparr>tx_ln := nat (max 0 (min 24 l)), tx_col := nat (max 0 (min 79 c))\<rparr>
      in if l \<ge> 25 then t_scroll (nat (l - 24)) t else t)"

definition t_before :: "text_screen \<Rightarrow> nat \<Rightarrow> nat \<Rightarrow> bool" where
  "t_before t i j \<longleftrightarrow> i < tx_ln t \<or> i = tx_ln t \<and> j < tx_col t"

definition t_erase :: "(nat \<Rightarrow> nat \<Rightarrow> bool) \<Rightarrow> text_screen \<Rightarrow> text_screen" where
  "t_erase P t = t\<lparr>tx_rows := map (\<lambda>i. map (\<lambda>j. if P i j then (0x20, tx_attr t) else tx_rows t ! i ! j) [0..<80]) [0..<25]\<rparr>"

definition t_clear :: "text_screen \<Rightarrow> text_screen" where
  "t_clear t =
     (let t = (if tx_attr t = 0 then t\<lparr>tx_attr := 7\<rparr> else t) in (t_erase (\<lambda>_ _. True) t)\<lparr>tx_ln := 0, tx_col := 0\<rparr>)"

section \<open>Representation\<close>

definition rows_of :: "(nat \<Rightarrow> u8) \<Rightarrow> nat \<Rightarrow> (u8 \<times> u8) list list" where
  "rows_of buf p = map (\<lambda>i. map (\<lambda>j. (buf (p + 2 * (80 * i + j)), buf (p + 2 * (80 * i + j) + 1))) [0..<80]) [0..<25]"

definition text_of :: "screen \<Rightarrow> nat \<Rightarrow> text_screen" where
  "text_of sc n =
     (let v = vcs_data sc ! n
      in \<lparr>tx_rows = rows_of (vcsa_buf sc) (4000 * n), tx_ln = unat (vc_line v), tx_col = unat (vc_col v), tx_attr = vc_attr v\<rparr>)"

definition screen_ok :: "screen \<Rightarrow> bool" where
  "screen_ok sc \<longleftrightarrow> length (vcs_data sc) = 8 \<and>
     (\<forall>n < 8. unat (vc_line (vcs_data sc ! n)) < 25 \<and> unat (vc_col (vcs_data sc ! n)) < 80) \<and>
     0 \<le> active_vcs sc \<and> active_vcs sc < 8 \<and>
     (\<forall>i < 4000. videobuf sc i = vcsa_buf sc (4000 * nat (active_vcs sc) + i))"

definition only :: "nat \<Rightarrow> screen \<Rightarrow> screen \<Rightarrow> bool" where
  "only n sc sc' \<longleftrightarrow> active_vcs sc' = active_vcs sc \<and>
     (\<forall>m. m \<noteq> n \<longrightarrow> vcs_data sc' ! m = vcs_data sc ! m) \<and>
     (\<forall>p. p < 4000 * n \<or> 4000 * n + 4000 \<le> p \<longrightarrow> vcsa_buf sc' p = vcsa_buf sc p)"

definition refines :: "nat \<Rightarrow> (screen \<Rightarrow> screen option) \<Rightarrow> (text_screen \<Rightarrow> text_screen) \<Rightarrow> bool" where
  "refines n f g \<longleftrightarrow> (\<forall>sc. screen_ok sc \<longrightarrow>
     (\<exists>sc'. f sc = Some sc' \<and> screen_ok sc' \<and> text_of sc' n = g (text_of sc n) \<and> only n sc sc'))"

lemma only_refl: "only n sc sc"
  by (simp add: only_def)

lemma only_trans: "only n a b \<Longrightarrow> only n b c \<Longrightarrow> only n a c"
  by (auto simp: only_def)

lemma refines_Some: "refines n Some (\<lambda>t. t)"
  by (simp add: refines_def only_refl)

lemma refines_bind: "refines n f g \<Longrightarrow> refines n f' g' \<Longrightarrow> refines n (\<lambda>sc. do { sc \<leftarrow> f sc; f' sc }) (\<lambda>t. g' (g t))"
  unfolding refines_def by (fastforce intro: only_trans)

lemma screen_okD:
  assumes "screen_ok sc" "n < 8"
  shows "unat (vc_line (vcs_data sc ! n)) < 25" "unat (vc_col (vcs_data sc ! n)) < 80"
    "vcs_at sc (int n) = Some (vcs_data sc ! n)" "the_vcs sc (int n) = int n" "n < length (vcs_data sc)"
  using assms by (auto simp: screen_ok_def vcs_at_def the_vcs_def VIDEOMEM_VCSA_def N_VCSA_DEVICES_def)

lemma GET_VCSA_BUF_nat [simp]: "GET_VCSA_BUF (int n) = 4000 * n"
  by (simp add: GET_VCSA_BUF_def SCR_WIDTH_def SCR_HEIGHT_def nat_mult_distrib)

lemma rows_length [simp]: "length (rows_of buf p) = 25" "i < 25 \<Longrightarrow> length (rows_of buf p ! i) = 80"
  by (simp_all add: rows_of_def)

lemma rows_nth: "i < 25 \<Longrightarrow> j < 80 \<Longrightarrow>
    rows_of buf p ! i ! j = (buf (p + 2 * (80 * i + j)), buf (p + 2 * (80 * i + j) + 1))"
  by (simp add: rows_of_def)

lemma rows_eqI:
  assumes "length R = 25" "\<And>i. i < 25 \<Longrightarrow> length (R ! i) = 80"
    and "\<And>i j. i < 25 \<Longrightarrow> j < 80 \<Longrightarrow> R ! i ! j = (buf (p + 2 * (80 * i + j)), buf (p + 2 * (80 * i + j) + 1))"
  shows "rows_of buf p = R"
  by (rule nth_equalityI, simp add: assms(1), rule nth_equalityI) (simp_all add: assms rows_nth)

lemma cell_bound: "i < 25 \<Longrightarrow> j < 80 \<Longrightarrow> 2 * (80 * i + j) + 1 < (4000 :: nat)"
  by arith

lemma cell_inj: "j < 80 \<Longrightarrow> l < 80 \<Longrightarrow> 80 * i + j = 80 * k + l \<longleftrightarrow> i = k \<and> j = (l :: nat)"
  by (cases i k rule: linorder_cases) linarith+

text \<open>A state that differs in the cursor and in the bytes of one console.\<close>

lemma only_upd: "only n sc (sc\<lparr>vcs_data := (vcs_data sc)[n := v]\<rparr>)"
  by (simp add: only_def)

section \<open>Characters\<close>

lemma console_inj: "i < 4000 \<Longrightarrow> q < 4000 \<Longrightarrow> 4000 * a + i = 4000 * n + q \<longleftrightarrow> a = n \<and> i = (q :: nat)"
  by (cases a n rule: linorder_cases) linarith+

text \<open>A new buffer for one console, with the display refreshed when it is the active one.\<close>

definition shown :: "nat \<Rightarrow> (nat \<Rightarrow> u8) \<Rightarrow> screen \<Rightarrow> screen \<Rightarrow> bool" where
  "shown n buf sc sc' \<longleftrightarrow> vcsa_buf sc' = buf \<and> vcs_data sc' = vcs_data sc \<and> active_vcs sc' = active_vcs sc \<and>
     (\<forall>i < 4000. videobuf sc' i = (if active_vcs sc = int n then buf (4000 * n + i) else videobuf sc i))"

lemma shown_ok:
  assumes "screen_ok sc" "n < 8" "shown n buf sc sc'"
    and "\<And>q. q < 4000 * n \<or> 4000 * n + 4000 \<le> q \<Longrightarrow> buf q = vcsa_buf sc q"
  shows "screen_ok sc'" "only n sc sc'" "text_of sc' n = (text_of sc n)\<lparr>tx_rows := rows_of buf (4000 * n)\<rparr>"
proof -
  define a where "a = nat (active_vcs sc)"
  have a: "active_vcs sc = int a" "a < 8" using assms(1) by (auto simp: screen_ok_def a_def)
  have "buf (4000 * a + i) = vcsa_buf sc (4000 * a + i)" if "i < 4000" "a \<noteq> n" for i
    using that by (intro assms(4)) (cases a n rule: linorder_cases; linarith)
  then show "screen_ok sc'" using assms(1,3) a by (auto simp: screen_ok_def shown_def)
  show "only n sc sc'" using assms(3,4) by (auto simp: only_def shown_def)
  show "text_of sc' n = (text_of sc n)\<lparr>tx_rows := rows_of buf (4000 * n)\<rparr>"
    using assms(3) by (simp add: text_of_def shown_def Let_def)
qed

lemma refines_shown:
  assumes "n < 8" and "\<And>sc. screen_ok sc \<Longrightarrow> \<exists>buf sc'. f sc = Some sc' \<and> shown n buf sc sc' \<and>
      (\<forall>q. q < 4000 * n \<or> 4000 * n + 4000 \<le> q \<longrightarrow> buf q = vcsa_buf sc q) \<and>
      (text_of sc n)\<lparr>tx_rows := rows_of buf (4000 * n)\<rparr> = g (text_of sc n)"
  shows "refines n f g"
  unfolding refines_def
proof (intro allI impI)
  fix sc assume ok: "screen_ok sc"
  obtain buf sc' where b: "f sc = Some sc'" "shown n buf sc sc'" "\<forall>q. q < 4000 * n \<or> 4000 * n + 4000 \<le> q \<longrightarrow> buf q = vcsa_buf sc q"
      "(text_of sc n)\<lparr>tx_rows := rows_of buf (4000 * n)\<rparr> = g (text_of sc n)"
    using assms(2) [OF ok] by blast
  note s = shown_ok [OF ok assms(1) b(2) b(3) [rule_format]]
  show "\<exists>sc'. f sc = Some sc' \<and> screen_ok sc' \<and> text_of sc' n = g (text_of sc n) \<and> only n sc sc'"
    using b(1) s b(4) by auto
qed

lemma at_unat:
  assumes "screen_ok sc" "n < 8"
  shows "unat (2 * (80 * vc_line (vcs_data sc ! n) + vc_col (vcs_data sc ! n))) =
    2 * (80 * unat (vc_line (vcs_data sc ! n)) + unat (vc_col (vcs_data sc ! n)))"
  using screen_okD(1,2) [OF assms] by (simp add: unat_add_nowrap unat_mult_nowrap)

lemma cell_double: "p + 2 * a = p + 2 * b \<longleftrightarrow> a = (b :: nat)"
  by simp

lemma cell_parity: "p + 2 * a \<noteq> p + 2 * b + (1 :: nat)"
  by arith

lemma rows_put:
  assumes "i0 < 25" "j0 < 80"
  shows "rows_of (buf(p + 2 * (80 * i0 + j0) := c, p + 2 * (80 * i0 + j0) + 1 := d)) p =
    (rows_of buf p)[i0 := (rows_of buf p ! i0)[j0 := (c, d)]]"
proof (rule rows_eqI)
  fix i j :: nat assume ij: "i < 25" "j < 80"
  have e: "p + 2 * (80 * i + j) = p + 2 * (80 * i0 + j0) \<longleftrightarrow> i = i0 \<and> j = j0"
    unfolding cell_inj [OF ij(2) assms(2), of i i0, symmetric] by (rule cell_double)
  note o = cell_parity [of p "80 * i + j" "80 * i0 + j0"] cell_parity [of p "80 * i0 + j0" "80 * i + j", symmetric]
  show "(rows_of buf p)[i0 := (rows_of buf p ! i0)[j0 := (c, d)]] ! i ! j =
      ((buf(p + 2 * (80 * i0 + j0) := c, p + 2 * (80 * i0 + j0) + 1 := d)) (p + 2 * (80 * i + j)),
       (buf(p + 2 * (80 * i0 + j0) := c, p + 2 * (80 * i0 + j0) + 1 := d)) (p + 2 * (80 * i + j) + 1))"
    using ij assms e o by (auto simp: rows_nth nth_list_update simp del: mult_Suc_right distrib_left_numeral)
qed (use assms in \<open>auto simp: nth_list_update\<close>)

lemma refines_set_char: "n < 8 \<Longrightarrow> refines n (vcsa_set_char (int n) c) (t_put c)"
proof (rule refines_shown)
  fix sc assume n: "n < 8" and ok: "screen_ok sc"
  let ?v = "vcs_data sc ! n"
  define at where "at = 2 * (80 * unat (vc_line ?v) + unat (vc_col ?v))"
  define buf where "buf = (vcsa_buf sc)(4000 * n + at := c, 4000 * n + at + 1 := vc_attr ?v)"
  note d = screen_okD [OF ok n]
  have b: "at + 1 < 4000" unfolding at_def by (rule cell_bound [OF d(1,2)])
  obtain sc' where s: "vcsa_set_char (int n) c sc = Some sc'" "shown n buf sc sc'"
  proof
    show "vcsa_set_char (int n) c sc =
        Some (if_active (int n) (\<lambda>sc. sc\<lparr>videobuf := (videobuf sc)(at := buf (4000 * n + at), at + 1 := buf (4000 * n + at + 1))\<rparr>)
          (sc\<lparr>vcsa_buf := buf\<rparr>))"
      unfolding vcsa_set_char_def Let_def d(3,4) bind.bind_lunit at_unat [OF ok n] at_def [symmetric] GET_VCSA_BUF_nat buf_def
      by (simp add: if_active_def)
    show "shown n buf sc (if_active (int n) (\<lambda>sc. sc\<lparr>videobuf := (videobuf sc)(at := buf (4000 * n + at), at + 1 := buf (4000 * n + at + 1))\<rparr>)
          (sc\<lparr>vcsa_buf := buf\<rparr>))"
      using ok by (auto simp: shown_def if_active_def screen_ok_def buf_def) (metis nat_int)
  qed
  have "(text_of sc n)\<lparr>tx_rows := rows_of buf (4000 * n)\<rparr> = t_put c (text_of sc n)"
    unfolding buf_def at_def rows_put [OF d(1,2)] by (simp add: t_put_def text_of_def Let_def)
  moreover have "\<forall>q. q < 4000 * n \<or> 4000 * n + 4000 \<le> q \<longrightarrow> buf q = vcsa_buf sc q" using b by (auto simp: buf_def)
  ultimately show "\<exists>buf sc'. vcsa_set_char (int n) c sc = Some sc' \<and> shown n buf sc sc' \<and>
      (\<forall>q. q < 4000 * n \<or> 4000 * n + 4000 \<le> q \<longrightarrow> buf q = vcsa_buf sc q) \<and>
      (text_of sc n)\<lparr>tx_rows := rows_of buf (4000 * n)\<rparr> = t_put c (text_of sc n)"
    using s by blast
qed

section \<open>Cursors\<close>

text \<open>An operation that changes the cursor only, and perhaps the registers of the display.\<close>

definition hw_eq :: "screen \<Rightarrow> screen \<Rightarrow> bool" where
  "hw_eq sc sc' \<longleftrightarrow> (\<exists>h l. sc' = sc\<lparr>crt14 := h, crt15 := l\<rparr>)"

lemma hw_eq_intros:
  "hw_eq sc sc" "hw_eq sc (move_hw_cursor x y sc)" "hw_eq sc (update_hw_cursor sc)" "hw_eq sc (if_active m update_hw_cursor sc)"
proof -
  show self: "hw_eq sc sc" unfolding hw_eq_def by (intro exI [of _ "crt14 sc"] exI [of _ "crt15 sc"]) simp
  show "hw_eq sc (move_hw_cursor x y sc)" by (auto simp: hw_eq_def move_hw_cursor_def Let_def)
  show "hw_eq sc (update_hw_cursor sc)" by (auto simp: hw_eq_def update_hw_cursor_def move_hw_cursor_def Let_def)
  then show "hw_eq sc (if_active m update_hw_cursor sc)" using self by (simp add: if_active_def)
qed

lemma hw_eqD: "hw_eq sc sc' \<Longrightarrow> screen_ok sc' = screen_ok sc \<and> text_of sc' m = text_of sc m \<and> only n sc sc'"
  by (auto simp: hw_eq_def screen_ok_def text_of_def only_def)

lemma refines_hw:
  assumes "refines n f g" "\<And>sc. hw_eq sc (h sc)"
  shows "refines n (\<lambda>sc. do { sc \<leftarrow> f sc; Some (h sc) }) g"
  unfolding refines_def
proof (intro allI impI)
  fix sc assume "screen_ok sc"
  then obtain sc' where "f sc = Some sc'" "screen_ok sc'" "text_of sc' n = g (text_of sc n)" "only n sc sc'"
    using assms(1) unfolding refines_def by blast
  then show "\<exists>sc'. (do { sc \<leftarrow> f sc; Some (h sc) }) = Some sc' \<and> screen_ok sc' \<and> text_of sc' n = g (text_of sc n) \<and> only n sc sc'"
    using hw_eqD [OF assms(2) [of sc']] by (auto intro: only_trans)
qed

lemma cursor_ok:
  assumes "screen_ok sc" "n < 8" "unat l < 25" "unat c < 80"
  shows "screen_ok (upd_vcs (int n) (\<lambda>v. v\<lparr>vc_line := l, vc_col := c\<rparr>) sc)"
    "text_of (upd_vcs (int n) (\<lambda>v. v\<lparr>vc_line := l, vc_col := c\<rparr>) sc) n = (text_of sc n)\<lparr>tx_ln := unat l, tx_col := unat c\<rparr>"
    "only n sc (upd_vcs (int n) f sc)"
  using assms by (auto simp: screen_ok_def upd_vcs_def text_of_def Let_def only_def nth_list_update)

lemma unat_word_of_int: "0 \<le> z \<Longrightarrow> z < 2 ^ 32 \<Longrightarrow> unat (word_of_int z :: u32) = nat z"
  using take_bit_int_eq_self [of z 32] by (simp add: unat_eq_nat_uint uint_word_of_int_eq)

lemma sint_small: "unat (w :: u32) < 80 \<Longrightarrow> sint w = int (unat w)"
  by (simp add: sint_u32)

lemma refines_cursor:
  assumes n: "n < 8" and f: "\<And>sc. screen_ok sc \<Longrightarrow> \<exists>l c sc'. f sc = Some sc' \<and> hw_eq (upd_vcs (int n) (\<lambda>v. v\<lparr>vc_line := l, vc_col := c\<rparr>) sc) sc' \<and>
      unat l < 25 \<and> unat c < 80 \<and> (text_of sc n)\<lparr>tx_ln := unat l, tx_col := unat c\<rparr> = g (text_of sc n)"
  shows "refines n f g"
  unfolding refines_def
proof (intro allI impI)
  fix sc assume ok: "screen_ok sc"
  obtain l c sc' where r: "f sc = Some sc'" "hw_eq (upd_vcs (int n) (\<lambda>v. v\<lparr>vc_line := l, vc_col := c\<rparr>) sc) sc'"
      "unat l < 25" "unat c < 80" "(text_of sc n)\<lparr>tx_ln := unat l, tx_col := unat c\<rparr> = g (text_of sc n)"
    using f [OF ok] by blast
  note k = cursor_ok(1,2) [OF ok n r(3,4)] cursor_ok(3) [OF ok n r(3,4), of "\<lambda>v. v\<lparr>vc_line := l, vc_col := c\<rparr>"]
  show "\<exists>sc'. f sc = Some sc' \<and> screen_ok sc' \<and> text_of sc' n = g (text_of sc n) \<and> only n sc sc'"
    using r(1,5) k hw_eqD [OF r(2), of n n] by (auto intro: only_trans)
qed

lemma vcs_eqs:
  "(v :: vcs)\<lparr>vc_col := c, vc_line := l\<rparr> = v\<lparr>vc_line := l, vc_col := c\<rparr>" "v\<lparr>vc_line := vc_line v, vc_col := c\<rparr> = v\<lparr>vc_col := c\<rparr>"
  "v\<lparr>vc_line := l, vc_col := vc_col v\<rparr> = v\<lparr>vc_line := l\<rparr>" "v\<lparr>vc_line := vc_line v, vc_col := vc_col v\<rparr> = v"
  by (cases v; simp)+

lemma upd_vcs_cursor:
  assumes "n < length (vcs_data sc)"
  shows "upd_vcs (int n) (vc_line_update (\<lambda>_. l)) (upd_vcs (int n) (vc_col_update (\<lambda>_. c)) sc) =
      upd_vcs (int n) (\<lambda>v. v\<lparr>vc_line := l, vc_col := c\<rparr>) sc"
    "upd_vcs (int n) (vc_col_update (\<lambda>_. c)) sc = upd_vcs (int n) (\<lambda>v. v\<lparr>vc_line := vc_line (vcs_data sc ! n), vc_col := c\<rparr>) sc"
    "upd_vcs (int n) (vc_line_update (\<lambda>_. l)) sc = upd_vcs (int n) (\<lambda>v. v\<lparr>vc_line := l, vc_col := vc_col (vcs_data sc ! n)\<rparr>) sc"
    "upd_vcs (int n) (\<lambda>v. v\<lparr>vc_line := vc_line (vcs_data sc ! n), vc_col := vc_col (vcs_data sc ! n)\<rparr>) sc = sc"
  unfolding upd_vcs_def nat_int vcs_eqs using assms by (simp_all add: vcs_eqs)

lemma refines_set_cursor:
  assumes n: "n < 8"
  shows "refines n (vcsa_set_cursor (int n) x y)
    (\<lambda>t. t\<lparr>tx_ln := if y < 0 then tx_ln t else nat (min y 24), tx_col := if x < 0 then tx_col t else nat (min x 79)\<rparr>)"
proof (rule refines_cursor [OF n])
  fix sc assume ok: "screen_ok sc"
  let ?v = "vcs_data sc ! n"
  let ?l = "if y < 0 then vc_line ?v else word_of_int (min y 24)" and ?c = "if x < 0 then vc_col ?v else word_of_int (min x 79)"
  note d = screen_okD [OF ok n]
  obtain sc' where s: "vcsa_set_cursor (int n) x y sc = Some sc'" "hw_eq (upd_vcs (int n) (\<lambda>v. v\<lparr>vc_line := ?l, vc_col := ?c\<rparr>) sc) sc'"
  proof
    define x' y' where "x' = min x 79" and "y' = min y 24"
    define s1 where "s1 = (if x' \<ge> 0 then upd_vcs (int n) (vc_col_update (\<lambda>_. word_of_int x')) sc else sc)"
    define s2 where "s2 = (if y' \<ge> 0 then upd_vcs (int n) (vc_line_update (\<lambda>_. word_of_int y')) s1 else s1)"
    have m: "(if x \<ge> 80 then 80 - 1 else x) = x'" "(if y \<ge> 25 then 25 - 1 else y) = y'" by (simp_all add: x'_def y'_def)
    show "vcsa_set_cursor (int n) x y sc =
        Some (if int n = active_vcs s2 then move_hw_cursor (word_of_int x') (word_of_int y') s2 else s2)"
      unfolding vcsa_set_cursor_def Let_def d(3,4) bind.bind_lunit SCR_WIDTH_def SCR_HEIGHT_def m s1_def [symmetric] s2_def [symmetric] ..
    have "s2 = upd_vcs (int n) (\<lambda>v. v\<lparr>vc_line := ?l, vc_col := ?c\<rparr>) sc"
      using upd_vcs_cursor [OF d(5)] by (cases "x < 0"; cases "y < 0") (simp_all add: s1_def s2_def x'_def y'_def)
    then show "hw_eq (upd_vcs (int n) (\<lambda>v. v\<lparr>vc_line := ?l, vc_col := ?c\<rparr>) sc)
        (if int n = active_vcs s2 then move_hw_cursor (word_of_int x') (word_of_int y') s2 else s2)"
      using hw_eq_intros(1,2) [of s2] by simp
  qed
  have "unat ?l = (if y < 0 then unat (vc_line ?v) else nat (min y 24))" "unat ?c = (if x < 0 then unat (vc_col ?v) else nat (min x 79))"
    by (auto simp: unat_word_of_int)
  then show "\<exists>l c sc'. vcsa_set_cursor (int n) x y sc = Some sc' \<and> hw_eq (upd_vcs (int n) (\<lambda>v. v\<lparr>vc_line := l, vc_col := c\<rparr>) sc) sc' \<and>
      unat l < 25 \<and> unat c < 80 \<and> (text_of sc n)\<lparr>tx_ln := unat l, tx_col := unat c\<rparr> =
        (text_of sc n)\<lparr>tx_ln := if y < 0 then tx_ln (text_of sc n) else nat (min y 24), tx_col := if x < 0 then tx_col (text_of sc n) else nat (min x 79)\<rparr>"
    using s d(1,2) by (intro exI [of _ ?l] exI [of _ ?c] exI [of _ sc']) (auto simp: text_of_def Let_def)
qed

section \<open>Scrolling\<close>

lemma scroll_fold:
  "0 < d \<Longrightarrow> foldl (scroll_copy p d) buf [0..<k] = (\<lambda>q. if p \<le> q \<and> q < p + 2 * k then buf (q + d) else buf q)"
proof (induction k)
  case (Suc k)
  have "q = p + 2 * k \<or> q = p + 2 * k + 1 \<longleftrightarrow> p \<le> q \<and> q < p + 2 * Suc k \<and> \<not> q < p + 2 * k" for q by auto
  then show ?case using Suc by (auto simp: scroll_copy_def fun_eq_iff)
qed (auto simp: fun_eq_iff)

lemma clear_fold:
  "foldl (\<lambda>buf k. clear_vga_sym (p + 2 * k) a buf) buf [0..<k] =
    (\<lambda>q. if p \<le> q \<and> q < p + 2 * k then if even (q - p) then 0x20 else a else buf q)"
proof (induction k)
  case (Suc k)
  have f: "foldl (\<lambda>buf k. clear_vga_sym (p + 2 * k) a buf) buf [0..<Suc k] =
      clear_vga_sym (p + 2 * k) a (\<lambda>q. if p \<le> q \<and> q < p + 2 * k then if even (q - p) then 0x20 else a else buf q)"
    by (simp add: Suc)
  show ?case
    unfolding f
  proof
    fix q
    consider "q = p + 2 * k" | "q = p + 2 * k + 1" | "q \<noteq> p + 2 * k" "q \<noteq> p + 2 * k + 1" by blast
    then show "clear_vga_sym (p + 2 * k) a (\<lambda>q. if p \<le> q \<and> q < p + 2 * k then if even (q - p) then 0x20 else a else buf q) q =
        (if p \<le> q \<and> q < p + 2 * Suc k then if even (q - p) then 0x20 else a else buf q)"
    proof cases
      case 3
      then have "q < p + 2 * Suc k \<longleftrightarrow> q < p + 2 * k" by auto
      then show ?thesis using 3 by (simp add: clear_vga_sym_def)
    qed (simp_all add: clear_vga_sym_def)
  qed
qed (auto simp: fun_eq_iff)

lemma refresh_shown:
  assumes "vcs_data sc' = vcs_data sc" "active_vcs sc' = active_vcs sc" "videobuf sc' = videobuf sc"
  shows "shown n (vcsa_buf sc') sc (if_active (int n) vcsa_refresh sc')"
  using assms
  by (auto simp: shown_def if_active_def vcsa_refresh_def update_hw_cursor_def move_hw_cursor_def Let_def SCR_WIDTH_def SCR_HEIGHT_def
      simp flip: GET_VCSA_BUF_nat)

lemma scrolled_rows:
  assumes "0 < m" "m \<le> 25"
  shows "rows_of (\<lambda>q. if p + 2 * ((25 - m) * 80) \<le> q \<and> q < p + 2 * ((25 - m) * 80) + 2 * (m * 80)
        then if even (q - (p + 2 * ((25 - m) * 80))) then 0x20 else a
        else if p \<le> q \<and> q < p + 2 * ((25 - m) * 80) then buf (q + 160 * m) else buf q) p =
    drop m (rows_of buf p) @ replicate m (replicate 80 (0x20, a))" (is "rows_of ?b p = ?R")
proof (rule rows_eqI)
  fix i j :: nat assume ij: "i < 25" "j < 80"
  define c M where "c = 80 * i + j" and "M = (25 - m) * 80"
  show "?R ! i ! j = (?b (p + 2 * (80 * i + j)), ?b (p + 2 * (80 * i + j) + 1))"
  proof (cases "i < 25 - m")
    case True
    then have "80 * i + j < (25 - m) * 80" using ij by arith
    then have c: "c < M" by (simp add: c_def M_def)
    have b: "?b (p + 2 * c) = buf (p + 2 * c + 160 * m)" "?b (p + 2 * c + 1) = buf (p + 2 * c + 1 + 160 * m)"
      unfolding M_def [symmetric] using c by simp_all
    have "p + 2 * c + 160 * m = p + 2 * (80 * (i + m) + j)" by (simp add: c_def)
    then have "?b (p + 2 * (80 * i + j)) = buf (p + 2 * (80 * (i + m) + j))" "?b (p + 2 * (80 * i + j) + 1) = buf (p + 2 * (80 * (i + m) + j) + 1)"
      using b unfolding c_def [symmetric] by (simp_all add: add.commute add.left_commute)
    then show ?thesis using True ij by (simp add: nth_append rows_nth add.commute [of m])
  next
    case False
    define k where "k = c - M"
    have k: "c = M + k" "k < m * 80" using False ij assms by (simp_all add: k_def c_def M_def)
    then have "?b (p + 2 * (80 * i + j)) = 0x20" "?b (p + 2 * (80 * i + j) + 1) = a"
      unfolding c_def [symmetric] M_def [symmetric] k(1) by simp_all
    then show ?thesis using False ij assms by (simp add: nth_append)
  qed
qed (use assms in \<open>auto simp: nth_append\<close>)

lemma refines_scroll:
  assumes n: "n < 8" and m: "0 < m" "m \<le> 25"
  shows "refines n (vcsa_scroll_lines (int n) (int m)) (t_scroll m)"
proof (rule refines_shown [OF n])
  fix sc assume ok: "screen_ok sc"
  note d = screen_okD [OF ok n]
  define M where "M = (25 - m) * 80"
  define buf where "buf = (\<lambda>q. if 4000 * n + 2 * M \<le> q \<and> q < 4000 * n + 2 * M + 2 * (m * 80)
      then if even (q - (4000 * n + 2 * M)) then 0x20 else vc_attr (vcs_data sc ! n)
      else if 4000 * n \<le> q \<and> q < 4000 * n + 2 * M then vcsa_buf sc (q + 160 * m) else vcsa_buf sc q)"
  have e: "nat (2 * int m * 80) = 160 * m" "nat (25 - int m) * nat 80 = M" "nat (int m) * nat 80 = m * 80"
    by (simp_all add: M_def nat_diff_distrib nat_mult_distrib)
  have "vcsa_scroll_lines (int n) (int m) sc = Some (if_active (int n) vcsa_refresh (sc\<lparr>vcsa_buf := buf\<rparr>))"
    unfolding vcsa_scroll_lines_def Let_def d(3,4) bind.bind_lunit GET_VCSA_BUF_nat SCR_WIDTH_def SCR_HEIGHT_def e clear_fold
    using m(1) by (simp only: scroll_fold buf_def mult_pos_pos zero_less_numeral)
  moreover have "shown n buf sc (if_active (int n) vcsa_refresh (sc\<lparr>vcsa_buf := buf\<rparr>))"
    using refresh_shown [of "sc\<lparr>vcsa_buf := buf\<rparr>" sc n] by simp
  moreover have "M + m * 80 = 2000" using m by (simp add: M_def diff_mult_distrib)
  then have "\<forall>q. q < 4000 * n \<or> 4000 * n + 4000 \<le> q \<longrightarrow> buf q = vcsa_buf sc q" by (auto simp: buf_def)
  moreover have "(text_of sc n)\<lparr>tx_rows := rows_of buf (4000 * n)\<rparr> = t_scroll m (text_of sc n)"
    unfolding buf_def M_def scrolled_rows [OF m] by (simp add: t_scroll_def text_of_def Let_def)
  ultimately show "\<exists>buf sc'. vcsa_scroll_lines (int n) (int m) sc = Some sc' \<and> shown n buf sc sc' \<and>
      (\<forall>q. q < 4000 * n \<or> 4000 * n + 4000 \<le> q \<longrightarrow> buf q = vcsa_buf sc q) \<and>
      (text_of sc n)\<lparr>tx_rows := rows_of buf (4000 * n)\<rparr> = t_scroll m (text_of sc n)"
    by blast
qed

lemma refinesD:
  assumes "refines n f g" "screen_ok sc"
  obtains sc' where "f sc = Some sc'" "screen_ok sc'" "text_of sc' n = g (text_of sc n)" "only n sc sc'"
  using assms unfolding refines_def by blast

text \<open>Moving the cursor first and going on from there.\<close>

lemma refines_after_cursor:
  assumes n: "n < 8" and ok: "screen_ok sc" and lc: "unat l < 25" "unat c < 80" and f: "refines n f g"
    and e: "r = f (upd_vcs (int n) (\<lambda>v. v\<lparr>vc_line := l, vc_col := c\<rparr>) sc)"
  shows "\<exists>sc'. r = Some sc' \<and> screen_ok sc' \<and> text_of sc' n = g ((text_of sc n)\<lparr>tx_ln := unat l, tx_col := unat c\<rparr>) \<and> only n sc sc'"
proof -
  note k = cursor_ok(1,2) [OF ok n lc] cursor_ok(3) [OF ok n lc, of "\<lambda>v. v\<lparr>vc_line := l, vc_col := c\<rparr>"]
  obtain sc' where "f (upd_vcs (int n) (\<lambda>v. v\<lparr>vc_line := l, vc_col := c\<rparr>) sc) = Some sc'" "screen_ok sc'"
      "text_of sc' n = g (text_of (upd_vcs (int n) (\<lambda>v. v\<lparr>vc_line := l, vc_col := c\<rparr>) sc) n)"
      "only n (upd_vcs (int n) (\<lambda>v. v\<lparr>vc_line := l, vc_col := c\<rparr>) sc) sc'"
    using refinesD [OF f k(1)] by blast
  then show ?thesis using k(2,3) e by (auto intro: only_trans)
qed

lemma refines_newline:
  assumes n: "n < 8"
  shows "refines n (vcsa_newline (int n)) t_newline"
  unfolding refines_def
proof (intro allI impI)
  fix sc assume ok: "screen_ok sc"
  note d = screen_okD [OF ok n]
  let ?v = "vcs_data sc ! n"
  have up: "unat (vc_line ?v + 1) = unat (vc_line ?v) + 1" using d(1) by (simp add: unat_add_nowrap)
  note hw = hw_eq_intros(4) [of _ "int n"]
  have s1: "upd_vcs (int n) (vc_line_update (\<lambda>_. l)) (upd_vcs (int n) (vc_col_update (\<lambda>_. 0)) sc) =
      upd_vcs (int n) (\<lambda>v. v\<lparr>vc_line := l, vc_col := 0\<rparr>) sc" for l by (rule upd_vcs_cursor(1) [OF d(5)])
  show "\<exists>sc'. vcsa_newline (int n) sc = Some sc' \<and> screen_ok sc' \<and> text_of sc' n = t_newline (text_of sc n) \<and> only n sc sc'"
  proof (cases "unat (vc_line ?v) + 1 < 25")
    case True
    then have "vcsa_newline (int n) sc =
        (\<lambda>sc. do { sc \<leftarrow> Some sc; Some (if_active (int n) update_hw_cursor sc) }) (upd_vcs (int n) (\<lambda>v. v\<lparr>vc_line := vc_line ?v + 1, vc_col := 0\<rparr>) sc)"
      unfolding vcsa_newline_def Let_def d(3) bind.bind_lunit s1 by (simp add: word_less_nat_alt up)
    from refines_after_cursor [OF n ok _ _ refines_hw [OF refines_Some hw] this] show ?thesis
      using True up by (simp add: t_newline_def text_of_def Let_def)
  next
    case False
    then have "vcsa_newline (int n) sc = (\<lambda>sc. do { sc \<leftarrow> vcsa_scroll_lines (int n) (int 1) sc; Some (if_active (int n) update_hw_cursor sc) })
        (upd_vcs (int n) (\<lambda>v. v\<lparr>vc_line := vc_line ?v, vc_col := 0\<rparr>) sc)"
      unfolding vcsa_newline_def Let_def d(3) bind.bind_lunit upd_vcs_cursor(2) [OF d(5)] vcsa_scroll_line_def
      by (simp add: word_less_nat_alt up)
    from refines_after_cursor [OF n ok _ _ refines_hw [OF refines_scroll [OF n] hw] this] show ?thesis
      using False d(1) by (simp add: t_newline_def text_of_def Let_def)
  qed
qed

lemma refines_next:
  assumes n: "n < 8"
  shows "refines n (vcsa_move_cursor_next (int n)) t_next"
  unfolding refines_def
proof (intro allI impI)
  fix sc assume ok: "screen_ok sc"
  note d = screen_okD [OF ok n]
  let ?v = "vcs_data sc ! n"
  have up: "unat (vc_col ?v + 1) = unat (vc_col ?v) + 1" using d(2) by (simp add: unat_add_nowrap)
  note hw = hw_eq_intros(4) [of _ "int n"]
  show "\<exists>sc'. vcsa_move_cursor_next (int n) sc = Some sc' \<and> screen_ok sc' \<and> text_of sc' n = t_next (text_of sc n) \<and> only n sc sc'"
  proof (cases "unat (vc_col ?v) + 1 < 80")
    case True
    then have "vcsa_move_cursor_next (int n) sc =
        (\<lambda>sc. do { sc \<leftarrow> Some sc; Some (if_active (int n) update_hw_cursor sc) }) (upd_vcs (int n) (\<lambda>v. v\<lparr>vc_line := vc_line ?v, vc_col := vc_col ?v + 1\<rparr>) sc)"
      unfolding vcsa_move_cursor_next_def d(3) bind.bind_lunit upd_vcs_cursor(2) [OF d(5)] by (simp add: word_less_nat_alt up)
    from refines_after_cursor [OF n ok _ _ refines_hw [OF refines_Some hw] this] show ?thesis
      using True up d(1) by (simp add: t_next_def text_of_def Let_def)
  next
    case False
    then have "vcsa_move_cursor_next (int n) sc = (do { sc \<leftarrow> vcsa_newline (int n) sc; Some (if_active (int n) update_hw_cursor sc) })"
      unfolding vcsa_move_cursor_next_def d(3) bind.bind_lunit by (simp add: word_less_nat_alt up)
    moreover have "t_next (text_of sc n) = t_newline (text_of sc n)" using False by (simp add: t_next_def text_of_def Let_def)
    ultimately show ?thesis using refines_hw [OF refines_newline [OF n] hw] ok unfolding refines_def by simp
  qed
qed

lemma refines_cong: "refines n f g \<Longrightarrow> (\<And>sc. screen_ok sc \<Longrightarrow> h sc = f sc) \<Longrightarrow> refines n h g"
  by (simp add: refines_def)

lemma refines_cprint:
  assumes n: "n < 8"
  shows "refines n (vcsa_cprint (int n) c) (\<lambda>t. t_next (t_put c t))"
proof (rule refines_cong [OF refines_bind [OF refines_set_char [OF n] refines_next [OF n]]])
  fix sc assume "screen_ok sc"
  from screen_okD(3,4) [OF this n]
  show "vcsa_cprint (int n) c sc = do { sc \<leftarrow> vcsa_set_char (int n) c sc; vcsa_move_cursor_next (int n) sc }"
    by (simp add: vcsa_cprint_def Let_def)
qed

lemma get_cursor:
  assumes "screen_ok sc" "n < 8"
  shows "vcsa_get_cursor (int n) sc = Some (int (tx_col (text_of sc n)), int (tx_ln (text_of sc n)))"
    "tx_col (text_of sc n) < 80" "tx_ln (text_of sc n) < 25"
  using screen_okD [OF assms] by (simp_all add: vcsa_get_cursor_def sint_small text_of_def Let_def)

lemma refines_set_cursor_at:
  assumes n: "n < 8" and ok: "screen_ok sc" and r: "r = vcsa_set_cursor (int n) (int x) (int y) sc" and "x < 80" "y < 25"
  shows "\<exists>sc'. r = Some sc' \<and> screen_ok sc' \<and> text_of sc' n = (text_of sc n)\<lparr>tx_ln := y, tx_col := x\<rparr> \<and> only n sc sc'"
  using refinesD [OF refines_set_cursor [OF n, of "int x" "int y"] ok] assms(4,5) unfolding r by fastforce

lemma refines_back:
  assumes n: "n < 8"
  shows "refines n (vcsa_move_cursor_back (int n)) t_back"
  unfolding refines_def
proof (intro allI impI)
  fix sc assume ok: "screen_ok sc"
  let ?t = "text_of sc n"
  note g = get_cursor [OF ok n]
  consider "tx_ln ?t = 0" "tx_col ?t = 0" | "tx_ln ?t \<noteq> 0" "tx_col ?t = 0" | "tx_col ?t \<noteq> 0" by blast
  then show "\<exists>sc'. vcsa_move_cursor_back (int n) sc = Some sc' \<and> screen_ok sc' \<and> text_of sc' n = t_back ?t \<and> only n sc sc'"
  proof cases
    case 1
    then show ?thesis using ok by (simp add: vcsa_move_cursor_back_def g(1) t_back_def only_refl)
  next
    case 2
    then have "vcsa_move_cursor_back (int n) sc = vcsa_set_cursor (int n) (int 79) (int (tx_ln ?t - 1)) sc"
      by (simp add: vcsa_move_cursor_back_def g(1) SCR_WIDTH_def of_nat_diff)
    from refines_set_cursor_at [OF n ok this] show ?thesis using 2 g(3) by (simp add: t_back_def)
  next
    case 3
    then have "vcsa_move_cursor_back (int n) sc = vcsa_set_cursor (int n) (int (tx_col ?t - 1)) (int (tx_ln ?t)) sc"
      by (simp add: vcsa_move_cursor_back_def g(1) of_nat_diff)
    from refines_set_cursor_at [OF n ok this] show ?thesis using 3 g(2,3) by (simp add: t_back_def)
  qed
qed

lemma refines_tab:
  assumes n: "n < 8"
  shows "refines n (vcsa_move_cursor_tabstop (int n)) t_tab"
  unfolding refines_def
proof (intro allI impI)
  fix sc assume ok: "screen_ok sc"
  let ?t = "text_of sc n"
  note g = get_cursor [OF ok n]
  have "vcsa_move_cursor_tabstop (int n) sc = vcsa_set_cursor (int n) (int (min 79 (8 * (1 + tx_col ?t div 8)))) (int (tx_ln ?t)) sc"
  proof -
    have "8 * (1 + int (tx_col ?t) div 8) = int (8 * (1 + tx_col ?t div 8))" by (simp add: zdiv_int)
    moreover have "(if int m \<ge> 80 then 80 - 1 else int m) = int (min 79 m)" for m :: nat by auto
    ultimately show ?thesis
      unfolding vcsa_move_cursor_tabstop_def g(1) SCR_WIDTH_def TAB_INDENT_def Let_def bind.bind_lunit prod.case by (simp only:)
  qed
  from refines_set_cursor_at [OF n ok this] show "\<exists>sc'. vcsa_move_cursor_tabstop (int n) sc = Some sc' \<and> screen_ok sc' \<and> text_of sc' n = t_tab ?t \<and> only n sc sc'"
    using g(3) by (simp add: t_tab_def)
qed

lemma refines_move:
  assumes n: "n < 8" and dy: "dy \<le> 25"
  shows "refines n (vcsa_move_cursor_by (int n) dx dy) (t_move dx dy)"
  unfolding refines_def
proof (intro allI impI)
  fix sc assume ok: "screen_ok sc"
  note d = screen_okD [OF ok n]
  let ?v = "vcs_data sc ! n" and ?t = "text_of sc n"
  have s: "sint (vc_line ?v) = int (unat (vc_line ?v))" "sint (vc_col ?v) = int (unat (vc_col ?v))" using d(1,2) by (simp_all add: sint_small)
  define l c where "l = int (unat (vc_line ?v)) + dy" and "c = int (unat (vc_col ?v)) + dx"
  define l' c' where "l' = max 0 (min 24 l)" and "c' = max 0 (min 79 c)"
  have e: "(if l \<ge> 25 then 25 - 1 else if l < 0 then 0 else l) = l'" "(if c \<ge> 80 then 80 - 1 else if c < 0 then 0 else c) = c'"
    by (auto simp: l'_def c'_def)
  have w: "unat (word_of_int l' :: u32) = nat l'" "unat (word_of_int c' :: u32) = nat c'" by (auto simp: unat_word_of_int l'_def c'_def)
  have b: "unat (word_of_int l' :: u32) < 25" "unat (word_of_int c' :: u32) < 80" unfolding w by (auto simp: l'_def c'_def)
  have t: "tx_ln ?t = unat (vc_line ?v)" "tx_col ?t = unat (vc_col ?v)" by (simp_all add: text_of_def Let_def)
  have tm: "t_move dx dy ?t = (let t = ?t\<lparr>tx_ln := nat l', tx_col := nat c'\<rparr> in if l \<ge> 25 then t_scroll (nat (l - 24)) t else t)"
    unfolding t_move_def t Let_def l'_def c'_def l_def [symmetric] c_def [symmetric] ..
  let ?s = "upd_vcs (int n) (\<lambda>v. v\<lparr>vc_line := word_of_int l', vc_col := word_of_int c'\<rparr>) sc"
  have m: "vcsa_move_cursor_by (int n) dx dy sc = (if (if l \<ge> 25 then l - (25 - 1) else 0) \<noteq> 0
      then vcsa_scroll_lines (int n) (if l \<ge> 25 then l - (25 - 1) else 0) ?s else Some ?s)"
    unfolding vcsa_move_cursor_by_def d(3) option.case Let_def SCR_WIDTH_def SCR_HEIGHT_def s l_def [symmetric] c_def [symmetric] e ..
  show "\<exists>sc'. vcsa_move_cursor_by (int n) dx dy sc = Some sc' \<and> screen_ok sc' \<and> text_of sc' n = t_move dx dy ?t \<and> only n sc sc'"
  proof (cases "l \<ge> 25")
    case True
    define k where "k = nat (l - 24)"
    have "l \<le> 49" using d(1) dy unfolding l_def by linarith
    then have k: "int k = l - 24" "0 < k" "k \<le> 25" using True by (auto simp: k_def)
    then have "vcsa_move_cursor_by (int n) dx dy sc = vcsa_scroll_lines (int n) (int k) ?s" unfolding m using True by simp
    from refines_after_cursor [OF n ok b refines_scroll [OF n k(2,3)] this]
    show ?thesis using True unfolding tm w k_def [symmetric] by simp
  next
    case False
    then have "vcsa_move_cursor_by (int n) dx dy sc = Some ?s" unfolding m by simp
    from refines_after_cursor [OF n ok b refines_Some this]
    show ?thesis using False unfolding tm w by simp
  qed
qed

section \<open>Erasing\<close>

lemma erase_fold:
  assumes F_def: "\<And>K. F K = foldl (\<lambda>buf k. if P k then clear_vga_sym (p + 2 * k) a buf else buf) buf [0..<K]"
  shows "F K (p + 2 * c) = (if c < K \<and> P c then 0x20 else buf (p + 2 * c))"
    and "F K (p + 2 * c + 1) = (if c < K \<and> P c then a else buf (p + 2 * c + 1))"
    and "q < p \<or> p + 2 * K \<le> q \<Longrightarrow> F K q = buf q"
proof -
  have S: "F (Suc k) = (if P k then clear_vga_sym (p + 2 * k) a (F k) else F k)" for k by (simp add: F_def)
  have z: "F 0 = buf" by (simp add: F_def)
  note eqs = cell_double cell_parity [of p] cell_parity [of p, symmetric]
  show "F K (p + 2 * c) = (if c < K \<and> P c then 0x20 else buf (p + 2 * c))"
  proof (induction K)
    case (Suc K)
    then show ?case unfolding S clear_vga_sym_def fun_upd_apply eqs by (auto simp: less_Suc_eq)
  qed (simp add: z)
  have e: "p + 2 * c + 1 = p + 2 * k + 1 \<longleftrightarrow> c = k" for k by simp
  show "F K (p + 2 * c + 1) = (if c < K \<and> P c then a else buf (p + 2 * c + 1))"
  proof (induction K)
    case (Suc K)
    then show ?case unfolding S clear_vga_sym_def fun_upd_apply e by (auto simp: less_Suc_eq)
  qed (simp add: z)
  show "q < p \<or> p + 2 * K \<le> q \<Longrightarrow> F K q = buf q"
    by (induction K) (auto simp: z S clear_vga_sym_def)
qed

lemma foldl_cells:
  "foldl (\<lambda>b i. foldl (g i) b [0..<80]) b [0..<m] = foldl (\<lambda>b k. g (k div 80) b (k mod 80)) b [0..<80 * m]"
proof (induction m)
  case (Suc m)
  have u: "[0..<80 * Suc m] = [0..<80 * m] @ map (\<lambda>j. j + 80 * m) [0..<80]"
    using upt_add_eq_append [of 0 "80 * m" 80] by (simp add: map_add_upt add.commute)
  have "foldl (\<lambda>b k. g (k div 80) b (k mod 80)) b' (map (\<lambda>j. j + 80 * m) [0..<80]) = foldl (g m) b' [0..<80]" for b'
    unfolding foldl_map by (rule foldl_cong) auto
  then show ?case unfolding u foldl_append using Suc by simp
qed simp

lemma before_cursor_text:
  assumes "screen_ok sc" "n < 8"
  shows "before_cursor (vcs_data sc ! n) (int i) (int j) = t_before (text_of sc n) i j"
proof -
  have t: "tx_ln (text_of sc n) = unat (vc_line (vcs_data sc ! n))" "tx_col (text_of sc n) = unat (vc_col (vcs_data sc ! n))"
    by (simp_all add: text_of_def Let_def)
  have s: "sint (vc_line (vcs_data sc ! n)) = int (tx_ln (text_of sc n))" "sint (vc_col (vcs_data sc ! n)) = int (tx_col (text_of sc n))"
    using screen_okD(1,2) [OF assms] unfolding t by (simp_all only: sint_small)
  show ?thesis unfolding before_cursor_def t_before_def s of_nat_less_iff by auto
qed

lemma refines_erase_screen:
  assumes n: "n < 8"
  shows "refines n (vcsa_erase_screen (int n) m) (\<lambda>t. t_erase (\<lambda>i j. erased m (t_before t i j)) t)"
proof (rule refines_shown [OF n])
  fix sc assume ok: "screen_ok sc"
  note d = screen_okD [OF ok n]
  let ?t = "text_of sc n" and ?a = "vc_attr (vcs_data sc ! n)" and ?p = "4000 * n"
  define P where "P k = erased m (t_before ?t (k div 80) (k mod 80))" for k
  define F where "F K = foldl (\<lambda>buf k. if P k then clear_vga_sym (?p + 2 * k) ?a buf else buf) (vcsa_buf sc) [0..<K]" for K
  note f = erase_fold [OF F_def]
  have e: "80 * (k div 80) + k mod 80 = k" for k :: nat by simp
  have w: "nat 80 = 80" "nat 25 = 25" "(80 :: nat) * 25 = 2000" by simp_all
  have "vcsa_erase_screen (int n) m sc = Some (if_active (int n) vcsa_refresh (sc\<lparr>vcsa_buf := F 2000\<rparr>))"
    unfolding vcsa_erase_screen_def Let_def d(3) bind.bind_lunit GET_VCSA_BUF_nat SCR_WIDTH_def SCR_HEIGHT_def
      before_cursor_text [OF ok n] w foldl_cells e F_def P_def ..
  moreover have "shown n (F 2000) sc (if_active (int n) vcsa_refresh (sc\<lparr>vcsa_buf := F 2000\<rparr>))"
    using refresh_shown [of "sc\<lparr>vcsa_buf := F 2000\<rparr>" sc n] by simp
  moreover have "\<forall>q. q < ?p \<or> ?p + 4000 \<le> q \<longrightarrow> F 2000 q = vcsa_buf sc q" using f(3) [of _ 2000] by simp
  moreover have "rows_of (F 2000) ?p = tx_rows (t_erase (\<lambda>i j. erased m (t_before ?t i j)) ?t)"
  proof (rule rows_eqI)
    fix i j :: nat assume ij: "i < 25" "j < 80"
    have c: "80 * i + j < 2000" "P (80 * i + j) = erased m (t_before ?t i j)" using ij by (auto simp: P_def)
    have "tx_attr ?t = ?a" "tx_rows ?t = rows_of (vcsa_buf sc) ?p" by (simp_all add: text_of_def Let_def)
    then show "tx_rows (t_erase (\<lambda>i j. erased m (t_before ?t i j)) ?t) ! i ! j = (F 2000 (?p + 2 * (80 * i + j)), F 2000 (?p + 2 * (80 * i + j) + 1))"
      unfolding f(1,2) c(2) using c(1) ij by (simp add: t_erase_def rows_nth)
  qed (simp_all add: t_erase_def)
  then have "?t\<lparr>tx_rows := rows_of (F 2000) ?p\<rparr> = t_erase (\<lambda>i j. erased m (t_before ?t i j)) ?t" by (simp add: t_erase_def)
  ultimately show "\<exists>buf sc'. vcsa_erase_screen (int n) m sc = Some sc' \<and> shown n buf sc sc' \<and>
      (\<forall>q. q < ?p \<or> ?p + 4000 \<le> q \<longrightarrow> buf q = vcsa_buf sc q) \<and>
      ?t\<lparr>tx_rows := rows_of buf ?p\<rparr> = t_erase (\<lambda>i j. erased m (t_before ?t i j)) ?t"
    by blast
qed

lemma other_line: "i \<noteq> l \<Longrightarrow> j < 80 \<Longrightarrow> p + 2 * (80 * i + j) + 1 < p + 160 * l \<or> p + 160 * l + 2 * 80 \<le> p + 2 * (80 * i + (j :: nat))"
  by (cases i l rule: linorder_cases) auto

lemma refines_erase_line:
  assumes n: "n < 8"
  shows "refines n (vcsa_erase_line (int n) m) (\<lambda>t. t_erase (\<lambda>i j. i = tx_ln t \<and> erased m (j < tx_col t)) t)"
proof (rule refines_shown [OF n])
  fix sc assume ok: "screen_ok sc"
  note d = screen_okD [OF ok n]
  let ?t = "text_of sc n" and ?v = "vcs_data sc ! n"
  let ?l = "unat (vc_line ?v)" and ?c = "unat (vc_col ?v)" and ?p = "4000 * n"
  define P where "P j = erased m (j < ?c)" for j
  define F where "F K = foldl (\<lambda>buf k. if P k then clear_vga_sym (?p + 160 * ?l + 2 * k) (vc_attr ?v) buf else buf) (vcsa_buf sc) [0..<K]" for K
  note f = erase_fold [OF F_def]
  have w: "nat 80 = 80" "nat (2 * 80 * int ?l) = 160 * ?l" by (simp_all add: nat_mult_distrib)
  have s: "sint (vc_line ?v) = int ?l" "sint (vc_col ?v) = int ?c" using d(1,2) by (simp_all add: sint_small)
  have "vcsa_erase_line (int n) m sc = Some (if_active (int n) vcsa_refresh (sc\<lparr>vcsa_buf := F 80\<rparr>))"
    unfolding vcsa_erase_line_def Let_def d(3) bind.bind_lunit GET_VCSA_BUF_nat SCR_WIDTH_def s w of_nat_less_iff F_def P_def ..
  moreover have "shown n (F 80) sc (if_active (int n) vcsa_refresh (sc\<lparr>vcsa_buf := F 80\<rparr>))"
    using refresh_shown [of "sc\<lparr>vcsa_buf := F 80\<rparr>" sc n] by simp
  moreover have "\<forall>q. q < ?p \<or> ?p + 4000 \<le> q \<longrightarrow> F 80 q = vcsa_buf sc q" using f(3) [of _ 80] d(1) by auto
  moreover have "rows_of (F 80) ?p = tx_rows (t_erase (\<lambda>i j. i = ?l \<and> erased m (j < ?c)) ?t)"
  proof (rule rows_eqI)
    fix i j :: nat assume ij: "i < 25" "j < 80"
    have t: "tx_attr ?t = vc_attr ?v" "tx_rows ?t = rows_of (vcsa_buf sc) ?p" by (simp_all add: text_of_def Let_def)
    show "tx_rows (t_erase (\<lambda>i j. i = ?l \<and> erased m (j < ?c)) ?t) ! i ! j = (F 80 (?p + 2 * (80 * i + j)), F 80 (?p + 2 * (80 * i + j) + 1))"
    proof (cases "i = ?l")
      case True
      then have e: "?p + 2 * (80 * i + j) = ?p + 160 * ?l + 2 * j" by simp
      show ?thesis unfolding e f(1,2) using ij t True by (simp add: t_erase_def rows_nth P_def add.assoc)
    next
      case False
      then have "?p + 2 * (80 * i + j) + 1 < ?p + 160 * ?l \<or> ?p + 160 * ?l + 2 * 80 \<le> ?p + 2 * (80 * i + j)"
        using other_line [OF False ij(2)] by simp
      then show ?thesis using f(3) [of _ 80] ij t False by (auto simp: t_erase_def rows_nth)
    qed
  qed (simp_all add: t_erase_def)
  then have "?t\<lparr>tx_rows := rows_of (F 80) ?p\<rparr> = t_erase (\<lambda>i j. i = tx_ln ?t \<and> erased m (j < tx_col ?t)) ?t"
    by (simp add: t_erase_def text_of_def Let_def)
  ultimately show "\<exists>buf sc'. vcsa_erase_line (int n) m sc = Some sc' \<and> shown n buf sc sc' \<and>
      (\<forall>q. q < ?p \<or> ?p + 4000 \<le> q \<longrightarrow> buf q = vcsa_buf sc q) \<and>
      ?t\<lparr>tx_rows := rows_of buf ?p\<rparr> = t_erase (\<lambda>i j. i = tx_ln ?t \<and> erased m (j < tx_col ?t)) ?t"
    by blast
qed

lemma refines_attr:
  assumes n: "n < 8"
  shows "refines n (\<lambda>sc. Some (upd_vcs (int n) (vc_attr_update (\<lambda>_. a)) sc)) (\<lambda>t. t\<lparr>tx_attr := a\<rparr>)"
  unfolding refines_def using n
  by (auto simp: upd_vcs_def screen_ok_def text_of_def Let_def only_def nth_list_update)

lemma refines_set_attribute:
  assumes n: "n < 8"
  shows "refines n (vcsa_set_attribute (int n) a) (\<lambda>t. t\<lparr>tx_attr := a\<rparr>)"
proof (rule refines_cong [OF refines_attr [OF n]])
  fix sc assume "screen_ok sc"
  note d = screen_okD(3,4) [OF this n]
  show "vcsa_set_attribute (int n) a sc = Some (upd_vcs (int n) (vc_attr_update (\<lambda>_. a)) sc)"
    unfolding vcsa_set_attribute_def Let_def d using n by (simp add: N_VCSA_DEVICES_def d)
qed

lemma refines_refresh:
  assumes n: "n < 8"
  shows "refines n (\<lambda>sc. Some (if_active (int n) vcsa_refresh sc)) (\<lambda>t. t)"
proof (rule refines_shown [OF n])
  fix sc assume "screen_ok sc"
  have "shown n (vcsa_buf sc) sc (if_active (int n) vcsa_refresh sc)" by (rule refresh_shown) simp_all
  moreover have "(text_of sc n)\<lparr>tx_rows := rows_of (vcsa_buf sc) (4000 * n)\<rparr> = text_of sc n" by (simp add: text_of_def Let_def)
  ultimately show "\<exists>buf sc'. Some (if_active (int n) vcsa_refresh sc) = Some sc' \<and> shown n buf sc sc' \<and>
      (\<forall>q. q < 4000 * n \<or> 4000 * n + 4000 \<le> q \<longrightarrow> buf q = vcsa_buf sc q) \<and> (text_of sc n)\<lparr>tx_rows := rows_of buf (4000 * n)\<rparr> = text_of sc n"
    by blast
qed

lemma refines_weaken: "refines n f g \<Longrightarrow> (\<And>t. g t = g' t) \<Longrightarrow> refines n f g'"
  by (simp add: refines_def)

lemma refines_clear:
  assumes n: "n < 8"
  shows "refines n (vcsa_clear (int n)) t_clear"
proof -
  define attr where "attr sc = Some (if vc_attr (vcs_data sc ! n) = 0 then upd_vcs (int n) (vc_attr_update (\<lambda>_. 7)) sc else sc)" for sc
  have a: "refines n attr (\<lambda>t. if tx_attr t = 0 then t\<lparr>tx_attr := 7\<rparr> else t)"
    using refines_attr [OF n, of 7] unfolding refines_def attr_def by (auto simp: only_refl text_of_def Let_def)
  note s = refines_set_cursor [OF n, of 0 0] and b = refines_bind
  have "refines n (\<lambda>sc. do { sc \<leftarrow> attr sc; sc \<leftarrow> vcsa_erase_screen (int n) VCSA_ERASE_WHOLE sc; sc \<leftarrow> vcsa_set_cursor (int n) 0 0 sc;
      Some (if_active (int n) vcsa_refresh sc) }) t_clear"
    by (rule refines_weaken [OF b [OF a b [OF refines_erase_screen [OF n] b [OF s refines_refresh [OF n]]]]])
      (simp add: t_clear_def erased_def Let_def)
  moreover have "vcsa_clear (int n) sc = do { sc \<leftarrow> attr sc; sc \<leftarrow> vcsa_erase_screen (int n) VCSA_ERASE_WHOLE sc;
      sc \<leftarrow> vcsa_set_cursor (int n) 0 0 sc; Some (if_active (int n) vcsa_refresh sc) }" if "screen_ok sc" for sc
    using screen_okD(3,4) [OF that n] by (simp add: vcsa_clear_def Let_def attr_def VCSA_DEFAULT_ATTRIBUTE_def)
  ultimately show ?thesis by (rule refines_cong)
qed

section \<open>All consoles\<close>

lemma rows_same: "(\<And>q. p \<le> q \<Longrightarrow> q < p + 4000 \<Longrightarrow> buf q = buf' q) \<Longrightarrow> rows_of buf p = rows_of buf' p"
  unfolding rows_of_def by (intro map_cong refl) (use cell_bound in auto)

lemma only_text:
  assumes "only n sc sc'" "m \<noteq> n"
  shows "text_of sc' m = text_of sc m"
proof -
  have "rows_of (vcsa_buf sc') (4000 * m) = rows_of (vcsa_buf sc) (4000 * m)"
  proof (rule rows_same)
    fix q assume "4000 * m \<le> q" "q < 4000 * m + 4000"
    then have "q < 4000 * n \<or> 4000 * n + 4000 \<le> q" using assms(2) by (cases m n rule: linorder_cases) auto
    then show "vcsa_buf sc' q = vcsa_buf sc q" using assms(1) unfolding only_def by blast
  qed
  then show ?thesis using assms by (simp add: text_of_def only_def Let_def)
qed

lemma switch_ok:
  assumes "screen_ok sc" "n < 8"
  shows "screen_ok (vcsa_switch (int n) sc)" "text_of (vcsa_switch (int n) sc) m = text_of sc m" "active_vcs (vcsa_switch (int n) sc) = int n"
  using assms
  by (auto simp: vcsa_switch_def screen_ok_def N_VCSA_DEVICES_def vcsa_refresh_def update_hw_cursor_def move_hw_cursor_def Let_def
      text_of_def SCR_WIDTH_def SCR_HEIGHT_def)

definition blank_text :: text_screen where
  "blank_text = \<lparr>tx_rows = replicate 25 (replicate 80 (0x20, 7)), tx_ln = 0, tx_col = 0, tx_attr = 7\<rparr>"

lemma clear_default: "tx_attr t = 7 \<Longrightarrow> t_clear t = blank_text"
  by (simp add: t_clear_def t_erase_def blank_text_def map_replicate_const)

lemma init_rest:
  assumes "screen_ok sc" "active_vcs sc = 0" "1 \<le> k" "k \<le> 8"
  shows "\<exists>sc'. init_consoles [int k..7] sc = Some sc' \<and> screen_ok sc' \<and> active_vcs sc' = 0 \<and>
    (\<forall>m < 8. text_of sc' m = (if k \<le> m then blank_text else text_of sc m))"
  using assms
proof (induction "8 - k" arbitrary: k sc)
  case 0
  then show ?case by simp
next
  case (Suc x)
  then have k: "k < 8" by simp
  have l: "[int k..7] = int k # [int (Suc k)..7]" using k by (subst upto_rec1) (simp_all add: add.commute)
  have "refines k (\<lambda>sc. do { sc \<leftarrow> Some (upd_vcs (int k) (vc_attr_update (\<lambda>_. 7)) sc); vcsa_clear (int k) sc }) (\<lambda>t. t_clear (t\<lparr>tx_attr := 7\<rparr>))"
    by (rule refines_bind [OF refines_attr [OF k] refines_clear [OF k]])
  from refinesD [OF this Suc.prems(1)]
  obtain s1 where s1: "vcsa_clear (int k) (upd_vcs (int k) (vc_attr_update (\<lambda>_. 7)) sc) = Some s1" "screen_ok s1"
      "text_of s1 k = t_clear ((text_of sc k)\<lparr>tx_attr := 7\<rparr>)" "only k sc s1"
    unfolding bind.bind_lunit by metis
  then have b: "text_of s1 k = blank_text" by (simp add: clear_default)
  have "active_vcs s1 = 0" using s1(4) Suc.prems(2) by (simp add: only_def)
  moreover have "x = 8 - Suc k" using Suc.hyps(2) by simp
  ultimately obtain s2 where s2: "init_consoles [int (Suc k)..7] s1 = Some s2" "screen_ok s2" "active_vcs s2 = 0"
      "\<forall>m < 8. text_of s2 m = (if Suc k \<le> m then blank_text else text_of s1 m)"
    using Suc.hyps(1) [of "Suc k" s1] s1(2) k by auto
  have "init_consoles [int k..7] sc = Some s2"
    unfolding l init_consoles.simps using Suc.prems(2,3) s1(1) s2(1) by (simp add: Let_def upd_vcs_def VCSA_DEFAULT_ATTRIBUTE_def)
  moreover have "text_of s2 m = (if k \<le> m then blank_text else text_of sc m)" if "m < 8" for m
    using s2(4) that b only_text [OF s1(4), of m] by (cases "m = k") auto
  ultimately show ?case using s2(2,3) by blast
qed

lemma console_boot:
  assumes l: "length (vcs_data sc) = 8" and c: "\<forall>n < 8. unat (vc_line (vcs_data sc ! n)) < 25 \<and> unat (vc_col (vcs_data sc ! n)) < 80"
  shows "\<exists>sc'. init_vcs_devices sc = Some sc' \<and> screen_ok sc' \<and> active_vcs sc' = 0 \<and>
    tx_rows (text_of sc' 0) = rows_of (videobuf sc) 0 \<and> (\<forall>m < 8. 0 < m \<longrightarrow> text_of sc' m = blank_text)"
proof -
  define s0 where "s0 = upd_vcs 0 (vc_attr_update (\<lambda>_. 7)) (sc\<lparr>active_vcs := 0\<rparr>)"
  define s1 where "s1 = s0\<lparr>vcsa_buf := \<lambda>p. if p < 4000 then videobuf sc p else vcsa_buf sc p\<rparr>"
  have ok: "screen_ok s1" "active_vcs s1 = 0"
    using l c by (auto simp: screen_ok_def s1_def s0_def upd_vcs_def nth_list_update)
  have e: "[0..7 :: int] = 0 # [int 1..7]" by (subst upto_rec1) simp_all
  have "init_vcs_devices sc = init_consoles [int 1..7] s1"
    unfolding init_vcs_devices_def N_VCSA_DEVICES_def CONSOLE_VCSA_def
    by (simp add: e s1_def s0_def upd_vcs_def Let_def VCSA_DEFAULT_ATTRIBUTE_def GET_VCSA_BUF_def SCR_WIDTH_def SCR_HEIGHT_def cong: if_cong del: upto_rec_numeral)
  moreover have "tx_rows (text_of s1 0) = rows_of (videobuf sc) 0"
    by (simp add: text_of_def Let_def s1_def s0_def) (rule rows_same, simp)
  moreover obtain s2 where "init_consoles [int 1..7] s1 = Some s2" "screen_ok s2" "active_vcs s2 = 0"
      "\<forall>m < 8. text_of s2 m = (if 1 \<le> m then blank_text else text_of s1 m)"
    using init_rest [OF ok, of 1] by auto
  ultimately show ?thesis by (intro exI [of _ s2]) simp
qed

end
