(* ===== verification/Tty_Spec.thy ===== *)
theory Tty_Spec
  imports Tty Screen_Spec
begin

text \<open>
  Text written to a terminal is text on its console, and a line that is typed is the line that is read.
\<close>

declare wait_line.simps [simp del] wait_raw.simps [simp del] wait_sc.simps [simp del]

section \<open>Writing text\<close>

lemma byte_sint: "unat (b :: u8) < 128 \<Longrightarrow> sint b = int (unat b)"
proof -
  assume b: "unat b < 128"
  define u where u: "u = unat b"
  have s: "sint b = (int u + 128) mod 256 - 128"
    by (simp add: u sint_uint signed_take_bit_eq_take_bit_shift take_bit_eq_mod)
  have "u < 128" using b by (simp only: u)
  then have m: "(int u + 128) mod 256 = int u + 128" by (intro mod_pos_pos_trivial) simp_all
  show ?thesis unfolding s unfolding m unfolding u by (rule add_diff_cancel_right')
qed

lemma is_cntrl_iff:
  assumes "unat b < 128"
  shows "is_cntrl b \<longleftrightarrow> unat b < 32 \<or> unat b = 127"
  unfolding is_cntrl_def iscntrl_def byte_sint [OF assms]
  using groups_at [OF assms] unfolding groups_ok_def by (elim conjE)

text \<open>What a byte of 7 bits other than the escape does to a text screen.\<close>

definition t_byte :: "u8 \<Rightarrow> text_screen \<Rightarrow> text_screen" where
  "t_byte c t =
     (if c = 0x07 \<or> c = 0x7f then t
      else if c = 0x08 then t_put 0x20 (t_back t)
      else if c = 0x09 then t_tab t
      else if c = 0x0a then t_newline t
      else if c = 0x0b \<or> c = 0x0c then t_move 0 1 t
      else if c = 0x0d then t\<lparr>tx_col := 0\<rparr>
      else if c < 0x20 then t_next (t_put (0x40 + c) (t_next (t_put 0x5e t)))
      else t_next (t_put c t))"

lemma chr_eqs: "chr CHR ''^'' = 0x5e" "chr CHR ''@'' = 0x40" "chr CHR '';'' = 0x3b"
  by (simp_all add: chr_def)

lemma refines_control:
  assumes n: "n < 8" and c: "unat c < 32 \<or> c = 0x7f" "c \<noteq> 0x1b"
  shows "refines n (control_char (int n) c) (t_byte c)"
proof -
  note r = refines_Some refines_tab [OF n] refines_newline [OF n] refines_move [OF n, of 1 0]
    refines_bind [OF refines_back [OF n] refines_set_char [OF n, of "0x20"]]
    refines_bind [OF refines_cprint [OF n, of "0x5e"] refines_cprint [OF n, of "0x40 + c"]]
  have cr: "refines n (vcsa_set_cursor (int n) 0 VCS_DO_NOT_MOVE) (\<lambda>t. t\<lparr>tx_col := 0\<rparr>)"
    by (rule refines_weaken [OF refines_set_cursor [OF n]]) (simp add: VCS_DO_NOT_MOVE_def)
  have lt: "c < 0x20 \<longleftrightarrow> unat c < 32" by (simp add: word_less_nat_alt)
  consider "c = 0x07 \<or> c = 0x7f" | "c = 0x08" | "c = 0x09" | "c = 0x0a" | "c = 0x0b \<or> c = 0x0c" | "c = 0x0d"
    | "c \<notin> {0x07, 0x7f, 0x08, 0x09, 0x0a, 0x0b, 0x0c, 0x0d}" by blast
  then show ?thesis
  proof cases
    case 7
    then have "control_char (int n) c = (\<lambda>sc. do { sc \<leftarrow> vcsa_cprint (int n) 0x5e sc; vcsa_cprint (int n) (0x40 + c) sc })"
        "t_byte c = (\<lambda>t. t_next (t_put (0x40 + c) (t_next (t_put 0x5e t))))"
      using c lt by (auto simp: control_char_def t_byte_def fun_eq_iff chr_eqs)
    then show ?thesis using r(6) by simp
  qed (use r cr in \<open>auto simp: control_char_def [abs_def] t_byte_def [abs_def]\<close>)
qed

text \<open>Bytes of 7 bits without escapes are plain text.\<close>

definition plain :: "u8 \<Rightarrow> bool" where
  "plain c \<longleftrightarrow> unat c < 128 \<and> c \<noteq> 0x1b"

lemma tty_put_plain:
  assumes n: "n < 8" and c: "plain (m s)" and ok: "screen_ok sc"
  obtains sc' where "tty_put m (int n) s sc = Some (s, sc')" "screen_ok sc'" "text_of sc' n = t_byte (m s) (text_of sc n)" "only n sc sc'"
proof (cases "is_cntrl (m s)")
  case True
  then have u: "unat (m s) < 32 \<or> m s = 0x7f" using c is_cntrl_iff [of "m s"] by (auto simp: plain_def word_unat_eq_iff)
  have "m s \<noteq> 0x1b" using c by (simp add: plain_def)
  from refinesD [OF refines_control [OF n u this] ok] show ?thesis
    using that True \<open>m s \<noteq> 0x1b\<close> by (auto simp: tty_put_def)
next
  case False
  then have u: "32 \<le> unat (m s)" "unat (m s) \<noteq> 127" using c is_cntrl_iff [of "m s"] by (auto simp: plain_def)
  then have "\<not> m s < 0x20" "m s \<notin> {0x07, 0x7f, 0x08, 0x09, 0x0a, 0x0b, 0x0c, 0x0d}" by (auto simp: word_less_nat_alt)
  then have "t_byte (m s) (text_of sc n) = t_next (t_put (m s) (text_of sc n))" by (simp add: t_byte_def)
  with refinesD [OF refines_cprint [OF n] ok] show ?thesis using that False by (metis (no_types) tty_put_def option.simps(9))
qed

lemma write_loop_plain:
  assumes n: "n < 8" and "screen_ok sc" "\<forall>i < len. plain (m i)" "s \<le> len"
  shows "\<exists>sc'. tty_write_loop m len (int n) s sc = Some sc' \<and> screen_ok sc' \<and>
    text_of sc' n = fold t_byte (map m [s..<len]) (text_of sc n) \<and> only n sc sc'"
  using assms(2-)
proof (induction "len - s" arbitrary: s sc)
  case 0
  then show ?case by (subst tty_write_loop.simps) (simp add: only_refl)
next
  case (Suc x)
  then have s: "s < len" by simp
  obtain s1 where s1: "tty_put m (int n) s sc = Some (s, s1)" "screen_ok s1" "text_of s1 n = t_byte (m s) (text_of sc n)" "only n sc s1"
    using tty_put_plain [OF n _ Suc.prems(1)] Suc.prems(2) s by blast
  have "x = len - (s + 1)" "s + 1 \<le> len" using Suc.hyps(2) s by simp_all
  from Suc.hyps(1) [OF this(1) s1(2) Suc.prems(2) this(2)] obtain s2 where s2: "tty_write_loop m len (int n) (s + 1) s1 = Some s2"
      "screen_ok s2" "text_of s2 n = fold t_byte (map m [s + 1..<len]) (text_of s1 n)" "only n s1 s2" by blast
  have "tty_write_loop m len (int n) s sc = Some s2" using s s1(1) s2(1) by (subst tty_write_loop.simps) simp
  moreover have "fold t_byte (map m [s..<len]) (text_of sc n) = text_of s2 n" using s s1(3) s2(3) by (simp add: upt_conv_Cons)
  ultimately show ?case using s2 only_trans [OF s1(4) s2(4)] by auto
qed

lemma tty_write_plain:
  assumes tty: "get_tty_device ttyno t = Some tty" "tty_vcs tty = of_nat n" and n: "n < 8"
    and "screen_ok (trm_scr t)" "\<forall>i < len. plain (m i)"
  shows "\<exists>sc'. tty_write ttyno m len t = Some (0, t\<lparr>trm_scr := sc'\<rparr>) \<and> screen_ok sc' \<and>
    text_of sc' n = fold t_byte (map m [0..<len]) (text_of (trm_scr t) n) \<and> only n (trm_scr t) sc'"
proof -
  have v: "unat (tty_vcs tty) = n" "\<not> tty_vcs tty \<ge> 8" using n unfolding tty(2) by (simp_all add: unat_of_nat_u32 word_le_nat_alt)
  show ?thesis using write_loop_plain [OF n assms(4,5), of 0] tty(1) v by (auto simp: tty_write_def dev_tty_write_def)
qed

text \<open>C10. Writing bytes of 7 bits without escapes to a terminal always returns 0.  The console of the terminal then shows
  what the bytes do, one after the other, to an abstract screen of 25 lines of 80 characters, with wrapping, scrolling,
  tabulators, backspaces, and control characters as \<^verbatim>\<open>^X\<close>.  The cursors stay on the screen, the video memory stays that
  of the active console, and no other console changes.\<close>

theorem tty_write_shows_text:
  assumes "get_tty_device ttyno t = Some tty" and "tty_vcs tty = of_nat n" and "n < 8"
    and "screen_ok (trm_scr t)" and "\<forall>i < len. plain (m i)"
  shows "\<exists>sc'. tty_write ttyno m len t = Some (0, t\<lparr>trm_scr := sc'\<rparr>) \<and> screen_ok sc' \<and>
    text_of sc' n = fold t_byte (map m [0..<len]) (text_of (trm_scr t) n) \<and>
    (\<forall>k. k \<noteq> n \<longrightarrow> text_of sc' k = text_of (trm_scr t) k)"
  using tty_write_plain [OF assms] only_text by blast

definition ex_screen :: screen where
  "ex_screen = \<lparr>active_vcs = 0, vcs_data = replicate 8 \<lparr>vc_line = 0, vc_col = 0, vc_attr = 7\<rparr>, vcsa_buf = \<lambda>_. 0, videobuf = \<lambda>_. 0,
     crt14 = 0, crt15 = 0\<rparr>"

definition ex_kbd :: kbd where
  "ex_kbd = \<lparr>kb_head = 0, kb_tail = 0, kb_buf = replicate 256 0, theKeyboard = replicate 128 False,
     on_press = Some Tty_keyboard_handler, on_release = Some Tty_keyboard_handler, kb_sc = 0\<rparr>"

definition ex_tty :: tty_device where
  "ex_tty = \<lparr>tty_kbmode = TTYKBD_ANSI, tty_inpq = \<lparr>q_start = 0, q_end = 0, q_buf = replicate 512 0\<rparr>, tty_conf = stty_sane,
     tty_wx = 80, tty_wy = 25, tty_vcs = 0, tty_foreground_procgroup = 0\<rparr>"

definition ex_terminals :: terminals where
  "ex_terminals = \<lparr>trm_kbd = ex_kbd, trm_scr = ex_screen, theActiveTTY = 0, theTTYlist = replicate 64 (Some ex_tty)\<rparr>"

lemma ex_screen_ok: "screen_ok ex_screen"
  by (simp add: screen_ok_def ex_screen_def)

lemma ex_text: "text_of ex_screen 0 = \<lparr>tx_rows = replicate 25 (replicate 80 (0, 0)), tx_ln = 0, tx_col = 0, tx_attr = 7\<rparr>"
  by (simp add: text_of_def ex_screen_def rows_of_def map_replicate_const)

theorem tty_write_shows_text_witness:
  "\<exists>sc'. tty_write 0 (\<lambda>i. if i = 0 then 0x41 else 0x09) 2 ex_terminals = Some (0, ex_terminals\<lparr>trm_scr := sc'\<rparr>) \<and>
     tx_rows (text_of sc' 0) ! 0 ! 0 = (0x41, 7) \<and> tx_ln (text_of sc' 0) = 0 \<and> tx_col (text_of sc' 0) = 8"
proof -
  let ?m = "\<lambda>i :: nat. if i = 0 then 0x41 else 0x09 :: u8"
  have g: "get_tty_device 0 ex_terminals = Some ex_tty" "trm_scr ex_terminals = ex_screen"
    by (simp_all add: get_tty_device_def ex_terminals_def nth_replicate)
  have v: "tty_vcs ex_tty = of_nat 0" by (simp add: ex_tty_def)
  have ok: "screen_ok (trm_scr ex_terminals)" unfolding g by (rule ex_screen_ok)
  have p: "\<forall>i < 2. plain (?m i)" by (simp add: plain_def)
  obtain sc' where w: "tty_write 0 ?m 2 ex_terminals = Some (0, ex_terminals\<lparr>trm_scr := sc'\<rparr>)"
      "text_of sc' 0 = fold t_byte (map ?m [0..<2]) (text_of (trm_scr ex_terminals) 0)"
    using tty_write_shows_text [OF g(1) v _ ok p] by auto
  have u: "[0..<2] = [0, Suc 0]" by (simp add: upt_conv_Cons)
  have "text_of sc' 0 = t_tab (t_next (t_put 0x41 (text_of ex_screen 0)))" unfolding w(2) u g by (simp add: t_byte_def)
  then have "tx_rows (text_of sc' 0) ! 0 ! 0 = (0x41, 7)" "tx_ln (text_of sc' 0) = 0" "tx_col (text_of sc' 0) = 8"
    by (simp_all add: ex_text t_tab_def t_next_def t_put_def)
  then show ?thesis using w(1) by blast
qed

end
