(* ===== verification/Tty_Line.thy ===== *)
theory Tty_Line
  imports Tty_Spec
begin

text \<open>
  The line discipline: what is typed on the keyboard up to the newline, with backspaces obeyed, is the line that a
  process reads from the terminal.
\<close>

section \<open>The queue as a list\<close>

text \<open>A queue that did not wrap around and holds the bytes of a list from its end on.\<close>

definition q_holds :: "tty_input_queue \<Rightarrow> nat \<Rightarrow> u8 list \<Rightarrow> bool" where
  "q_holds q e line \<longleftrightarrow> unat (q_end q) = e \<and> unat (q_start q) = e + length line \<and> length (q_buf q) = 512 \<and>
     e + length line < 512 \<and> take (length line) (drop e (q_buf q)) = line"

lemma small_memcpy_one: "small_memcpy dst off [c] = dst[off := c]"
  by (simp add: small_memcpy_def)

lemma push_holds:
  assumes "q_holds q e line" "e + length line + 1 < 512"
  shows "\<exists>q'. tty_inpq_push q [c] = (True, q') \<and> q_holds q' e (line @ [c])"
proof -
  have h: "unat (q_end q) = e" "unat (q_start q) = e + length line" "length (q_buf q) = 512" "take (length line) (drop e (q_buf q)) = line"
    using assms(1) by (auto simp: q_holds_def)
  have s: "unat (q_start q + 1) = e + length line + 1" using assms(2) h(2) by (simp add: unat_add_nowrap)
  let ?q = "q\<lparr>q_buf := (q_buf q)[e + length line := c], q_start := q_start q + 1\<rparr>"
  have "\<not> q_start q < q_end q" "q_start q + 1 \<le> 512" "q_start q + 1 \<noteq> 512"
    using h(1,2) s assms(2) by (auto simp: word_less_nat_alt word_le_nat_alt word_unat_eq_iff)
  then have "tty_inpq_push q [c] = (True, ?q)"
    unfolding tty_inpq_push_def Let_def MAX_INPUT_def by (simp add: small_memcpy_one h(2))
  moreover have "take (length line + 1) (drop e ((q_buf q)[e + length line := c])) = line @ [c]"
    using h(3,4) assms(2) by (simp add: take_Suc_conv_app_nth drop_update_swap nth_drop)
  ultimately show ?thesis using h s assms(2) by (auto simp: q_holds_def)
qed

lemma unpush_holds:
  assumes "q_holds q e line"
  shows "\<exists>q'. tty_inpq_unpush q 1 = (line \<noteq> [], q') \<and> q_holds q' e (butlast line)"
proof (cases line rule: rev_cases)
  case Nil
  then have "q_start q = q_end q" using assms by (simp add: q_holds_def word_unat_eq_iff)
  then show ?thesis using assms Nil by simp
next
  case (snoc l c)
  have h: "unat (q_end q) = e" "unat (q_start q) = e + length l + 1" "take (length line) (drop e (q_buf q)) = line"
    using assms snoc by (auto simp: q_holds_def)
  have s: "unat (q_start q - 1) = e + length l" using h(2) by (simp add: unat_sub_nowrap)
  have "q_start q \<noteq> q_end q" "q_start q \<noteq> 0" using h(1,2) by (auto simp: word_unat_eq_iff)
  then have "tty_inpq_unpush q 1 = (True, q\<lparr>q_start := q_start q - 1\<rparr>)" by simp
  moreover have "take (length l) (drop e (q_buf q)) = l"
    using arg_cong [OF h(3), of "take (length l)"] snoc by (simp add: min_def)
  ultimately show ?thesis using assms snoc s by (auto simp: q_holds_def)
qed

lemma pop_holds:
  assumes "q_holds q e line" "line \<noteq> []"
  shows "\<exists>q'. tty_inpq_pop q (of_nat (length line)) = Some (line, q') \<and> q_holds q' (e + length line) []"
proof -
  have h: "unat (q_end q) = e" "unat (q_start q) = e + length line" "length (q_buf q) = 512" "take (length line) (drop e (q_buf q)) = line"
      "e + length line < 512"
    using assms(1) by (auto simp: q_holds_def)
  have l: "unat (of_nat (length line) :: u32) = length line" using h(5) by (simp add: unat_of_nat_u32)
  have d: "q_start q - q_end q = of_nat (length line)" using h(1,2) l by (simp add: word_unat_eq_iff unat_sub_nowrap)
  have e: "unat (q_end q + of_nat (length line)) = e + length line" using h l by (simp add: unat_add_nowrap)
  have "q_start q \<noteq> q_end q" "q_end q < q_start q" using h(1,2) assms(2) by (auto simp: word_less_nat_alt)
  then have "tty_inpq_pop q (of_nat (length line)) = Some (line, q\<lparr>q_end := q_end q + of_nat (length line)\<rparr>)"
    unfolding tty_inpq_pop_def Let_def d MAX_INPUT_def using h l by simp
  then show ?thesis using h e by (simp add: q_holds_def)
qed

section \<open>Finding the newline\<close>

lemma byte_char_inj: "byte_char a = byte_char b \<longleftrightarrow> a = b"
proof -
  have "unat x < 256" for x :: u8 using unsigned_less [of x] by simp
  then show ?thesis unfolding byte_char_def by (metis of_char_of mod_less word_unat_eq_iff)
qed

lemma byte_char_0: "byte_char 0 = NUL"
  by (simp add: byte_char_def NUL_def char_of_def)

lemma strnchr_line:
  "0 \<notin> set line \<Longrightarrow> c \<notin> set line \<Longrightarrow> c \<noteq> 0 \<Longrightarrow> int (length line) < n \<Longrightarrow>
   strnchr (map byte_char (line @ c # r)) n (byte_char c) = Some (map byte_char (c # r))"
  by (induction line arbitrary: n) (auto simp: byte_char_inj simp flip: byte_char_0)

lemma strnchr_not_in:
  "c \<notin> set line \<Longrightarrow> n \<le> int (length line) \<Longrightarrow> strnchr (map byte_char (line @ r)) n (byte_char c) = None"
proof (induction line arbitrary: n)
  case Nil
  then show ?case by (cases r) auto
qed (auto simp: byte_char_inj)

lemma holds_split:
  assumes "q_holds q e line"
  obtains r where "drop e (q_buf q) = line @ r"
  using assms append_take_drop_id [of "length line" "drop e (q_buf q)"] unfolding q_holds_def by metis

lemma holds_distance:
  assumes "q_holds q e line" "line \<noteq> []"
  shows "q_start q \<noteq> q_end q" "q_start q > q_end q" "sint (q_start q - q_end q) = int (length line)"
proof -
  have h: "unat (q_end q) = e" "unat (q_start q) = e + length line" "e + length line < 512" using assms(1) by (auto simp: q_holds_def)
  then show "q_start q \<noteq> q_end q" "q_start q > q_end q" using assms(2) by (auto simp: word_less_nat_alt)
  have u: "unat (q_start q - q_end q) = length line" using h by (simp add: unat_sub_nowrap)
  show "sint (q_start q - q_end q) = int (length line)" using h(3) unfolding sint_u32 u by simp
qed

lemma no_newline:
  assumes "q_holds q e line" "c \<notin> set line"
  shows "tty_inpq_strchr q c = -1"
proof (cases "line = []")
  case True
  then show ?thesis using assms(1) by (simp add: tty_inpq_strchr_def q_holds_def word_unat_eq_iff)
next
  case False
  note d = holds_distance [OF assms(1) False]
  obtain r where r: "drop e (q_buf q) = line @ r" by (rule holds_split [OF assms(1)])
  have e: "unat (q_end q) = e" using assms(1) by (simp add: q_holds_def)
  have "find_in (line @ r) (q_start q - q_end q) c = None"
    unfolding find_in_def d(3) by (simp only: strnchr_not_in [OF assms(2) order_refl] option.map)
  then show ?thesis unfolding tty_inpq_strchr_def Let_def e r using d(1,2) by simp
qed

lemma newline_found:
  assumes "q_holds q e (line @ [c])" "0 \<notin> set line" "c \<notin> set line" "c \<noteq> 0"
  shows "tty_inpq_strchr q c = int (length line)"
proof -
  have ne: "line @ [c] \<noteq> []" by simp
  note d = holds_distance [OF assms(1) ne]
  obtain r where r: "drop e (q_buf q) = line @ c # r" using holds_split [OF assms(1)] by auto
  have e: "unat (q_end q) = e" using assms(1) by (simp add: q_holds_def)
  have "find_in (line @ c # r) (q_start q - q_end q) c = Some (int (length line))"
    unfolding find_in_def d(3)
    by (subst strnchr_line) (use assms in auto)
  then show ?thesis unfolding tty_inpq_strchr_def Let_def e r using d(1,2) by simp
qed

section \<open>Typing\<close>

text \<open>The character of each scan code, 0 for none, and the line that the characters make.\<close>

fun typed :: "kbd \<Rightarrow> u8 list \<Rightarrow> u8 list" where
  "typed k [] = []"
| "typed k (e # es) = (let k = fst (key_event e k) in translate_from_scan None e k # typed k es)"

definition edit_line :: "u8 list \<Rightarrow> u8 \<Rightarrow> u8 list" where
  "edit_line line c = (if c = 0 then line else if c = 0x08 then butlast line else line @ [c])"

definition function_key :: "u8 \<Rightarrow> bool" where
  "function_key e \<longleftrightarrow> 0x3b \<le> e \<and> e \<le> 0x42"

text \<open>The active terminal is number \<open>n\<close>, in canonical mode, and its queue holds a line.\<close>

definition line_tty :: "nat \<Rightarrow> nat \<Rightarrow> u8 list \<Rightarrow> terminals \<Rightarrow> bool" where
  "line_tty n e line t \<longleftrightarrow> n < 8 \<and> unat (theActiveTTY t) = n \<and> n < length (theTTYlist t) \<and> screen_ok (trm_scr t) \<and>
     on_press (trm_kbd t) = Some Tty_keyboard_handler \<and> on_release (trm_kbd t) = Some Tty_keyboard_handler \<and>
     (\<exists>tty. theTTYlist t ! n = Some tty \<and> tty_vcs tty = of_nat n \<and> tty_kbmode tty = TTYKBD_ANSI \<and>
        c_iflag (tty_conf tty) AND ICANON \<noteq> 0 \<and> q_holds (tty_inpq tty) e line)"

lemma key_event_handlers:
  assumes "on_press k = Some f" "on_release k = Some f"
  shows "snd (key_event e k) = Some f" "on_press (fst (key_event e k)) = Some f" "on_release (fst (key_event e k)) = Some f"
  using assms by (auto simp: key_event_def kbd_push_scancode_def Let_def)

lemma line_tty_upd:
  assumes "line_tty n e line t" "theTTYlist t ! n = Some tty" "q_holds q e' line'" "screen_ok sc"
  shows "line_tty n e' line' ((upd_tty n (tty_inpq_update (\<lambda>_. q)) t)\<lparr>trm_scr := sc\<rparr>)"
  using assms by (auto simp: line_tty_def upd_tty_def)

lemma tty_edit_line:
  assumes t: "line_tty n e line t" "theTTYlist t ! n = Some tty" and len: "e + length line + 1 < 512" and c: "c \<noteq> 0"
  shows "\<exists>t'. tty_edit tty n [c] t = Some t' \<and> line_tty n e (edit_line line c) t' \<and> trm_kbd t' = trm_kbd t"
proof -
  let ?u = "\<lambda>q. upd_tty n (tty_inpq_update (\<lambda>_. q)) t"
  have q: "q_holds (tty_inpq tty) e line" and n: "n < 8" "unat (theActiveTTY t) = n" "n < length (theTTYlist t)"
    and ok: "screen_ok (trm_scr t)" and v: "tty_vcs tty = of_nat n" "int (unat (tty_vcs tty)) = int n"
    using t by (auto simp: line_tty_def unat_of_nat_u32)
  note up = line_tty_upd [OF t]
  have f: "(?u q)\<lparr>trm_scr := trm_scr t\<rparr> = ?u q" "trm_kbd (?u q) = trm_kbd t" "trm_scr (?u q) = trm_scr t" for q
    by (simp_all add: upd_tty_def)
  show ?thesis
  proof (cases "c = 0x08")
    case True
    obtain q' where q': "tty_inpq_unpush (tty_inpq tty) 1 = (line \<noteq> [], q')" "q_holds q' e (butlast line)"
      using unpush_holds [OF q] by blast
    show ?thesis
    proof (cases "line = []")
      case empty: True
      have "tty_edit tty n [c] t = Some (?u q')" unfolding tty_edit_def Let_def q'(1) True using empty by simp
      then show ?thesis using up [OF q'(2) ok] f True by (simp add: edit_line_def)
    next
      case False
      have "get_tty_device (theActiveTTY (?u q')) (?u q') = Some (tty\<lparr>tty_inpq := q'\<rparr>)"
        using n t(2) by (simp add: get_tty_device_def upd_tty_def word_less_nat_alt)
      from tty_write_plain [OF this _ n(1), of 1 "\<lambda>i. if i = 0 then 0x08 else 0"] obtain sc' where
          w: "tty_write (theActiveTTY (?u q')) (\<lambda>i. if i = 0 then 0x08 else 0) 1 (?u q') = Some (0, (?u q')\<lparr>trm_scr := sc'\<rparr>)" "screen_ok sc'"
        using ok v(1) f by (auto simp: plain_def)
      have "tty_edit tty n [c] t = Some ((?u q')\<lparr>trm_scr := sc'\<rparr>)" unfolding tty_edit_def Let_def q'(1) True using False w(1) by simp
      then show ?thesis using up [OF q'(2) w(2)] f True by (simp add: edit_line_def)
    qed
  next
    case False
    obtain q' where q': "tty_inpq_push (tty_inpq tty) [c] = (True, q')" "q_holds q' e (line @ [c])"
      using push_holds [OF q len] by blast
    obtain s1 where s1: "vcsa_newline (int n) (trm_scr t) = Some s1" "screen_ok s1" by (rule refinesD [OF refines_newline [OF n(1)] ok])
    obtain s2 where s2: "vcsa_cprint (int n) c (trm_scr t) = Some s2" "screen_ok s2" by (rule refinesD [OF refines_cprint [OF n(1)] ok])
    have "tty_edit tty n [c] t = Some ((?u q')\<lparr>trm_scr := if c = 0x0a then s1 else s2\<rparr>)"
      unfolding tty_edit_def Let_def q'(1) v(2) using False s1(1) s2(1) f by simp
    moreover have "screen_ok (if c = 0x0a then s1 else s2)" using s1(2) s2(2) by simp
    ultimately show ?thesis using up [OF q'(2)] f False c by (simp add: edit_line_def)
  qed
qed

lemma typing_step:
  assumes t: "line_tty n e line t" and f: "\<not> function_key sc" and len: "e + length line + 1 < 512"
    and k: "k = fst (key_event sc (trm_kbd t))"
  shows "\<exists>t'. keyboard_irq sc t = Some t' \<and> line_tty n e (edit_line line (translate_from_scan None sc k)) t' \<and> trm_kbd t' = k"
proof -
  have h: "on_press (trm_kbd t) = Some Tty_keyboard_handler" "on_release (trm_kbd t) = Some Tty_keyboard_handler" using t by (auto simp: line_tty_def)
  note ke = key_event_handlers [OF h, of sc, folded k]
  let ?t = "t\<lparr>trm_kbd := k\<rparr>" and ?c = "translate_from_scan None sc k"
  have t1: "line_tty n e line ?t" using t ke(2,3) by (auto simp: line_tty_def)
  then obtain tty where tty: "theTTYlist ?t ! n = Some tty" "tty_kbmode tty = TTYKBD_ANSI" "c_iflag (tty_conf tty) AND ICANON \<noteq> 0"
    by (auto simp: line_tty_def)
  have "keyboard_irq sc t = tty_keyboard_handler sc ?t"
    using ke(1) k by (simp add: keyboard_irq_def Let_def split_beta)
  also have "\<dots> = (if ?c = 0 then Some ?t else tty_edit tty n [?c] ?t)"
    using tty f t1 by (auto simp: tty_keyboard_handler_def Let_def function_key_def ecma48_code_from_scancode_def line_tty_def)
  finally show ?thesis using t1 tty_edit_line [OF t1 tty(1) len, of ?c] by (auto simp: edit_line_def)
qed

section \<open>Reading a line\<close>

lemma edit_line_sub: "set (edit_line line c) \<subseteq> insert c (set line)" "0 \<notin> set line \<Longrightarrow> 0 \<notin> set (edit_line line c)"
    "length (edit_line line c) \<le> length line + (if c = 0 then 0 else 1)"
  by (auto simp: edit_line_def dest: in_set_butlastD)

lemma wait_line_typed:
  assumes "line_tty n e line t" "\<forall>x \<in> set (es @ [ent]). \<not> function_key x" "e + length line + length (filter (\<lambda>c. c \<noteq> 0) cs) + 1 < 512"
    and "0 \<notin> set line" "0x0a \<notin> set line" "typed (trm_kbd t) (es @ [ent]) = cs @ [0x0a]" "0x0a \<notin> set cs"
  shows "\<exists>t'. wait_line n (es @ ent # rest) t = Some (int (length (foldl edit_line line cs)), t', rest) \<and>
    line_tty n e (foldl edit_line line cs @ [0x0a]) t'"
  using assms
proof (induction es arbitrary: line t cs)
  case Nil
  obtain t1 where t1: "keyboard_irq ent t = Some t1" "line_tty n e (line @ [0x0a]) t1"
    using typing_step [OF Nil(1) _ _ refl, of ent] Nil(2,3,6) by (auto simp: Let_def edit_line_def)
  obtain tty where tty: "theTTYlist t ! n = Some tty" "q_holds (tty_inpq tty) e line" using Nil(1) by (auto simp: line_tty_def)
  obtain tty1 where tty1: "theTTYlist t1 ! n = Some tty1" "q_holds (tty_inpq tty1) e (line @ [0x0a])" using t1(2) by (auto simp: line_tty_def)
  have "wait_line n (ent # rest) t = wait_line n rest t1"
    using tty(1) no_newline [OF tty(2) Nil(5)] t1(1) by (subst wait_line.simps) simp
  also have "\<dots> = Some (int (length line), t1, rest)"
    using tty1(1) newline_found [OF tty1(2) Nil(4,5)] by (subst wait_line.simps) simp
  finally show ?case using t1(2) Nil(6) by (auto simp: Let_def)
next
  case (Cons x es)
  let ?c = "translate_from_scan None x (fst (key_event x (trm_kbd t)))"
  obtain t1 where t1: "keyboard_irq x t = Some t1" "line_tty n e (edit_line line ?c) t1" "trm_kbd t1 = fst (key_event x (trm_kbd t))"
    using typing_step [OF Cons.prems(1) _ _ refl, of x] Cons.prems(2,3) by auto
  obtain cs' where cs: "cs = ?c # cs'" "typed (trm_kbd t1) (es @ [ent]) = cs' @ [0x0a]"
    using Cons.prems(6) t1(3) by (cases cs; cases es) (auto simp: Let_def)
  obtain tty where tty: "theTTYlist t ! n = Some tty" "q_holds (tty_inpq tty) e line" using Cons.prems(1) by (auto simp: line_tty_def)
  have w: "wait_line n ((x # es) @ ent # rest) t = wait_line n (es @ ent # rest) t1"
    using tty(1) no_newline [OF tty(2) Cons.prems(5)] t1(1) by (subst wait_line.simps) simp
  have "0x0a \<notin> set (edit_line line ?c)" using edit_line_sub(1) [of line ?c] Cons.prems(5,7) cs(1) by auto
  then show ?case
    using Cons.IH [OF t1(2) _ _ edit_line_sub(2) _ cs(2)] Cons.prems edit_line_sub(3) [of line ?c] unfolding w cs(1) by (auto split: if_splits)
qed

text \<open>C8. Reading from the active terminal in canonical mode, with nothing in its queue, returns once a newline is typed,
  provided that the characters typed fit behind the end \<open>e\<close> of the queue without going round its ring of 512 bytes.
  It answers the line that was typed, with every backspace taking back the character before it, up to and with the
  newline; scan codes after it are left, and the queue is empty again, with its end moved behind the line.  The keys may be
  pressed and released in any way, with shift and control.  Once the ring wraps around \<^verbatim>\<open>tty_inpq_pop\<close> computes a wrong end,
  and the property is lost.\<close>

theorem tty_read_gives_typed_line:
  assumes "line_tty n e [] t" and "unat ttyno = n" and "\<forall>x \<in> set (es @ [ent]). \<not> function_key x"
    and "typed (trm_kbd t) (es @ [ent]) = cs @ [0x0a]" and "0x0a \<notin> set cs"
    and "e + length (filter (\<lambda>c. c \<noteq> 0) cs) + 1 < 512" and "length (foldl edit_line [] cs) < unat buflen"
  shows "\<exists>t'. tty_read ttyno buflen (es @ ent # rest) t = Some (0, foldl edit_line [] cs @ [0x0a], t', rest) \<and>
    line_tty n (e + length (foldl edit_line [] cs) + 1) [] t'"
proof -
  define L where "L = foldl edit_line [] cs"
  obtain t1 where t1: "wait_line n (es @ ent # rest) t = Some (int (length L), t1, rest)" "line_tty n e (L @ [0x0a]) t1"
    using wait_line_typed [OF assms(1,3) _ _ _ assms(4,5)] assms(6) by (auto simp: L_def)
  obtain tty where tty: "n < 8" "theTTYlist t ! n = Some tty" "tty_kbmode tty = TTYKBD_ANSI" "c_iflag (tty_conf tty) AND ICANON \<noteq> 0"
    using assms(1) by (auto simp: line_tty_def)
  obtain tty1 where tty1: "theTTYlist t1 ! n = Some tty1" "q_holds (tty_inpq tty1) e (L @ [0x0a])" using t1(2) by (auto simp: line_tty_def)
  obtain q where q: "tty_inpq_pop (tty_inpq tty1) (of_nat (length (L @ [0x0a]))) = Some (L @ [0x0a], q)" "q_holds q (e + length L + 1) []"
    using pop_holds [OF tty1(2)] by auto
  have "length L + 1 < 512" using tty1(2) by (simp add: q_holds_def)
  then have u: "unat (of_nat (length (L @ [0x0a])) :: u32) = length L + 1" by (subst unat_of_nat_u32) simp_all
  have w: "word_of_int (int (length L)) + 1 = (of_nat (length (L @ [0x0a])) :: u32)" by simp
  have b: "\<not> of_nat (length (L @ [0x0a])) > buflen" unfolding word_less_nat_alt u using assms(7) by (simp add: L_def)
  define t2 where "t2 = upd_tty n (tty_inpq_update (\<lambda>_. q)) t1"
  have p: "pop_input n (of_nat (length (L @ [0x0a]))) t1 = Some (L @ [0x0a], t2)"
    unfolding pop_input_def tty1(1) bind.bind_lunit q(1) by (simp add: t2_def)
  have "dev_tty_read n buflen (es @ ent # rest) t = Some (0, L @ [0x0a], t2, rest)"
    unfolding dev_tty_read_def tty(2) bind.bind_lunit tty(3) tty_kbdmode.case if_P [OF tty(4)] t1(1) prod.case Let_def w if_not_P [OF b] p ..
  then have "tty_read ttyno buflen (es @ ent # rest) t = Some (0, L @ [0x0a], t2, rest)"
    using tty(1,2) assms(2) by (simp add: tty_read_def get_tty_device_def word_less_nat_alt)
  moreover have "line_tty n (e + length L + 1) [] t2"
    using line_tty_upd [OF t1(2) tty1(1) q(2), of "trm_scr t1"] t1(2) by (simp add: t2_def upd_tty_def line_tty_def)
  ultimately show ?thesis unfolding L_def by blast
qed

lemma ex_line_tty: "line_tty 0 0 [] ex_terminals"
proof -
  have l: "length (theTTYlist ex_terminals) = 64" "theTTYlist ex_terminals ! 0 = Some ex_tty" "unat (theActiveTTY ex_terminals) = 0"
      "trm_kbd ex_terminals = ex_kbd" "trm_scr ex_terminals = ex_screen"
    by (simp_all only: ex_terminals_def terminals.simps length_replicate nth_replicate zero_less_numeral unat_0)
  have "q_holds (tty_inpq ex_tty) 0 []"
    by (simp only: q_holds_def ex_tty_def tty_device.simps tty_input_queue.simps length_replicate unat_0 list.size take_0 drop_0 add_0 simp_thms)
  moreover have "c_iflag stty_sane AND ICANON = 0x100" by (simp add: stty_sane_def ICANON_def)
  then have "c_iflag (tty_conf ex_tty) AND ICANON \<noteq> 0" "tty_vcs ex_tty = of_nat 0" "tty_kbmode ex_tty = TTYKBD_ANSI" by (simp_all add: ex_tty_def)
  moreover have "on_press ex_kbd = Some Tty_keyboard_handler" "on_release ex_kbd = Some Tty_keyboard_handler" by (simp_all add: ex_kbd_def)
  ultimately show ?thesis unfolding line_tty_def l using ex_screen_ok by auto
qed

text \<open>Pressing a key, seen through the state of the keys alone.\<close>

lemma translate_key:
  assumes "theKeyboard k = ks" "unat e < 128" "e AND 0x80 = 0"
  shows "theKeyboard (fst (key_event e k)) = ks[unat e := True]"
    "translate_from_scan None e (fst (key_event e k)) =
      (let ks = ks[unat e := True]; key = qwerty_layout ! unat e
       in if ks ! 0x1D then sk_ctrl key else if ks ! 0x2A \<or> ks ! 0x36 then sk_shift key else sk_normal key)"
  using assms by (simp_all add: key_event_def kbd_push_scancode_def translate_from_scan_def kbd_state_ctrl_def kbd_state_shift_def CTRL_MOD_def Let_def)

fun pressed :: "bool list \<Rightarrow> u8 list \<Rightarrow> u8 list" where
  "pressed ks [] = []"
| "pressed ks (e # es) =
     (let ks = ks[unat e := True]; key = qwerty_layout ! unat e
      in (if ks ! 0x1D then sk_ctrl key else if ks ! 0x2A \<or> ks ! 0x36 then sk_shift key else sk_normal key) # pressed ks es)"

lemma typed_pressed: "\<forall>e \<in> set es. unat e < 128 \<and> e AND 0x80 = 0 \<Longrightarrow> typed k es = pressed (theKeyboard k) es"
proof (induction es arbitrary: k)
  case (Cons e es)
  note t = translate_key [OF refl, of e k]
  show ?case using Cons t by (simp add: Let_def)
qed simp

lemma ex_layout: "qwerty_layout ! 30 = Key 0x61 0x41 1" "qwerty_layout ! 48 = Key 0x62 0x42 2" "qwerty_layout ! 14 = Key 8 8 0"
    "qwerty_layout ! 42 = Key 0 0 0" "qwerty_layout ! 31 = Key 0x73 0x53 18" "qwerty_layout ! 28 = Key 0x0a 0x0a 0"
  by (simp_all add: qwerty_layout_def nth_append)

text \<open>The keys A, B, backspace, shift with S, and enter.\<close>

lemma ex_typed: "typed ex_kbd ([0x1E, 0x30, 0x0E, 0x2A, 0x1F] @ [0x1C]) = [0x61, 0x62, 0x08, 0, 0x53] @ [0x0a]"
proof -
  have "typed ex_kbd [0x1E, 0x30, 0x0E, 0x2A, 0x1F, 0x1C] = pressed (theKeyboard ex_kbd) [0x1E, 0x30, 0x0E, 0x2A, 0x1F, 0x1C]"
    by (rule typed_pressed) simp
  moreover have "pressed ks [0x1E, 0x30, 0x0E, 0x2A, 0x1F, 0x1C] = [0x61, 0x62, 0x08, 0, 0x53, 0x0a]"
    if "length ks = 128" "\<And>i. i < 128 \<Longrightarrow> \<not> ks ! i" for ks
    using that by (simp add: Let_def ex_layout)
  moreover have "length (theKeyboard ex_kbd) = 128" "\<And>i. i < 128 \<Longrightarrow> \<not> theKeyboard ex_kbd ! i" by (simp_all add: ex_kbd_def)
  ultimately show ?thesis unfolding append_Cons append_Nil by metis
qed

theorem tty_read_gives_typed_line_witness:
  "\<exists>t'. tty_read 0 100 ([0x1E, 0x30, 0x0E, 0x2A, 0x1F] @ 0x1C # [0x9F]) ex_terminals = Some (0, [0x61, 0x53] @ [0x0a], t', [0x9F])"
proof -
  have k: "trm_kbd ex_terminals = ex_kbd" by (simp only: ex_terminals_def terminals.simps)
  have l: "foldl edit_line [] [0x61, 0x62, 0x08, 0, 0x53] = [0x61, 0x53]" by (simp add: edit_line_def)
  have f: "\<forall>x \<in> set ([0x1E, 0x30, 0x0E, 0x2A, 0x1F] @ [0x1C]). \<not> function_key x" by (simp add: function_key_def)
  from tty_read_gives_typed_line [OF ex_line_tty _ f ex_typed [folded k], of 0 100 "[0x9F]"]
  show ?thesis unfolding l by auto
qed

end
