(* ===== verification/Crc32.thy ===== *)
theory Crc32
  imports Cosec_Prelude
begin

text \<open>
  The checksums of \<^verbatim>\<open>lib/c/src/crc32.c\<close>, and their equivalence with the division by the polynomial, bit by bit.
\<close>

section \<open>The code\<close>

definition nib_reverse :: "u8 list" where
  "nib_reverse = [0x0, 0x8, 0x4, 0xC, 0x2, 0xA, 0x6, 0xE, 0x1, 0x9, 0x5, 0xD, 0x3, 0xB, 0x7, 0xF]"

definition crc_table :: "u32 list" where
  "crc_table =
    [0x00000000, 0x04C11DB7, 0x09823B6E, 0x0D4326D9, 0x130476DC, 0x17C56B6B, 0x1A864DB2, 0x1E475005,
     0x2608EDB8, 0x22C9F00F, 0x2F8AD6D6, 0x2B4BCB61, 0x350C9B64, 0x31CD86D3, 0x3C8EA00A, 0x384FBDBD,
     0x4C11DB70, 0x48D0C6C7, 0x4593E01E, 0x4152FDA9, 0x5F15ADAC, 0x5BD4B01B, 0x569796C2, 0x52568B75,
     0x6A1936C8, 0x6ED82B7F, 0x639B0DA6, 0x675A1011, 0x791D4014, 0x7DDC5DA3, 0x709F7B7A, 0x745E66CD,
     0x9823B6E0, 0x9CE2AB57, 0x91A18D8E, 0x95609039, 0x8B27C03C, 0x8FE6DD8B, 0x82A5FB52, 0x8664E6E5,
     0xBE2B5B58, 0xBAEA46EF, 0xB7A96036, 0xB3687D81, 0xAD2F2D84, 0xA9EE3033, 0xA4AD16EA, 0xA06C0B5D,
     0xD4326D90, 0xD0F37027, 0xDDB056FE, 0xD9714B49, 0xC7361B4C, 0xC3F706FB, 0xCEB42022, 0xCA753D95,
     0xF23A8028, 0xF6FB9D9F, 0xFBB8BB46, 0xFF79A6F1, 0xE13EF6F4, 0xE5FFEB43, 0xE8BCCD9A, 0xEC7DD02D,
     0x34867077, 0x30476DC0, 0x3D044B19, 0x39C556AE, 0x278206AB, 0x23431B1C, 0x2E003DC5, 0x2AC12072,
     0x128E9DCF, 0x164F8078, 0x1B0CA6A1, 0x1FCDBB16, 0x018AEB13, 0x054BF6A4, 0x0808D07D, 0x0CC9CDCA,
     0x7897AB07, 0x7C56B6B0, 0x71159069, 0x75D48DDE, 0x6B93DDDB, 0x6F52C06C, 0x6211E6B5, 0x66D0FB02,
     0x5E9F46BF, 0x5A5E5B08, 0x571D7DD1, 0x53DC6066, 0x4D9B3063, 0x495A2DD4, 0x44190B0D, 0x40D816BA,
     0xACA5C697, 0xA864DB20, 0xA527FDF9, 0xA1E6E04E, 0xBFA1B04B, 0xBB60ADFC, 0xB6238B25, 0xB2E29692,
     0x8AAD2B2F, 0x8E6C3698, 0x832F1041, 0x87EE0DF6, 0x99A95DF3, 0x9D684044, 0x902B669D, 0x94EA7B2A,
     0xE0B41DE7, 0xE4750050, 0xE9362689, 0xEDF73B3E, 0xF3B06B3B, 0xF771768C, 0xFA325055, 0xFEF34DE2,
     0xC6BCF05F, 0xC27DEDE8, 0xCF3ECB31, 0xCBFFD686, 0xD5B88683, 0xD1799B34, 0xDC3ABDED, 0xD8FBA05A,
     0x690CE0EE, 0x6DCDFD59, 0x608EDB80, 0x644FC637, 0x7A089632, 0x7EC98B85, 0x738AAD5C, 0x774BB0EB,
     0x4F040D56, 0x4BC510E1, 0x46863638, 0x42472B8F, 0x5C007B8A, 0x58C1663D, 0x558240E4, 0x51435D53,
     0x251D3B9E, 0x21DC2629, 0x2C9F00F0, 0x285E1D47, 0x36194D42, 0x32D850F5, 0x3F9B762C, 0x3B5A6B9B,
     0x0315D626, 0x07D4CB91, 0x0A97ED48, 0x0E56F0FF, 0x1011A0FA, 0x14D0BD4D, 0x19939B94, 0x1D528623,
     0xF12F560E, 0xF5EE4BB9, 0xF8AD6D60, 0xFC6C70D7, 0xE22B20D2, 0xE6EA3D65, 0xEBA91BBC, 0xEF68060B,
     0xD727BBB6, 0xD3E6A601, 0xDEA580D8, 0xDA649D6F, 0xC423CD6A, 0xC0E2D0DD, 0xCDA1F604, 0xC960EBB3,
     0xBD3E8D7E, 0xB9FF90C9, 0xB4BCB610, 0xB07DABA7, 0xAE3AFBA2, 0xAAFBE615, 0xA7B8C0CC, 0xA379DD7B,
     0x9B3660C6, 0x9FF77D71, 0x92B45BA8, 0x9675461F, 0x8832161A, 0x8CF30BAD, 0x81B02D74, 0x857130C3,
     0x5D8A9099, 0x594B8D2E, 0x5408ABF7, 0x50C9B640, 0x4E8EE645, 0x4A4FFBF2, 0x470CDD2B, 0x43CDC09C,
     0x7B827D21, 0x7F436096, 0x7200464F, 0x76C15BF8, 0x68860BFD, 0x6C47164A, 0x61043093, 0x65C52D24,
     0x119B4BE9, 0x155A565E, 0x18197087, 0x1CD86D30, 0x029F3D35, 0x065E2082, 0x0B1D065B, 0x0FDC1BEC,
     0x3793A651, 0x3352BBE6, 0x3E119D3F, 0x3AD08088, 0x2497D08D, 0x2056CD3A, 0x2D15EBE3, 0x29D4F654,
     0xC5A92679, 0xC1683BCE, 0xCC2B1D17, 0xC8EA00A0, 0xD6AD50A5, 0xD26C4D12, 0xDF2F6BCB, 0xDBEE767C,
     0xE3A1CBC1, 0xE760D676, 0xEA23F0AF, 0xEEE2ED18, 0xF0A5BD1D, 0xF464A0AA, 0xF9278673, 0xFDE69BC4,
     0x89B8FD09, 0x8D79E0BE, 0x803AC667, 0x84FBDBD0, 0x9ABC8BD5, 0x9E7D9662, 0x933EB0BB, 0x97FFAD0C,
     0xAFB010B1, 0xAB710D06, 0xA6322BDF, 0xA2F33668, 0xBCB4666D, 0xB8757BDA, 0xB5365D03, 0xB1F740B4]"

definition reverse_byte :: "u8 \<Rightarrow> u8" where
  "reverse_byte b = push_bit 4 (nib_reverse ! unat (b AND 0x0f)) OR nib_reverse ! unat (drop_bit 4 b)"

definition crc_update :: "u32 \<Rightarrow> u8 \<Rightarrow> u32" where
  "crc_update crc b =
     crc_table ! unat (ucast (reverse_byte b) XOR (drop_bit 24 crc AND 0xff)) XOR push_bit 8 crc"

definition digital_update_crc32 :: "u32 \<Rightarrow> u8 list \<Rightarrow> u32" where
  "digital_update_crc32 crc data = foldl crc_update crc data"

definition digital_crc32 :: "u8 list \<Rightarrow> u32" where
  "digital_crc32 buf = digital_update_crc32 0xffffffff buf XOR 0xffffffff"

text \<open>The loop reads \<^verbatim>\<open>rcrc\<close> before it is set, so its first value is a parameter.\<close>

definition reverse_step :: "u32 \<times> u32 \<Rightarrow> u32 \<times> u32" where
  "reverse_step p =
     (case p of (crc, rcrc) \<Rightarrow> (drop_bit 4 crc, push_bit 4 rcrc OR ucast (nib_reverse ! unat (crc AND 0xf))))"

definition ethernet_crc32 :: "u32 \<Rightarrow> u8 list \<Rightarrow> u32" where
  "ethernet_crc32 rcrc b = snd ((reverse_step ^^ 8) (digital_crc32 b, rcrc))"

section \<open>Division by the polynomial\<close>

definition crc_shift :: "u32 \<Rightarrow> u32" where
  "crc_shift c = push_bit 1 c XOR (if bit c 31 then 0x04C11DB7 else 0)"

definition crc_bit :: "u32 \<Rightarrow> bool \<Rightarrow> u32" where
  "crc_bit c x = crc_shift (c XOR (if x then 0x80000000 else 0))"

text \<open>The bits of a message in the order in which they are sent: the lowest bit of each byte first.\<close>

definition byte_bits :: "u8 \<Rightarrow> bool list" where
  "byte_bits b = map (bit b) [0..<8]"

fun pack :: "bool list \<Rightarrow> u32" where
  "pack [] = 0"
| "pack (x # xs) = (if x then 0x80000000 else 0) XOR drop_bit 1 (pack xs)"

lemma shift_xor: "crc_shift (a XOR b) = crc_shift a XOR crc_shift b"
  unfolding crc_shift_def by (cases "bit a 31"; cases "bit b 31") (auto intro!: bit_word_eqI simp: bit_simps)

lemma shifts_xor: "(crc_shift ^^ n) (a XOR b) = (crc_shift ^^ n) a XOR (crc_shift ^^ n) b"
  by (induction n) (simp_all add: shift_xor)

text \<open>Each entry gives the two at twice its index.\<close>

fun doubled :: "u32 list \<Rightarrow> u32 list \<Rightarrow> bool" where
  "doubled (t # ts) (a # b # r) \<longleftrightarrow> a = crc_shift t \<and> b = a XOR 0x04C11DB7 \<and> doubled ts r"
| "doubled _ r \<longleftrightarrow> r = []"

lemma doubled_nth:
  "doubled ts r \<Longrightarrow> 2 * i + 1 < length r \<Longrightarrow> r ! (2 * i) = crc_shift (ts ! i) \<and> r ! (2 * i + 1) = crc_shift (ts ! i) XOR 0x04C11DB7"
proof (induction ts r arbitrary: i rule: doubled.induct)
  case (1 t ts a b r)
  then show ?case by (cases i) auto
qed auto

lemma table_doubled: "doubled crc_table crc_table"
  unfolding crc_table_def by (simp add: crc_shift_def)

lemma table_length: "length crc_table = 256"
  by (simp add: crc_table_def)

lemma eight_times: "(f ^^ 8) x = f (f (f (f (f (f (f (f x)))))))"
  by (simp add: numeral_eq_Suc)

lemma table_first: "crc_table ! 0 = 0" "(crc_shift ^^ 8) 0 = 0" "(crc_shift ^^ 8) 0x1000000 = 0x04C11DB7"
  unfolding eight_times by (simp_all add: crc_table_def crc_shift_def)

lemma table_at: "i < 256 \<Longrightarrow> crc_table ! i = (crc_shift ^^ 8) (push_bit 24 (of_nat i))"
proof (induction i rule: less_induct)
  case (less i)
  show ?case
  proof (cases "i = 0")
    case True
    then show ?thesis using table_first(1,2) by simp
  next
    case False
    define k where "k = i div 2"
    have k: "k < i" "k < 128" "i = 2 * k \<or> i = 2 * k + 1" using False less.prems by (auto simp: k_def)
    have "\<not> bit (push_bit 24 (of_nat k) :: u32) 31"
    proof -
      have "\<not> bit k 7" using k(2) by (simp add: bit_iff_odd)
      then show ?thesis by (simp add: bit_simps)
    qed
    then have e: "push_bit 24 (of_nat (2 * k)) = crc_shift (push_bit 24 (of_nat k))" by (simp add: crc_shift_def push_bit_eq_mult)
    have "(push_bit 24 (of_nat (2 * k + 1)) :: u32) = push_bit 24 (of_nat (2 * k)) XOR 0x1000000"
    proof -
      have "(of_nat (2 * k + 1) :: u32) = of_nat (2 * k) XOR 1" by (simp add: xor_one_eq)
      then have "(push_bit 24 (of_nat (2 * k + 1)) :: u32) = push_bit 24 (of_nat (2 * k)) XOR push_bit 24 1" by (simp only: push_bit_xor)
      then show ?thesis by simp
    qed
    moreover have "(crc_shift ^^ 8) (crc_shift x) = crc_shift ((crc_shift ^^ 8) x)" for x by (simp add: funpow_swap1)
    moreover have "crc_table ! k = (crc_shift ^^ 8) (push_bit 24 (of_nat k))" using less.IH k(1) less.prems by simp
    moreover have "crc_table ! (2 * k) = crc_shift (crc_table ! k)" "crc_table ! (2 * k + 1) = crc_shift (crc_table ! k) XOR 0x04C11DB7"
      using doubled_nth [OF table_doubled, of k] k(2) by (auto simp: table_length)
    ultimately show ?thesis using k(3) e by (auto simp only: shifts_xor table_first(3))
  qed
qed

section \<open>Bits in sending order\<close>

lemma pack_bit: "length xs \<le> 32 \<Longrightarrow> bit (pack xs) k \<longleftrightarrow> k < 32 \<and> 31 - k < length xs \<and> xs ! (31 - k)"
proof (induction xs arbitrary: k)
  case (Cons x xs)
  have t: "bit (0x80000000 :: u32) k \<longleftrightarrow> k = 31"
  proof -
    have "(0x80000000 :: u32) = push_bit 31 1" by simp
    then show ?thesis by (simp only: bit_push_bit_iff bit_1_iff) auto
  qed
  show ?case
  proof (cases "k < 31")
    case True
    then have "31 - k = Suc (30 - k)" "31 - (1 + k) = 30 - k" by simp_all
    then show ?thesis using Cons t True by (auto simp: bit_simps)
  next
    case False
    then show ?thesis using Cons t by (cases "k = 31") (auto simp: bit_simps dest: bit_imp_le_length)
  qed
qed simp

lemma pack_bits:
  assumes "length xs < 32"
  shows "push_bit 1 (drop_bit 1 (pack xs)) = pack xs" "\<not> bit (drop_bit 1 (pack xs)) 31"
proof -
  have z: "\<not> bit (pack xs) 0" using assms pack_bit [of xs 0] by simp
  have "\<not> bit (pack xs) 32" using assms pack_bit [of xs 32] by simp
  then show "\<not> bit (drop_bit 1 (pack xs)) 31" by (simp add: bit_drop_bit_eq)
  show "push_bit 1 (drop_bit 1 (pack xs)) = pack xs"
  proof (rule bit_word_eqI)
    fix n assume "n < LENGTH(32)"
    then show "bit (push_bit 1 (drop_bit 1 (pack xs))) n = bit (pack xs) n"
      unfolding bit_push_bit_iff bit_drop_bit_eq using z by (cases n) simp_all
  qed
qed

lemma shifts_pack: "length xs \<le> 32 \<Longrightarrow> (crc_shift ^^ length xs) (c XOR pack xs) = foldl crc_bit c xs"
proof (induction xs arbitrary: c)
  case (Cons x xs)
  let ?d = "if x then 0x80000000 else 0 :: u32"
  have "crc_shift (drop_bit 1 (pack xs)) = pack xs" using pack_bits [of xs] Cons.prems by (simp add: crc_shift_def)
  moreover have "c XOR pack (x # xs) = (c XOR ?d) XOR drop_bit 1 (pack xs)" by (simp only: pack.simps xor.assoc)
  ultimately have "crc_shift (c XOR pack (x # xs)) = crc_bit c x XOR pack xs"
    by (simp only: crc_bit_def shift_xor)
  then show ?case using Cons by (simp add: funpow_swap1 del: pack.simps)
qed simp

lemma nibble_bits: "i < 16 \<Longrightarrow> bit (nib_reverse ! i) k \<longleftrightarrow> k < 4 \<and> bit i (3 - k)"
proof -
  assume "i < 16"
  then have "i \<in> {0, 1, 2, 3, 4, 5, 6, 7, 8, 9, 10, 11, 12, 13, 14, 15}" by simp arith
  moreover have "\<not> bit (nib_reverse ! i) k" if "\<not> k < 4"
  proof -
    have "\<forall>n \<in> set nib_reverse. n AND mask 4 = n" by (simp add: nib_reverse_def mask_eq_exp_minus_1)
    moreover have "nib_reverse ! i \<in> set nib_reverse" using \<open>i < 16\<close> by (intro nth_mem) (simp add: nib_reverse_def)
    ultimately have "nib_reverse ! i AND mask 4 = nib_reverse ! i" by blast
    then show ?thesis using that by (metis bit_and_iff bit_mask_iff)
  qed
  moreover have "k = 0 \<or> k = 1 \<or> k = 2 \<or> k = 3" if "k < 4" using that by auto
  moreover have "bit (Suc 0) 0" by (simp add: bit_0)
  ultimately show ?thesis by (cases "k < 4") (auto simp: nib_reverse_def)
qed

lemma reverse_bits: "k < 8 \<Longrightarrow> bit (reverse_byte b) k \<longleftrightarrow> bit b (7 - k)"
proof -
  assume k: "k < 8"
  have m: "(0x0f :: u8) = mask 4" by (simp add: mask_eq_exp_minus_1)
  have l: "unat (b AND 0x0f) < 16" unfolding m unat_mask_and by simp
  have h: "unat (drop_bit 4 b) < 16" using unsigned_less [of b] by (simp add: drop_bit_eq_div unat_div div_less_iff_less_mult)
  have u: "bit (unat (x :: u8)) n = bit x n" for x n by (simp add: bit_unsigned_iff bit_imp_le_length)
  show ?thesis
  proof (cases "k < 4")
    case True
    then have "4 + (3 - k) = 7 - k" by simp
    then show ?thesis using True k unfolding reverse_byte_def by (simp add: bit_or_iff bit_push_bit_iff nibble_bits [OF h] u bit_drop_bit_eq)
  next
    case False
    then have "3 - (k - 4) = 7 - k" "k - 4 < 4" "7 - k < 4" using k by simp_all
    moreover have "bit (b AND 0x0f) (7 - k) = bit b (7 - k)" unfolding m using calculation(3) by (simp add: bit_and_iff bit_mask_iff)
    ultimately show ?thesis using False k unfolding reverse_byte_def bit_or_iff bit_push_bit_iff nibble_bits [OF l] nibble_bits [OF h] u by simp
  qed
qed

lemma reverse_pack: "push_bit 24 (ucast (reverse_byte b) :: u32) = pack (byte_bits b)"
proof (rule bit_word_eqI)
  fix k assume k: "k < LENGTH(32)"
  have l: "length (byte_bits b) = 8" and le: "8 \<le> (32 :: nat)" by (simp_all add: byte_bits_def)
  show "bit (push_bit 24 (ucast (reverse_byte b) :: u32)) k = bit (pack (byte_bits b)) k"
  proof (cases "k < 24")
    case True
    then have "\<not> 31 - k < 8" by simp
    then show ?thesis using True unfolding pack_bit [of "byte_bits b", unfolded l, OF le] bit_push_bit_iff by simp
  next
    case False
    then have "k - 24 < 8" "7 - (k - 24) = 31 - k" "31 - k < 8" using k by simp_all
    moreover have "byte_bits b ! (31 - k) = bit b (31 - k)" using calculation(3) by (simp add: byte_bits_def del: upt_rec_numeral)
    ultimately show ?thesis using False k reverse_bits [of "k - 24" b]
      unfolding pack_bit [of "byte_bits b", unfolded l, OF le] bit_push_bit_iff by (simp add: bit_unsigned_iff)
  qed
qed

lemma update_bits: "crc_update crc b = foldl crc_bit crc (byte_bits b)"
proof -
  let ?r = "ucast (reverse_byte b) :: u32"
  define i where "i = ?r XOR (drop_bit 24 crc AND 0xff)"
  have m: "(0xff :: u32) = mask 8" by (simp add: mask_eq_exp_minus_1)
  have rm: "?r AND mask 8 = ?r" by (rule bit_word_eqI) (auto simp: bit_simps dest: bit_imp_le_length)
  have "i AND mask 8 = i" unfolding i_def m bit.conj_xor_distrib2 rm by (simp only: and.assoc and.idem)
  then have i: "unat i < 256" using unat_mask_and [of i 8] by simp
  define lo where "lo = crc AND mask 24"
  have split: "crc XOR push_bit 24 ?r = push_bit 24 i XOR lo"
    unfolding i_def lo_def m by (rule bit_word_eqI) (auto simp: bit_simps)
  have shift: "(crc_shift ^^ n) lo = push_bit n lo" if "n \<le> 8" for n
    using that
  proof (induction n)
    case (Suc n)
    have "\<not> bit (push_bit n lo) 31" using Suc.prems by (auto simp: lo_def bit_simps)
    then have "crc_shift (push_bit n lo) = push_bit (Suc n) lo" unfolding crc_shift_def by simp
    then show ?case using Suc by simp
  qed simp
  have "push_bit 8 lo = push_bit 8 crc" unfolding lo_def by (rule bit_word_eqI) (auto simp: bit_simps)
  then have "crc_update crc b = (crc_shift ^^ 8) (push_bit 24 i) XOR (crc_shift ^^ 8) lo"
    unfolding crc_update_def i_def [symmetric] table_at [OF i] using shift [of 8] by simp
  also have "\<dots> = (crc_shift ^^ 8) (crc XOR pack (byte_bits b))" unfolding shifts_xor [symmetric] split [symmetric] reverse_pack ..
  also have "\<dots> = foldl crc_bit crc (byte_bits b)" using shifts_pack [of "byte_bits b" crc] by (simp add: byte_bits_def)
  finally show ?thesis .
qed

lemma update_all: "digital_update_crc32 crc data = foldl crc_bit crc (concat (map byte_bits data))"
  unfolding digital_update_crc32_def by (induction data arbitrary: crc) (simp_all add: update_bits)

section \<open>The reversed checksum\<close>

lemma reverse_steps:
  assumes "n \<le> 8" "(reverse_step ^^ n) (crc, r) = (c', r')"
  shows "c' = drop_bit (4 * n) crc \<and>
    (\<forall>k < 32. bit r' k \<longleftrightarrow> (if k < 4 * n then bit crc (4 * n - 1 - k) else bit r (k - 4 * n)))"
  using assms
proof (induction n arbitrary: c' r')
  case (Suc n)
  obtain c1 r1 where p: "(reverse_step ^^ n) (crc, r) = (c1, r1)" by fastforce
  have ih: "c1 = drop_bit (4 * n) crc" "\<forall>k < 32. bit r1 k \<longleftrightarrow> (if k < 4 * n then bit crc (4 * n - 1 - k) else bit r (k - 4 * n))"
    using Suc.IH [OF _ p] Suc.prems(1) by auto
  have e: "c' = drop_bit 4 c1" "r' = push_bit 4 r1 OR ucast (nib_reverse ! unat (c1 AND 0xf))"
    using Suc.prems(2) unfolding funpow.simps comp_apply p by (auto simp: reverse_step_def)
  have m: "(0xf :: u32) = mask 4" by (simp add: mask_eq_exp_minus_1)
  have l: "unat (c1 AND 0xf) < 16" unfolding m unat_mask_and by simp
  have u: "bit (unat (x :: u32)) k = bit x k" for x k by (simp add: bit_unsigned_iff bit_imp_le_length)
  have "bit r' k \<longleftrightarrow> (if k < 4 * Suc n then bit crc (4 * Suc n - 1 - k) else bit r (k - 4 * Suc n))" if k: "k < 32" for k
  proof (cases "k < 4")
    case True
    then have "4 * n + (3 - k) = 4 * Suc n - 1 - k" by simp
    moreover have "3 - k < 4" "3 - k < 32" by simp_all
    then have "bit (c1 AND 0xf) (3 - k) = bit c1 (3 - k)" unfolding m bit_and_iff bit_mask_iff by simp
    moreover have "bit c1 (3 - k) = bit crc (4 * n + (3 - k))" unfolding ih(1) by (simp add: bit_drop_bit_eq)
    moreover have "bit r' k = bit (c1 AND 0xf) (3 - k)"
      using True k nibble_bits [OF l, of k, unfolded u] unfolding e(2) bit_or_iff bit_push_bit_iff bit_unsigned_iff by simp
    ultimately show ?thesis using True by simp
  next
    case False
    then have "4 * n - 1 - (k - 4) = 4 * Suc n - 1 - k" "k - 4 - 4 * n = k - 4 * Suc n" "k - 4 < 4 * n \<longleftrightarrow> k < 4 * Suc n" by auto
    then show ?thesis
      using False k ih(2) [rule_format, of "k - 4"] unfolding e(2) bit_or_iff bit_push_bit_iff bit_unsigned_iff nibble_bits [OF l] by simp
  qed
  then show ?case using e(1) ih(1) by (simp add: add.commute)
qed simp

lemma ethernet_bits: "k < 32 \<Longrightarrow> bit (ethernet_crc32 rcrc b) k \<longleftrightarrow> bit (digital_crc32 b) (31 - k)"
  using reverse_steps [of 8 "digital_crc32 b" rcrc] by (cases "(reverse_step ^^ 8) (digital_crc32 b, rcrc)") (auto simp: ethernet_crc32_def)

text \<open>C19. The table-driven checksum is the remainder of the division by the polynomial 0x104C11DB7, computed bit by bit over
  the message in sending order and complemented.  The Ethernet checksum is that remainder with its 32 bits reversed,
  whatever the uninitialised variable of its loop holds.\<close>

theorem crc32_divides_by_polynomial:
  "digital_crc32 msg = NOT (foldl crc_bit 0xffffffff (concat (map byte_bits msg))) \<and>
   map (bit (ethernet_crc32 rcrc msg)) [0..<32] = rev (map (bit (digital_crc32 msg)) [0..<32])"
proof
  have "(0xffffffff :: u32) = - 1" by simp
  then show "digital_crc32 msg = NOT (foldl crc_bit 0xffffffff (concat (map byte_bits msg)))"
    unfolding digital_crc32_def update_all by (simp only: bit.xor_one_right)
  show "map (bit (ethernet_crc32 rcrc msg)) [0..<32] = rev (map (bit (digital_crc32 msg)) [0..<32])"
    by (rule nth_equalityI) (simp_all add: rev_nth ethernet_bits del: upt_rec_numeral)
qed

end
