(* ===== verification/Spec2Isabelle.thy ===== *)
theory Spec2Isabelle
  imports Elf_Load Libc_String Net_Spec Fs_Spec Tty_Line Crc32
begin

text \<open>
  COSEC is a hobby operating system for the i386, written in C.  This development models its kernel and the part of
  its C library that the kernel is built on, function by function, and proves what the functions promise.  File names
  below are relative to \<^verbatim>\<open>src/\<close>.

  \<^bold>\<open>The program.\<close>  The boot loader leaves the kernel in low memory.  A frame allocator hands out the physical pages
  behind the kernel's last module, the kernel heap takes one megabyte of them, and the paging code maps physical memory
  at the kernel's addresses.  On top of the heap stand a RAM file system behind a virtual file system with devices, a
  network stack that queues received frames, a table of processes with their file descriptors and memory, and a ring of
  tasks that the timer interrupt switches.  Keyboard interrupts fill the input queues of the terminals, and terminals
  and the kernel's messages are shown on text consoles, one of which is in the video memory.

  \<^bold>\<open>Conventions.\<close>  Machine integers are words of their width (\<open>u8\<close>, \<open>u16\<close>, \<open>u32\<close>, \<open>u64\<close>), with wrap-around; a C
  \<^verbatim>\<open>int\<close> is a \<open>u32\<close> read with \<open>sint\<close>, or an \<open>int\<close> where the code keeps it small.  Pointers are \<open>u32\<close>.  Structures
  are records, in a map from addresses where the code shares them by pointer and values where one owner holds them.  C
  strings are lists of characters with suffixes as pointers.  An operation that the code may never finish, or that reads
  through a null or dangling pointer, gives \<open>None\<close>; error numbers are the values the code returns.  Loops whose end is not
  evident are \<^verbatim>\<open>partial_function (option)\<close>, so that a theorem which states a result also states that the loop ends;
  there is no fuel.  Bounded loops are recursion on the counter, with the bound of the code.  Functions of other
  components are called directly; functions behind pointers (drivers, device operations) are fields of records.  What
  arrives from outside during a wait (interrupts, frames, scan codes) is an explicit list.  Log messages are left out.

  \<^bold>\<open>Library.\<close>  \<^verbatim>\<open>Cosec_Prelude\<close> has the machine types, the error numbers of \<^verbatim>\<open>lib/c/include/sys/errno.h\<close> and facts
  on words, lists and options.  \<^verbatim>\<open>Ring_List\<close> is a theory of circular doubly linked lists given by successor and
  predecessor functions, shared by heap chunks, received frames and tasks.  \<^verbatim>\<open>Libc_Memory\<close> and \<^verbatim>\<open>Libc_String\<close> model
  \<^verbatim>\<open>lib/c/src/stdlib.c\<close>: copying with overlap, comparison, searching, character classes, tokens and numerals.
  \<^verbatim>\<open>Crc32\<close> models \<^verbatim>\<open>lib/c/src/crc32.c\<close> and shows that the tables compute division by the polynomial.

  \<^bold>\<open>Memory.\<close>  \<^verbatim>\<open>FF_Alloc\<close> is \<^verbatim>\<open>src/mem/ff_alloc.c\<close>.  \<^verbatim>\<open>FF_Heap\<close> has its invariant (a ring of chunks in address order
  with right checksums, no two free neighbours, a used sentinel at the end) and its preservation.  \<^verbatim>\<open>FF_Spec\<close> abstracts a
  heap to its set of used blocks, states what a client may rely on as the locale \<open>heap_interface\<close>, interprets it on the
  code's functions and proves safety of every heap that calls can reach.  A relocation whose copy would run over chunk
  headers, which are kept apart from the bytes, has no result.  \<^verbatim>\<open>FF_Room\<close> shows when allocations succeed, and that the
  heap the kernel boots with has room for a million bytes.
  \<^verbatim>\<open>Phys_Mem\<close> is \<^verbatim>\<open>src/mem/pmem.c\<close> and \<^verbatim>\<open>src/mem/kheap.c\<close>.  \<^verbatim>\<open>Paging\<close> and \<^verbatim>\<open>Paging_Walk\<close> are \<^verbatim>\<open>src/mem/paging.c\<close>
  against a definition of the processor's table walk: set-up gives the direct map, and adding a page maps one page and
  no other, for physical memory of at most 1 GB, which the kernel's addresses cover.

  \<^bold>\<open>File systems.\<close>  \<^verbatim>\<open>Vfs_Types\<close> has device numbers, modes and inodes.  \<^verbatim>\<open>Ramfs_Btree\<close>, \<^verbatim>\<open>Ramfs_Dir\<close> and \<^verbatim>\<open>Ramfs\<close> are
  \<^verbatim>\<open>src/fs/ramfs.c\<close>: the tree of inodes, hashed directories and the file system operations.  The locale \<open>name_table\<close> is
  the contract of a directory as a finite map from names, interpreted on the hash table.  \<^verbatim>\<open>Ramfs_Path\<close> proves path lookup
  equal to a walk over these maps, \<^verbatim>\<open>Ramfs_Data\<close> that written bytes are read back, \<^verbatim>\<open>Ramfs_Ok\<close> that mounting
  establishes and the operations keep well-formedness.  \<^verbatim>\<open>Devices\<close> is \<^verbatim>\<open>src/fs/devices.c\<close>.  \<^verbatim>\<open>Vfs\<close> is
  \<^verbatim>\<open>src/fs/vfs.c\<close>, \<^verbatim>\<open>Vfs_Spec\<close> its promises over a mounted RAM file system.  \<^verbatim>\<open>Fs_Sys\<close> has the calls of
  \<^verbatim>\<open>src/fs/fs_sys.c\<close>, \<^verbatim>\<open>Fs_Spec\<close> the round trip of a file through all these layers.

  \<^bold>\<open>Tasks and processes.\<close>  \<^verbatim>\<open>I386\<close> is \<^verbatim>\<open>src/arch/i386.c\<close>: descriptors, the global table and the interrupt table.
  \<^verbatim>\<open>Tasks\<close> is \<^verbatim>\<open>src/core/tasks.c\<close>, with fairness of the scheduler and resumption from the saved frame.  \<^verbatim>\<open>Process\<close>,
  \<^verbatim>\<open>Proc_Mem\<close> and \<^verbatim>\<open>Elf_Load\<close> are \<^verbatim>\<open>src/core/process.c\<close>: the process table, descriptors, the growth of stack and heap
  and the loading of segments, whose bytes are shown to be readable at their user addresses.

  \<^bold>\<open>Network.\<close>  \<^verbatim>\<open>Net_Frame\<close> has the headers of \<^verbatim>\<open>include/network.h\<close>, byte order, checksums and packet builders of
  \<^verbatim>\<open>src/core/net.c\<close>; \<^verbatim>\<open>Net\<close> has interfaces, neighbours, the receive queue, ARP, ICMP, waiting and the DHCP client.  The
  locale \<open>match_queue\<close> is a queue from which the first match is taken, interpreted on the linked list of frames.
  \<^verbatim>\<open>Net_Spec\<close> proves the exchanges.

  \<^bold>\<open>Terminals.\<close>  \<^verbatim>\<open>Screen\<close> is \<^verbatim>\<open>src/dev/screen.c\<close>; \<^verbatim>\<open>Screen_Spec\<close> defines an abstract text screen and proves that the
  console operations refine it and keep the display in step.  \<^verbatim>\<open>Kbd\<close> is \<^verbatim>\<open>src/dev/kbd.c\<close>.  \<^verbatim>\<open>Tty\<close> is
  \<^verbatim>\<open>src/dev/tty.c\<close>; \<^verbatim>\<open>Tty_Spec\<close> shows that written text appears on the abstract screen, \<^verbatim>\<open>Tty_Line\<close> that the line typed,
  with backspaces obeyed, is the line read while the input queue does not wrap around.

  \<^bold>\<open>Not modelled.\<close>  Drivers whose behaviour is what the device answers to port accesses or does to shared memory (network
  cards, PCI, ACPI, IDE, serial line, clock chip, interrupt controller and timer), assembly and boot code, the start of
  the first process, the dispatch of system calls from saved registers, the population of the file tree from a boot image,
  the page-fault handler, shells and self tests, the streams, formatted printing, calendar and system call wrappers of the
  C library, floating point, locale tables, and the host tools under \<^verbatim>\<open>lib/ext2fs\<close> and \<^verbatim>\<open>lib/fatfs\<close>.  Functions that only print or log are left out throughout.
\<close>

end
